(* ===== verification/Prelude.thy ===== *)
theory Prelude
  imports
    Main
    "HOL-Library.Word"
    "HOL-Library.AList"
    "HOL-Library.Char_ord"
    "HOL-Library.List_Lexorder"
    "HOL-Library.Sublist"
begin

text \<open>
  Vocabulary shared by every theory of the development: the types that stand for Rust's
  built-in ones and the generic lemmas about them.

  A Rust \<^verbatim>\<open>String\<close> or \<^verbatim>\<open>str\<close> is its sequence of UTF-8 bytes, which is what
  \<^typ>\<open>string\<close> (a list of 8-bit characters) can hold; \<^verbatim>\<open>len()\<close> is \<^const>\<open>length\<close> and
  the order of \<^verbatim>\<open>str\<close> is the lexicographic order of the bytes. A
  \<^verbatim>\<open>HashMap<String, V>\<close> is an association list with distinct keys: the order of its
  entries carries no meaning, and no operation of the model depends on it. A
  \<^verbatim>\<open>BTreeMap<String, V>\<close> is an association list sorted by key, because the code
  iterates over it in that order. \<^verbatim>\<open>usize\<close> is a 64-bit word, with the saturating and
  checked operations of the standard library written out. A \<^verbatim>\<open>Duration\<close> is its number
  of nanoseconds.
\<close>

type_synonym str = string
type_synonym usize = "64 word"
type_synonym 'v hash_map = "(str \<times> 'v) list"
type_synonym 'v btree_map = "(str \<times> 'v) list"

named_theorems usize_simps \<open>reading usize arithmetic as arithmetic on natural numbers\<close>
named_theorems map_simps \<open>lookups in hash maps and B-tree maps\<close>

section \<open>usize\<close>

definition usize_max :: nat where
  "usize_max = 2 ^ 64 - 1"

definition saturating_add :: "usize \<Rightarrow> usize \<Rightarrow> usize" where
  "saturating_add a b = (if unat a + unat b \<le> usize_max then a + b else - 1)"

definition saturating_mul :: "usize \<Rightarrow> usize \<Rightarrow> usize" where
  "saturating_mul a b = (if unat a * unat b \<le> usize_max then a * b else - 1)"

definition checked_add :: "usize \<Rightarrow> usize \<Rightarrow> usize option" where
  "checked_add a b = (if unat a + unat b \<le> usize_max then Some (a + b) else None)"

definition usize_len :: "'a list \<Rightarrow> usize" where
  "usize_len xs = word_of_nat (length xs)"

lemma unat_le_usize_max [usize_simps, simp]: "unat (a :: usize) \<le> usize_max"
  using unsigned_less [where ?'a = nat, of a] by (simp add: usize_max_def)

lemma unat_minus_one_usize [usize_simps]: "unat (- 1 :: usize) = usize_max"
  by (simp add: usize_max_def unsigned_minus_1_eq_mask mask_eq_exp_minus_1)

lemma unat_add_fits:
  "unat (a :: usize) + unat b \<le> usize_max \<Longrightarrow> unat (a + b) = unat a + unat b"
  by (simp add: usize_max_def unat_word_ariths)

lemma unat_mult_fits:
  "unat (a :: usize) * unat b \<le> usize_max \<Longrightarrow> unat (a * b) = unat a * unat b"
  by (simp add: usize_max_def unat_word_ariths)

lemma unat_sub_fits:
  "unat (b :: usize) \<le> unat a \<Longrightarrow> unat (a - b) = unat a - unat b"
  by (simp add: unat_sub word_le_nat_alt)

lemma unat_saturating_add [usize_simps]:
  "unat (saturating_add a b) = min usize_max (unat a + unat b)"
  by (auto simp: saturating_add_def unat_add_fits unat_minus_one_usize)

lemma unat_saturating_mul [usize_simps]:
  "unat (saturating_mul a b) = min usize_max (unat a * unat b)"
  by (auto simp: saturating_mul_def unat_mult_fits unat_minus_one_usize)

lemma checked_add_Some_iff [usize_simps]:
  "checked_add a b = Some c \<longleftrightarrow> unat a + unat b \<le> usize_max \<and> unat c = unat a + unat b"
  by (auto simp: checked_add_def unat_add_fits word_unat_eq_iff)

lemma checked_add_None_iff [usize_simps]:
  "checked_add a b = None \<longleftrightarrow> usize_max < unat a + unat b"
  by (auto simp: checked_add_def)

section \<open>Slices\<close>

text \<open>\<^verbatim>\<open>slice.get(index)\<close>.\<close>

definition slice_get :: "'a list \<Rightarrow> nat \<Rightarrow> 'a option" where
  "slice_get xs i = (if i < length xs then Some (xs ! i) else None)"

lemma slice_get_Some_iff: "slice_get xs i = Some x \<longleftrightarrow> i < length xs \<and> xs ! i = x"
  by (auto simp: slice_get_def)

lemma slice_get_map [simp]: "slice_get (map f xs) i = map_option f (slice_get xs i)"
  by (simp add: slice_get_def)

text \<open>
  \<^verbatim>\<open>iter().enumerate()\<close> followed by \<^verbatim>\<open>all\<close>, \<^verbatim>\<open>any\<close> or a \<^verbatim>\<open>for\<close> loop.
\<close>

lemma list_all_enumerate_iff:
  "list_all (\<lambda>(i, x). P i x) (List.enumerate n xs) \<longleftrightarrow> (\<forall>i < length xs. P (n + i) (xs ! i))"
  by (simp add: list_all_length nth_enumerate_eq)

lemma list_ex_enumerate_iff:
  "list_ex (\<lambda>(i, x). P i x) (List.enumerate n xs) \<longleftrightarrow> (\<exists>i < length xs. P (n + i) (xs ! i))"
  by (simp add: list_ex_length nth_enumerate_eq cong: conj_cong)

lemma list_all_enumerate_ignore:
  "(\<And>i x. i < length xs \<Longrightarrow> xs ! i = x \<Longrightarrow> P (n + i) x = Q x) \<Longrightarrow>
    list_all (\<lambda>(i, x). P i x) (List.enumerate n xs) = list_all Q xs"
  by (simp only: list_all_enumerate_iff) (simp add: list_all_length)

lemma list_ex_enumerate_ignore:
  "(\<And>i x. i < length xs \<Longrightarrow> xs ! i = x \<Longrightarrow> P (n + i) x = Q x) \<Longrightarrow>
    list_ex (\<lambda>(i, x). P i x) (List.enumerate n xs) = list_ex Q xs"
  by (simp only: list_ex_enumerate_iff) (auto simp: list_ex_length)

lemma find_Some_iff_in: "find P xs = Some x \<Longrightarrow> x \<in> set xs \<and> P x"
  by (auto simp: find_Some_iff)

lemma find_None_set: "find P xs = None \<longleftrightarrow> (\<forall>x \<in> set xs. \<not> P x)"
  by (auto simp: find_None_iff)

lemma map_option_find: "map_option f (find (\<lambda>x. P (f x)) xs) = find P (map f xs)"
  by (induction xs) auto

text \<open>\<^verbatim>\<open>slice.chunks(n)\<close> for \<^verbatim>\<open>n > 0\<close>; Rust panics for \<^verbatim>\<open>n = 0\<close>.\<close>

function chunks_of :: "nat \<Rightarrow> 'a list \<Rightarrow> 'a list list" where
  "chunks_of n xs = (if xs = [] \<or> n = 0 then [] else take n xs # chunks_of n (drop n xs))"
  by pat_completeness auto
termination
  by (relation "measure (\<lambda>(n, xs). length xs)") auto

declare chunks_of.simps [simp del]

lemma concat_chunks_of: "0 < n \<Longrightarrow> concat (chunks_of n xs) = xs"
proof (induction n xs rule: chunks_of.induct)
  case (1 n xs)
  then show ?case
    by (subst chunks_of.simps) (cases "xs = []"; simp)
qed

lemma chunks_of_length: "c \<in> set (chunks_of n xs) \<Longrightarrow> 0 < length c \<and> length c \<le> n"
proof (induction n xs rule: chunks_of.induct)
  case (1 n xs)
  then show ?case by (cases "xs = [] \<or> n = 0") (auto simp: chunks_of.simps [of n xs])
qed

section \<open>Maps\<close>

lemma map_of_update [map_simps, simp]:
  "map_of (AList.update k v m) = (map_of m)(k \<mapsto> v)"
  by (simp add: update_conv')

lemma distinct_update_keys [map_simps, simp]:
  "distinct (map fst m) \<Longrightarrow> distinct (map fst (AList.update k v m))"
  by (rule distinct_update)

lemma map_of_values: "distinct (map fst m) \<Longrightarrow> set (map snd m) = ran (map_of m)"
  by (simp add: ran_distinct)

text \<open>\<^verbatim>\<open>entry(k).or_insert(v)\<close> on a hash map.\<close>

definition or_insert :: "str \<Rightarrow> 'v \<Rightarrow> 'v hash_map \<Rightarrow> 'v hash_map" where
  "or_insert k v m = (case map_of m k of None \<Rightarrow> AList.update k v m | Some _ \<Rightarrow> m)"

lemma map_of_or_insert [map_simps]:
  "map_of (or_insert k v m) j =
    (case map_of m j of None \<Rightarrow> if j = k then Some v else None | Some w \<Rightarrow> Some w)"
  by (auto simp: or_insert_def split: option.splits)

text \<open>
  Filling a map with \<^verbatim>\<open>entry().or_insert()\<close> from a list of keyed entries keeps the
  first entry of each key, which is what a linear search of the list finds.
\<close>

lemma fold_or_insert_first:
  "map_of (fold (\<lambda>(k, v). or_insert k v) kvs m) j =
    (case map_of m j of None \<Rightarrow> map_of kvs j | Some w \<Rightarrow> Some w)"
proof (induction kvs arbitrary: m)
  case Nil
  then show ?case by (simp split: option.splits)
next
  case (Cons kv kvs)
  then show ?case by (cases kv) (auto simp: map_of_or_insert split: option.splits)
qed

lemma map_of_enumerate_find:
  "map_of (map (\<lambda>(i, x). (f x, i)) (List.enumerate n xs)) k = Some i \<Longrightarrow>
    n \<le> i \<and> i - n < length xs \<and> find (\<lambda>x. f x = k) xs = Some (xs ! (i - n))"
proof (induction xs arbitrary: n)
  case Nil
  then show ?case by simp
next
  case (Cons x xs)
  then show ?case
    by (cases "f x = k") (auto simp: nth_Cons' diff_Suc dest!: Cons.IH split: nat.splits)
qed

text \<open>\<^verbatim>\<open>BTreeMap::insert\<close>: the entry of the key is replaced, or inserted in key order.\<close>

fun btree_insert :: "str \<Rightarrow> 'v \<Rightarrow> 'v btree_map \<Rightarrow> 'v btree_map" where
  "btree_insert k v [] = [(k, v)]"
| "btree_insert k v ((j, w) # m) =
    (if k < j then (k, v) # (j, w) # m
     else if k = j then (k, v) # m
     else (j, w) # btree_insert k v m)"

lemma set_btree_insert_keys: "set (map fst (btree_insert k v m)) = insert k (set (map fst m))"
  by (induction k v m rule: btree_insert.induct) auto

lemma strict_sorted_btree_insert:
  "sorted_wrt (<) (map fst m) \<Longrightarrow> sorted_wrt (<) (map fst (btree_insert k v m))"
proof (induction k v m rule: btree_insert.induct)
  case (2 k v j w m)
  then show ?case
    using set_btree_insert_keys [of k v m] by (auto simp: strict_sorted_simps)
qed simp

lemma map_of_btree_insert:
  "sorted_wrt (<) (map fst m) \<Longrightarrow> map_of (btree_insert k v m) = (map_of m)(k \<mapsto> v)"
proof (induction k v m rule: btree_insert.induct)
  case (2 k v j w m)
  then show ?case by (auto simp: fun_eq_iff strict_sorted_simps)
qed simp

section \<open>Maximum of the values of an iterator\<close>

text \<open>\<^verbatim>\<open>iter.max().unwrap_or_default()\<close> on \<^verbatim>\<open>i64\<close> values.\<close>

fun max_or_default :: "int list \<Rightarrow> int" where
  "max_or_default [] = 0"
| "max_or_default (x # xs) = fold max xs x"

lemma fold_max_ge: "x \<le> fold max xs (x :: int) \<and> (\<forall>y \<in> set xs. y \<le> fold max xs x)"
proof (induction xs arbitrary: x)
  case (Cons y ys)
  then show ?case
    by (auto intro: order_trans [OF max.cobounded1] order_trans [OF max.cobounded2])
qed simp

lemma fold_max_in: "fold max xs (x :: int) \<in> insert x (set xs)"
proof (induction xs arbitrary: x)
  case (Cons y ys)
  then show ?case
    using Cons.IH [of "max x y"] by (auto simp: max_def split: if_splits)
qed simp

lemma max_or_default_ge: "y \<in> set xs \<Longrightarrow> y \<le> max_or_default xs"
  using fold_max_ge by (cases xs) auto

lemma max_or_default_in: "xs \<noteq> [] \<Longrightarrow> max_or_default xs \<in> set xs"
  using fold_max_in by (cases xs) force+

lemma max_or_default_eqI:
  "m \<in> set xs \<Longrightarrow> (\<And>y. y \<in> set xs \<Longrightarrow> y \<le> m) \<Longrightarrow> max_or_default xs = m"
  using max_or_default_ge [of m xs] max_or_default_in [of xs] by force

lemma max_or_default_set_cong: "set xs = set ys \<Longrightarrow> max_or_default xs = max_or_default ys"
proof (cases "ys = []")
  case False
  assume eq: "set xs = set ys"
  from False max_or_default_in [of ys] eq have "max_or_default ys \<in> set xs" by simp
  then show ?thesis by (rule max_or_default_eqI) (simp add: eq max_or_default_ge)
qed simp

end
