(* ===== verification/Rust_Str.thy ===== *)
theory Rust_Str
  imports Prelude
begin

text \<open>
  The operations of Rust's \<^verbatim>\<open>str\<close> and of its integer parsing and formatting that the
  SDK uses, on byte strings: searching, trimming, ASCII case folding, decimal digits and
  \<^verbatim>\<open>i64::from_str\<close>. They are part of the language's standard library and are written
  from its documentation.
\<close>

named_theorems str_simps \<open>string operations of the standard library\<close>

section \<open>Searching\<close>

definition str_contains :: "str \<Rightarrow> str \<Rightarrow> bool" where
  "str_contains hay needle = sublist needle hay"

definition str_starts_with :: "str \<Rightarrow> str \<Rightarrow> bool" where
  "str_starts_with s p = prefix p s"

definition str_ends_with :: "str \<Rightarrow> str \<Rightarrow> bool" where
  "str_ends_with s p = suffix p s"

section \<open>ASCII\<close>

definition byte_of :: "char \<Rightarrow> nat" where
  "byte_of c = of_char c"

definition is_ascii :: "str \<Rightarrow> bool" where
  "is_ascii s = list_all (\<lambda>c. byte_of c < 128) s"

definition ascii_lower :: "char \<Rightarrow> char" where
  "ascii_lower c = (if 65 \<le> byte_of c \<and> byte_of c \<le> 90 then char_of (byte_of c + 32) else c)"

definition eq_ignore_ascii_case :: "str \<Rightarrow> str \<Rightarrow> bool" where
  "eq_ignore_ascii_case a b = (map ascii_lower a = map ascii_lower b)"

lemma eq_ignore_ascii_case_refl [str_simps, simp]: "eq_ignore_ascii_case s s"
  by (simp add: eq_ignore_ascii_case_def)

lemma eq_ignore_ascii_case_length:
  "eq_ignore_ascii_case a b \<Longrightarrow> length a = length b"
  unfolding eq_ignore_ascii_case_def by (metis length_map)

section \<open>Trimming\<close>

text \<open>
  \<^verbatim>\<open>trim()\<close> removes characters with the Unicode property White\_Space: these are the
  UTF-8 encodings of the 25 code points that have it.
\<close>

definition white_space :: "str list" where
  "white_space =
    [[CHR 0x09], [CHR 0x0A], [CHR 0x0B], [CHR 0x0C], [CHR 0x0D], [CHR 0x20],
     [CHR 0xC2, CHR 0x85], [CHR 0xC2, CHR 0xA0], [CHR 0xE1, CHR 0x9A, CHR 0x80],
     [CHR 0xE2, CHR 0x80, CHR 0x80], [CHR 0xE2, CHR 0x80, CHR 0x81],
     [CHR 0xE2, CHR 0x80, CHR 0x82], [CHR 0xE2, CHR 0x80, CHR 0x83],
     [CHR 0xE2, CHR 0x80, CHR 0x84], [CHR 0xE2, CHR 0x80, CHR 0x85],
     [CHR 0xE2, CHR 0x80, CHR 0x86], [CHR 0xE2, CHR 0x80, CHR 0x87],
     [CHR 0xE2, CHR 0x80, CHR 0x88], [CHR 0xE2, CHR 0x80, CHR 0x89],
     [CHR 0xE2, CHR 0x80, CHR 0x8A], [CHR 0xE2, CHR 0x80, CHR 0xA8],
     [CHR 0xE2, CHR 0x80, CHR 0xA9], [CHR 0xE2, CHR 0x80, CHR 0xAF],
     [CHR 0xE2, CHR 0x81, CHR 0x9F], [CHR 0xE3, CHR 0x80, CHR 0x80]]"

lemma white_space_nonempty: "w \<in> set white_space \<Longrightarrow> w \<noteq> []"
  by (auto simp: white_space_def)

function str_trim_start :: "str \<Rightarrow> str" where
  "str_trim_start s =
    (case find (\<lambda>w. prefix w s) white_space of
       None \<Rightarrow> s
     | Some w \<Rightarrow> str_trim_start (drop (length w) s))"
  by pat_completeness auto
termination
proof (relation "measure length")
  fix s w
  assume "find (\<lambda>w. prefix w s) white_space = Some w"
  then have "w \<in> set white_space" and "prefix w s" by (auto dest: find_Some_iff_in)
  then have "0 < length w" and "length w \<le> length s"
    by (auto dest: white_space_nonempty prefix_length_le)
  then show "(drop (length w) s, s) \<in> measure length" by (auto intro: diff_less)
qed simp

declare str_trim_start.simps [simp del]

text \<open>\<^verbatim>\<open>s.trim().is_empty()\<close>: nothing is left once the leading white space is gone.\<close>

definition str_is_blank :: "str \<Rightarrow> bool" where
  "str_is_blank s = (str_trim_start s = [])"

lemma str_is_blank_Nil [str_simps, simp]: "str_is_blank []"
  by (simp add: str_is_blank_def str_trim_start.simps white_space_def)

text \<open>\<^verbatim>\<open>trim_end_matches(c)\<close> for a single character.\<close>

definition str_trim_end_matches :: "char \<Rightarrow> str \<Rightarrow> str" where
  "str_trim_end_matches c s = rev (dropWhile (\<lambda>x. x = c) (rev s))"

lemma str_trim_end_matches_last:
  "str_trim_end_matches c s \<noteq> [] \<Longrightarrow> last (str_trim_end_matches c s) \<noteq> c"
  using hd_dropWhile [of "\<lambda>x. x = c" "rev s"]
  by (simp add: str_trim_end_matches_def last_rev)

lemma str_trim_end_matches_append:
  "\<exists>n. s = str_trim_end_matches c s @ replicate n c"
proof -
  let ?t = "takeWhile (\<lambda>x. x = c) (rev s)"
  have "rev ?t = replicate (length ?t) c"
    by (rule replicate_eqI) (auto dest: set_takeWhileD)
  moreover have "rev (?t @ dropWhile (\<lambda>x. x = c) (rev s)) = s"
    by (simp only: takeWhile_dropWhile_id rev_rev_ident)
  ultimately have "s = str_trim_end_matches c s @ replicate (length ?t) c"
    unfolding str_trim_end_matches_def by (simp only: rev_append)
  then show ?thesis by blast
qed

lemma set_str_trim_end_matches: "set (str_trim_end_matches c s) \<subseteq> set s"
  unfolding str_trim_end_matches_def by (auto dest: set_dropWhileD)

section \<open>Decimal numbers\<close>

definition is_digit :: "char \<Rightarrow> bool" where
  "is_digit c = (48 \<le> byte_of c \<and> byte_of c \<le> 57)"

definition digit_val :: "char \<Rightarrow> nat" where
  "digit_val c = byte_of c - 48"

definition digit_char :: "nat \<Rightarrow> char" where
  "digit_char d = char_of (d + 48)"

definition digits_val :: "str \<Rightarrow> nat" where
  "digits_val s = foldl (\<lambda>n c. 10 * n + digit_val c) 0 s"

text \<open>\<^verbatim>\<open>to_string()\<close> of an unsigned number.\<close>

fun show_nat :: "nat \<Rightarrow> str" where
  "show_nat n = (if n < 10 then [digit_char n] else show_nat (n div 10) @ [digit_char (n mod 10)])"

declare show_nat.simps [simp del]

text \<open>\<^verbatim>\<open>format!("{number:0length$}")\<close>: padded with zeros on the left to at least the width.\<close>

definition show_nat_padded :: "nat \<Rightarrow> nat \<Rightarrow> str" where
  "show_nat_padded width n =
    (let s = show_nat n in replicate (width - length s) (CHR ''0'') @ s)"

definition parse_nat :: "str \<Rightarrow> nat option" where
  "parse_nat s = (if s \<noteq> [] \<and> list_all is_digit s then Some (digits_val s) else None)"

lemma byte_of_digit_char [simp]: "d < 10 \<Longrightarrow> byte_of (digit_char d) = d + 48"
  by (simp add: byte_of_def digit_char_def)

lemma is_digit_digit_char [simp]: "d < 10 \<Longrightarrow> is_digit (digit_char d)"
  by (simp add: is_digit_def)

lemma digit_val_digit_char [simp]: "d < 10 \<Longrightarrow> digit_val (digit_char d) = d"
  by (simp add: digit_val_def)

lemma digits_val_snoc [simp]: "digits_val (s @ [c]) = 10 * digits_val s + digit_val c"
  by (simp add: digits_val_def)

lemma show_nat_digits: "list_all is_digit (show_nat n)"
proof (induction n rule: show_nat.induct)
  case (1 n)
  then show ?case by (subst show_nat.simps) auto
qed

lemma show_nat_nonempty [simp]: "show_nat n \<noteq> []"
  by (subst show_nat.simps) simp

lemma digits_val_show_nat [simp]: "digits_val (show_nat n) = n"
proof (induction n rule: show_nat.induct)
  case (1 n)
  then show ?case by (subst show_nat.simps) (auto simp: digits_val_def)
qed

lemma parse_nat_show_nat [simp]: "parse_nat (show_nat n) = Some n"
  by (simp add: parse_nat_def show_nat_digits)

lemma digits_val_replicate_zero [simp]: "digits_val (replicate k (CHR ''0'') @ s) = digits_val s"
proof (induction k)
  case (Suc k)
  then show ?case by (simp add: digits_val_def digit_val_def byte_of_def)
qed simp

lemma digits_val_show_nat_padded [simp]: "digits_val (show_nat_padded w n) = n"
  by (simp add: show_nat_padded_def Let_def)

lemma show_nat_padded_digits: "list_all is_digit (show_nat_padded w n)"
  using show_nat_digits [of n]
  by (auto simp: show_nat_padded_def Let_def list_all_iff is_digit_def byte_of_def)

lemma length_show_nat_le: "0 < k \<Longrightarrow> n < 10 ^ k \<Longrightarrow> length (show_nat n) \<le> k"
proof (induction n arbitrary: k rule: show_nat.induct)
  case (1 n)
  show ?case
  proof (cases "n < 10")
    case True
    with "1.prems" show ?thesis by (subst show_nat.simps) simp
  next
    case False
    from "1.prems" obtain j where k: "k = Suc j" by (cases k) auto
    with False "1.prems" have j: "0 < j" by (cases j) auto
    from "1.prems" k have "n < 10 ^ j * 10" by simp
    then have "n div 10 < 10 ^ j" by (rule less_mult_imp_div_less)
    with "1.IH" False j have "length (show_nat (n div 10)) \<le> j" by blast
    with False k show ?thesis by (subst show_nat.simps) simp
  qed
qed

lemma length_show_nat_padded: "0 < w \<Longrightarrow> n < 10 ^ w \<Longrightarrow> length (show_nat_padded w n) = w"
  using length_show_nat_le by (simp add: show_nat_padded_def Let_def)

section \<open>i64\<close>

text \<open>
  An \<^verbatim>\<open>i64\<close> is an integer within its range: the SDK compares, stores, parses and
  converts such values and does no arithmetic on them.
\<close>

definition i64_min :: int where "i64_min = - (2 ^ 63)"
definition i64_max :: int where "i64_max = 2 ^ 63 - 1"

definition is_i64 :: "int \<Rightarrow> bool" where
  "is_i64 i = (i64_min \<le> i \<and> i \<le> i64_max)"

text \<open>
  \<^verbatim>\<open>str::parse::<i64>()\<close>: an optional sign and at least one digit; a value out of
  range is an error.
\<close>

definition parse_i64 :: "str \<Rightarrow> int option" where
  "parse_i64 s =
    (let r = (case s of
                [] \<Rightarrow> None
              | c # cs \<Rightarrow>
                  if c = CHR ''-'' then map_option (\<lambda>n. - int n) (parse_nat cs)
                  else if c = CHR ''+'' then map_option int (parse_nat cs)
                  else map_option int (parse_nat s))
     in case r of
          None \<Rightarrow> None
        | Some i \<Rightarrow> if is_i64 i then Some i else None)"

definition show_i64 :: "int \<Rightarrow> str" where
  "show_i64 i = (if i < 0 then CHR ''-'' # show_nat (nat (- i)) else show_nat (nat i))"

lemma parse_i64_range: "parse_i64 s = Some i \<Longrightarrow> is_i64 i"
  by (auto simp: parse_i64_def Let_def split: option.splits if_splits list.splits)

lemma show_nat_Cons_digit: "show_nat n = c # cs \<Longrightarrow> is_digit c"
  using show_nat_digits [of n] by simp

lemma sign_not_digit: "\<not> is_digit (CHR ''-'')" "\<not> is_digit (CHR ''+'')"
  by (simp_all add: is_digit_def byte_of_def)

lemma parse_i64_show_i64: "is_i64 i \<Longrightarrow> parse_i64 (show_i64 i) = Some i"
proof (cases "i < 0")
  case False
  assume i: "is_i64 i"
  obtain c cs where eq: "show_nat (nat i) = c # cs" by (cases "show_nat (nat i)") auto
  then have "c \<noteq> CHR ''-''" "c \<noteq> CHR ''+''"
    using show_nat_Cons_digit sign_not_digit by blast+
  moreover have "parse_nat (c # cs) = Some (nat i)" using eq by (metis parse_nat_show_nat)
  ultimately show ?thesis using False i eq by (simp add: parse_i64_def show_i64_def)
qed (simp add: parse_i64_def show_i64_def)

end
