(* ===== verification/Rust_F64.thy ===== *)
theory Rust_F64
  imports Complex_Main Rust_Str "HOL-Library.Log_Nat"
begin

text \<open>
  Rust's \<^verbatim>\<open>f64\<close>: IEEE 754 binary64 values, with the comparisons, subtraction,
  division, absolute value and decimal parsing that the SDK uses, rounded to nearest with
  ties to even. A finite value is a sign and a rational magnitude; the operations only build
  magnitudes that binary64 can represent.
\<close>

section \<open>Values and comparisons\<close>

datatype f64 = NaN | Inf (negative: bool) | Fin bool rat

fun f64_val :: "f64 \<Rightarrow> rat" where
  "f64_val (Fin s m) = (if s then - m else m)"
| "f64_val _ = 0"

fun f64_is_finite :: "f64 \<Rightarrow> bool" where
  "f64_is_finite (Fin s m) = True"
| "f64_is_finite _ = False"

fun f64_eq :: "f64 \<Rightarrow> f64 \<Rightarrow> bool" where
  "f64_eq (Fin s m) (Fin t n) = (f64_val (Fin s m) = f64_val (Fin t n))"
| "f64_eq (Inf s) (Inf t) = (s = t)"
| "f64_eq _ _ = False"

fun f64_lt :: "f64 \<Rightarrow> f64 \<Rightarrow> bool" where
  "f64_lt (Fin s m) (Fin t n) = (f64_val (Fin s m) < f64_val (Fin t n))"
| "f64_lt (Fin s m) (Inf t) = (\<not> t)"
| "f64_lt (Inf s) (Fin t n) = s"
| "f64_lt (Inf s) (Inf t) = (s \<and> \<not> t)"
| "f64_lt NaN _ = False"
| "f64_lt _ NaN = False"

definition f64_le :: "f64 \<Rightarrow> f64 \<Rightarrow> bool" where
  "f64_le a b = (f64_lt a b \<or> f64_eq a b)"

lemma f64_finite_cases [consumes 1]:
  assumes "f64_is_finite x" obtains s m where "x = Fin s m"
  using assms by (cases x) auto

lemma f64_lt_finite:
  "f64_is_finite a \<Longrightarrow> f64_is_finite b \<Longrightarrow> f64_lt a b \<longleftrightarrow> f64_val a < f64_val b"
  by (cases a; cases b) auto

lemma f64_eq_finite:
  "f64_is_finite a \<Longrightarrow> f64_is_finite b \<Longrightarrow> f64_eq a b \<longleftrightarrow> f64_val a = f64_val b"
  by (cases a; cases b) auto

lemma f64_le_finite:
  "f64_is_finite a \<Longrightarrow> f64_is_finite b \<Longrightarrow> f64_le a b \<longleftrightarrow> f64_val a \<le> f64_val b"
  by (auto simp: f64_le_def f64_lt_finite f64_eq_finite)

lemma f64_nan_compare [simp]:
  "\<not> f64_lt NaN x" "\<not> f64_lt x NaN" "\<not> f64_le NaN x" "\<not> f64_le x NaN" "\<not> f64_eq NaN x" "\<not> f64_eq x NaN"
  by (cases x; simp add: f64_le_def)+

lemmas f64_compare = f64_lt_finite f64_eq_finite f64_le_finite

section \<open>Rounding\<close>

definition ilog2 :: "rat \<Rightarrow> int" where
  "ilog2 x =
    (let (n, d) = quotient_of x; k = bitlen n - bitlen d
     in if 2 powi k \<le> x then k else k - 1)"

definition round_half_even :: "rat \<Rightarrow> int" where
  "round_half_even x =
    (let f = \<lfloor>x\<rfloor>; r = x - of_int f
     in if r < 1 / 2 then f else if 1 / 2 < r then f + 1 else if even f then f else f + 1)"

text \<open>The exponent of the last place of a magnitude: 53 significant bits, subnormals below.\<close>

definition ulp_exp :: "rat \<Rightarrow> int" where
  "ulp_exp m = max (ilog2 m - 52) (- 1074)"

definition round_mag :: "rat \<Rightarrow> rat" where
  "round_mag m =
    (if m = 0 then 0
     else of_int (round_half_even (m / 2 powi ulp_exp m)) * 2 powi ulp_exp m)"

definition f64_round :: "bool \<Rightarrow> rat \<Rightarrow> f64" where
  "f64_round s m = (let r = round_mag m in if 2 powi 1024 \<le> r then Inf s else Fin s r)"

lemma pow2_pos [simp]: "0 < (2 :: rat) powi k"
  by (rule zero_less_power_int) simp

lemma pow2_add: "(2 :: rat) powi (a + b) = 2 powi a * 2 powi b"
  by (simp add: power_int_add)

lemma pow2_le_iff [simp]: "(2 :: rat) powi a \<le> 2 powi b \<longleftrightarrow> a \<le> b"
  by (meson linorder_not_less one_less_numeral_iff order_less_imp_le power_int_increasing
      power_int_strict_increasing semiring_norm(76) less_le_not_le)

lemma ilog2_bounds:
  assumes "0 < x"
  shows "2 powi ilog2 x \<le> x" and "x < 2 powi (ilog2 x + 1)"
proof -
  obtain n d where q: "quotient_of x = (n, d)" by fastforce
  have d: "0 < d" using q by (rule quotient_of_denom_pos)
  have x: "x = of_int n / of_int d" using q by (rule quotient_of_div)
  have n: "0 < n" using assms d unfolding x by (simp add: zero_less_divide_iff)
  let ?a = "bitlen n" and ?b = "bitlen d"
  have pos: "0 < ?a" "0 < ?b"
    using n d bitlen_nonneg [of n] bitlen_nonneg [of d] bitlen_eq_zero_iff [of n] bitlen_eq_zero_iff [of d]
    by linarith+
  have bound: "2 powi (bitlen k - 1) \<le> (of_int k :: rat) \<and> (of_int k :: rat) < 2 powi bitlen k"
    if "0 < k" "0 < bitlen k" for k
  proof -
    have "2 ^ nat (bitlen k - 1) \<le> k" "k < 2 ^ nat (bitlen k)" using bitlen_bounds [OF that(1)] by auto
    then have "(2 :: rat) ^ nat (bitlen k - 1) \<le> of_int k" "(of_int k :: rat) < 2 ^ nat (bitlen k)"
      by (metis of_int_le_iff of_int_numeral of_int_power, metis of_int_less_iff of_int_numeral of_int_power)
    then show ?thesis using that(2) by (simp add: power_int_nonneg_exp)
  qed
  have nb: "2 powi (?a - 1) \<le> (of_int n :: rat)" "(of_int n :: rat) < 2 powi ?a"
    and db: "2 powi (?b - 1) \<le> (of_int d :: rat)" "(of_int d :: rat) < 2 powi ?b"
    using bound [OF n pos(1)] bound [OF d pos(2)] by auto
  have "x < 2 powi ?a / 2 powi (?b - 1)"
    unfolding x using nb db d n by (intro frac_less) auto
  then have up: "x < 2 powi (?a - ?b + 1)" by (simp add: power_int_diff power_int_add)
  have "2 powi (?a - 1) / 2 powi ?b \<le> x"
    unfolding x using nb db d n by (intro frac_le) auto
  then have lo: "2 powi (?a - ?b - 1) \<le> x" by (simp add: power_int_diff)
  show "2 powi ilog2 x \<le> x" using lo by (simp add: ilog2_def q Let_def)
  show "x < 2 powi (ilog2 x + 1)" using up by (auto simp: ilog2_def q Let_def)
qed

lemma ilog2_less:
  assumes "0 < x" and "x < 2 powi k"
  shows "ilog2 x < k"
  using ilog2_bounds(1) [OF assms(1)] assms(2) pow2_le_iff [of k "ilog2 x"]
  by (meson linorder_not_less order_trans less_le_not_le)

lemma round_half_even_of_int [simp]: "round_half_even (of_int k) = k"
  by (simp add: round_half_even_def)

text \<open>Rounding is monotone, so comparing rounded values never inverts an order.\<close>

lemma round_half_even_mono:
  assumes "x \<le> y"
  shows "round_half_even x \<le> round_half_even y"
proof (cases "\<lfloor>x\<rfloor> = \<lfloor>y\<rfloor>")
  case True
  with assms show ?thesis by (auto simp: round_half_even_def Let_def)
next
  case False
  with floor_mono [OF assms] have "\<lfloor>x\<rfloor> + 1 \<le> \<lfloor>y\<rfloor>" by simp
  then show ?thesis by (auto simp: round_half_even_def Let_def)
qed

lemma ilog2_mono:
  assumes "0 < x" and "x \<le> y"
  shows "ilog2 x \<le> ilog2 y"
proof -
  have "x < 2 powi (ilog2 y + 1)" using ilog2_bounds(2) [of y] assms by linarith
  with assms(1) have "ilog2 x < ilog2 y + 1" by (rule ilog2_less)
  then show ?thesis by simp
qed

lemma round_mag_low:
  assumes "0 < x"
  shows "round_mag x \<le> 2 powi (ulp_exp x + 53)"
proof -
  have "2 powi (ilog2 x + 1) \<le> (2 :: rat) powi (ulp_exp x + 53)"
    unfolding pow2_le_iff by (simp add: ulp_exp_def)
  with ilog2_bounds(2) [OF assms] have "x \<le> 2 powi (ulp_exp x + 53)" by linarith
  then have "x / 2 powi ulp_exp x \<le> of_int (2 ^ 53)" by (simp add: divide_le_eq pow2_add mult.commute)
  then have "round_half_even (x / 2 powi ulp_exp x) \<le> 2 ^ 53"
    using round_half_even_mono round_half_even_of_int by metis
  then have "(of_int (round_half_even (x / 2 powi ulp_exp x)) :: rat) \<le> of_int (2 ^ 53)"
    by (simp only: of_int_le_iff)
  then show ?thesis using assms by (simp add: round_mag_def pow2_add mult.commute)
qed

lemma round_mag_high:
  assumes "0 < y" and "- 1074 < ulp_exp y"
  shows "2 powi (ulp_exp y + 52) \<le> round_mag y"
proof -
  from assms(2) have "ulp_exp y + 52 = ilog2 y" by (auto simp: ulp_exp_def max_def split: if_splits)
  with ilog2_bounds(1) [OF assms(1)] have "2 powi (ulp_exp y + 52) \<le> y" by simp
  then have "of_int (2 ^ 52) \<le> y / 2 powi ulp_exp y" by (simp add: le_divide_eq pow2_add mult.commute)
  then have "2 ^ 52 \<le> round_half_even (y / 2 powi ulp_exp y)"
    using round_half_even_mono round_half_even_of_int by metis
  then have "(of_int (2 ^ 52) :: rat) \<le> of_int (round_half_even (y / 2 powi ulp_exp y))"
    by (simp only: of_int_le_iff)
  then show ?thesis using assms by (simp add: round_mag_def pow2_add mult.commute)
qed

lemma round_mag_mono:
  assumes "0 < x" and "x \<le> y"
  shows "round_mag x \<le> round_mag y"
proof (cases "ulp_exp x = ulp_exp y")
  case True
  have "x / 2 powi ulp_exp x \<le> y / 2 powi ulp_exp x" using assms(2) by (simp add: divide_right_mono)
  then have "round_half_even (x / 2 powi ulp_exp x) \<le> round_half_even (y / 2 powi ulp_exp y)"
    unfolding True by (rule round_half_even_mono)
  then show ?thesis using assms by (simp add: round_mag_def True)
next
  case False
  have y: "0 < y" using assms by linarith
  from False ilog2_mono [OF assms] have less: "ulp_exp x < ulp_exp y" by (auto simp: ulp_exp_def)
  then have "- 1074 < ulp_exp y" by (auto simp: ulp_exp_def)
  note round_mag_low [OF assms(1)]
  also have "2 powi (ulp_exp x + 53) \<le> (2 :: rat) powi (ulp_exp y + 52)"
    unfolding pow2_le_iff using less by simp
  also note round_mag_high [OF y \<open>- 1074 < ulp_exp y\<close>]
  finally show ?thesis .
qed

lemma round_mag_nonneg:
  assumes "0 \<le> x"
  shows "0 \<le> round_mag x"
proof -
  have "0 \<le> x / 2 powi ulp_exp x" using assms by simp
  then have "0 \<le> round_half_even (x / 2 powi ulp_exp x)"
    using round_half_even_mono [of 0 "x / 2 powi ulp_exp x"] round_half_even_of_int [of 0] by simp
  then show ?thesis by (simp add: round_mag_def)
qed

text \<open>The magnitudes of finite binary64 values.\<close>

definition f64_mag :: "rat \<Rightarrow> bool" where
  "f64_mag m = (\<exists>k e. m = of_int k * 2 powi e \<and> 0 \<le> k \<and> k < 2 ^ 53 \<and> - 1074 \<le> e \<and> e \<le> 971)"

lemma round_mag_id:
  assumes "m = of_int k * 2 powi e" and "0 \<le> k" and "k < 2 ^ 53" and "- 1074 \<le> e"
  shows "round_mag m = m"
proof (cases "k = 0")
  case False
  then have m: "0 < m" using assms by simp
  have "(of_int k :: rat) < 2 ^ 53"
    using assms(3) by (metis of_int_less_iff of_int_numeral of_int_power)
  then have "m < 2 powi (53 + e)" using assms(1) by (simp add: pow2_add)
  then have "ilog2 m < 53 + e" using m by (intro ilog2_less)
  then have ulp: "ulp_exp m \<le> e" using assms(4) by (simp add: ulp_exp_def)
  then obtain j where j: "e = ulp_exp m + int j" by (metis zle_iff_zadd)
  have "(2 :: rat) powi e = 2 powi ulp_exp m * 2 ^ j" by (subst j) (simp add: pow2_add)
  then have "of_int k * 2 powi e = of_int (k * 2 ^ j) * (2 :: rat) powi ulp_exp m"
    by (simp only: of_int_mult of_int_power of_int_numeral mult.assoc mult.commute mult.left_commute)
  then have scaled: "m = of_int (k * 2 ^ j) * 2 powi ulp_exp m" using assms(1) by simp
  then have "m / 2 powi ulp_exp m = of_int (k * 2 ^ j)" by (metis less_irrefl nonzero_mult_div_cancel_right pow2_pos)
  then have "round_half_even (m / 2 powi ulp_exp m) = k * 2 ^ j" by (simp only: round_half_even_of_int)
  then show ?thesis using m scaled by (simp add: round_mag_def)
qed (simp add: assms(1) round_mag_def)

lemma f64_round_id: "f64_mag m \<Longrightarrow> f64_round s m = Fin s m"
proof -
  assume "f64_mag m"
  then obtain k e where m: "m = of_int k * 2 powi e" "0 \<le> k" "k < 2 ^ 53" "- 1074 \<le> e" "e \<le> 971"
    by (auto simp: f64_mag_def)
  then have r: "round_mag m = m" by (intro round_mag_id)
  have "(of_int k :: rat) < 2 ^ 53" using m(3) by (metis of_int_less_iff of_int_numeral of_int_power)
  then have "m < 2 powi 53 * 2 powi e" using m(1) by simp
  also have "\<dots> = 2 powi (53 + e)" by (simp only: pow2_add)
  also have "\<dots> \<le> 2 powi 1024" unfolding pow2_le_iff using m(5) by simp
  finally show ?thesis by (simp add: f64_round_def r Let_def)
qed

lemma f64_mag_of_nat: "n < 2 ^ 53 \<Longrightarrow> f64_mag (of_nat n)"
proof -
  assume "n < 2 ^ 53"
  then have "int n < 2 ^ 53" by (metis of_nat_less_iff of_nat_numeral of_nat_power)
  then show ?thesis unfolding f64_mag_def by (intro exI [of _ "int n"] exI [of _ 0]) simp
qed

section \<open>Arithmetic\<close>

fun f64_abs :: "f64 \<Rightarrow> f64" where
  "f64_abs (Fin s m) = Fin False m"
| "f64_abs (Inf s) = Inf False"
| "f64_abs NaN = NaN"

fun f64_sub :: "f64 \<Rightarrow> f64 \<Rightarrow> f64" where
  "f64_sub (Fin s m) (Fin t n) =
    (let d = f64_val (Fin s m) - f64_val (Fin t n)
     in if d = 0 then Fin (s \<and> \<not> t) 0 else f64_round (d < 0) \<bar>d\<bar>)"
| "f64_sub (Fin s m) (Inf t) = Inf (\<not> t)"
| "f64_sub (Inf s) (Fin t n) = Inf s"
| "f64_sub (Inf s) (Inf t) = (if s = t then NaN else Inf s)"
| "f64_sub NaN _ = NaN"
| "f64_sub _ NaN = NaN"

fun f64_div :: "f64 \<Rightarrow> f64 \<Rightarrow> f64" where
  "f64_div (Fin s m) (Fin t n) =
    (if n = 0 then (if m = 0 then NaN else Inf (s \<noteq> t)) else f64_round (s \<noteq> t) (m / n))"
| "f64_div (Fin s m) (Inf t) = Fin (s \<noteq> t) 0"
| "f64_div (Inf s) (Fin t n) = Inf (s \<noteq> t)"
| "f64_div (Inf s) (Inf t) = NaN"
| "f64_div NaN _ = NaN"
| "f64_div _ NaN = NaN"

text \<open>\<^verbatim>\<open>f64::from\<close> for \<^verbatim>\<open>i32\<close>, and the conversion of integers that JSON numbers need.\<close>

definition f64_of_int :: "int \<Rightarrow> f64" where
  "f64_of_int i = f64_round (i < 0) (of_int \<bar>i\<bar>)"

lemma f64_of_int_exact: "\<bar>i\<bar> < 2 ^ 53 \<Longrightarrow> f64_of_int i = Fin (i < 0) (of_int \<bar>i\<bar>)"
proof -
  assume "\<bar>i\<bar> < 2 ^ 53"
  then have "nat \<bar>i\<bar> < 2 ^ 53" by (simp add: nat_less_iff)
  then have "f64_mag (of_nat (nat \<bar>i\<bar>))" by (rule f64_mag_of_nat)
  then show ?thesis by (simp add: f64_of_int_def f64_round_id)
qed

text \<open>
  Subtracting a larger number from the same number gives a smaller one: a bound on the
  difference survives.
\<close>

lemma f64_round_negative_below:
  "0 \<le> m \<Longrightarrow> 0 < b \<Longrightarrow> f64_lt (f64_round True m) (Fin False b)"
  using round_mag_nonneg [of m] by (auto simp: f64_round_def Let_def)

lemma f64_sub_antimono_bound:
  assumes "f64_is_finite a" "f64_is_finite x" "f64_is_finite y"
    and le: "f64_le x y" and bound: "f64_lt (f64_sub a x) (Fin False b)" and "0 < b"
  shows "f64_lt (f64_sub a y) (Fin False b)"
proof -
  obtain s m t n u k where fin: "a = Fin s m" "x = Fin t n" "y = Fin u k"
    using assms(1-3) by (auto elim!: f64_finite_cases)
  define d where "d = f64_val a - f64_val x"
  define d' where "d' = f64_val a - f64_val y"
  have dd: "d' \<le> d" using le assms(1-3) by (simp add: f64_le_finite d_def d'_def)
  consider "d' = 0" | "d' < 0" | "0 < d'" by linarith
  then show ?thesis
  proof cases
    case 1
    then show ?thesis using \<open>0 < b\<close> by (simp add: fin d'_def Let_def)
  next
    case 2
    then have "f64_sub a y = f64_round True \<bar>d'\<bar>" by (simp add: fin d'_def Let_def)
    then show ?thesis using f64_round_negative_below [of "\<bar>d'\<bar>" b] \<open>0 < b\<close> by simp
  next
    case 3
    then have "round_mag d' \<le> round_mag d" using dd by (rule round_mag_mono)
    moreover have "f64_sub a x = f64_round False d" using 3 dd by (simp add: fin d_def Let_def)
    moreover have "f64_sub a y = f64_round False d'" using 3 by (simp add: fin d'_def Let_def)
    ultimately show ?thesis using bound by (auto simp: f64_round_def Let_def split: if_splits)
  qed
qed

section \<open>Parsing\<close>

text \<open>
  \<^verbatim>\<open>str::parse::<f64>()\<close>: an optional sign followed by \<open>inf\<close>, \<open>infinity\<close> or
  \<open>nan\<close> in any ASCII case, or by digits with an optional fraction (at least one digit
  around the point) and an optional exponent.
\<close>

definition strip_sign :: "str \<Rightarrow> bool \<times> str" where
  "strip_sign s =
    (case s of
       [] \<Rightarrow> (False, [])
     | c # cs \<Rightarrow> if c = CHR ''-'' then (True, cs) else if c = CHR ''+'' then (False, cs) else (False, s))"

definition parse_exponent :: "str \<Rightarrow> int option" where
  "parse_exponent s =
    (let (neg, ds) = strip_sign s
     in map_option (\<lambda>n. if neg then - int n else int n) (parse_nat ds))"

definition parse_decimal :: "str \<Rightarrow> (nat \<times> int) option" where
  "parse_decimal s =
    (let ip = takeWhile is_digit s; r = dropWhile is_digit s;
         (fp, r2) = (case r of
                       [] \<Rightarrow> ([], [])
                     | c # cs \<Rightarrow> if c = CHR ''.'' then (takeWhile is_digit cs, dropWhile is_digit cs) else ([], r));
         value = digits_val (ip @ fp); scale = - int (length fp)
     in if ip = [] \<and> fp = [] then None
        else case r2 of
               [] \<Rightarrow> Some (value, scale)
             | c # cs \<Rightarrow>
                 if c = CHR ''e'' \<or> c = CHR ''E''
                 then map_option (\<lambda>x. (value, x + scale)) (parse_exponent cs)
                 else None)"

definition parse_f64 :: "str \<Rightarrow> f64 option" where
  "parse_f64 s =
    (let (neg, r) = strip_sign s
     in if eq_ignore_ascii_case r ''inf'' \<or> eq_ignore_ascii_case r ''infinity'' then Some (Inf neg)
        else if eq_ignore_ascii_case r ''nan'' then Some NaN
        else map_option (\<lambda>(n, x). f64_round neg (of_nat n * 10 powi x)) (parse_decimal r))"

text \<open>\<^verbatim>\<open>parse::<f64>().ok().filter(|number| number.is_finite())\<close>.\<close>

definition parse_finite_f64 :: "str \<Rightarrow> f64 option" where
  "parse_finite_f64 s =
    (case parse_f64 s of None \<Rightarrow> None | Some x \<Rightarrow> if f64_is_finite x then Some x else None)"

lemma parse_finite_f64_finite: "parse_finite_f64 s = Some x \<Longrightarrow> f64_is_finite x"
  by (auto simp: parse_finite_f64_def split: option.splits if_splits)

end
