(* ===== verification/External.thy ===== *)
theory External
  imports Rust_F64
begin

text \<open>
  What the SDK takes from crates outside the repository. A JSON document is serde's data
  model (the tree \<^verbatim>\<open>serde_json\<close> parses text into, object entries in document order);
  the crates themselves are the functions of a record that the definitions using them take
  as an argument, so every theorem holds for all of them. Where a theorem relies on a
  documented behaviour of a crate, that behaviour is a hypothesis of the theorem.
\<close>

datatype json_number = PosInt nat | NegInt int | Float f64

datatype json =
    JNull
  | JBool bool
  | JNum json_number
  | JStr str
  | JArr "json list"
  | JObj "(str \<times> json) list"

record 'r crates =
  json_parse :: "str \<Rightarrow> json option"   \<comment> \<open>\<^verbatim>\<open>serde_json\<close>: text (or bytes) to a tree\<close>
  json_error :: "str \<Rightarrow> str"           \<comment> \<open>\<^verbatim>\<open>serde_json::Error::to_string\<close> for a rejected text\<close>
  rfc3339_millis :: "str \<Rightarrow> int option" \<comment> \<open>\<^verbatim>\<open>chrono\<close>: \<^verbatim>\<open>parse_from_rfc3339\<close>, \<^verbatim>\<open>timestamp_millis\<close>\<close>
  regex_new :: "str \<Rightarrow> 'r option"        \<comment> \<open>\<^verbatim>\<open>regex\<close>: \<^verbatim>\<open>Regex::new(..).ok()\<close>\<close>
  regex_is_match :: "'r \<Rightarrow> str \<Rightarrow> bool"
  md5_digest :: "str \<Rightarrow> 8 word list"     \<comment> \<open>\<^verbatim>\<open>md5\<close>: \<^verbatim>\<open>Md5::digest\<close>\<close>

section \<open>Deserializing plain values\<close>

fun decode_str :: "json \<Rightarrow> str option" where
  "decode_str (JStr s) = Some s"
| "decode_str _ = None"

fun decode_bool :: "json \<Rightarrow> bool option" where
  "decode_bool (JBool b) = Some b"
| "decode_bool _ = None"

fun decode_f64 :: "json \<Rightarrow> f64 option" where
  "decode_f64 (JNum (PosInt n)) = Some (f64_of_int (int n))"
| "decode_f64 (JNum (NegInt i)) = Some (f64_of_int i)"
| "decode_f64 (JNum (Float x)) = Some x"
| "decode_f64 _ = None"

fun decode_list :: "(json \<Rightarrow> 'a option) \<Rightarrow> json \<Rightarrow> 'a list option" where
  "decode_list d (JArr js) = those (map d js)"
| "decode_list d _ = None"

fun decode_option :: "(json \<Rightarrow> 'a option) \<Rightarrow> json \<Rightarrow> 'a option option" where
  "decode_option d JNull = Some None"
| "decode_option d j = map_option Some (d j)"

text \<open>\<^verbatim>\<open>Number::as_i64\<close>.\<close>

fun as_i64 :: "json_number \<Rightarrow> int option" where
  "as_i64 (PosInt n) = (if int n \<le> i64_max then Some (int n) else None)"
| "as_i64 (NegInt i) = Some i"
| "as_i64 (Float x) = None"

text \<open>
  A derived \<^verbatim>\<open>Deserialize\<close> takes a struct from an object (unknown entries skipped, a
  repeated field is an error) or from an array of its fields in declaration order.
\<close>

fun struct_fields :: "str list \<Rightarrow> json \<Rightarrow> (str \<times> json) list option" where
  "struct_fields names (JObj kvs) =
    (let known = filter (\<lambda>(k, v). k \<in> set names) kvs
     in if distinct (map fst known) then Some known else None)"
| "struct_fields names (JArr js) =
    (if length js \<le> length names then Some (zip names js) else None)"
| "struct_fields names _ = None"

definition field_or :: "'a \<Rightarrow> (json \<Rightarrow> 'a option) \<Rightarrow> str \<Rightarrow> (str \<times> json) list \<Rightarrow> 'a option" where
  "field_or dflt d name kvs = (case map_of kvs name of None \<Rightarrow> Some dflt | Some j \<Rightarrow> d j)"

definition field_required :: "(json \<Rightarrow> 'a option) \<Rightarrow> str \<Rightarrow> (str \<times> json) list \<Rightarrow> 'a option" where
  "field_required d name kvs = (case map_of kvs name of None \<Rightarrow> None | Some j \<Rightarrow> d j)"

text \<open>
  \<^verbatim>\<open>serde_json::from_str::<Vec<String>>\<close> and
  \<^verbatim>\<open>serde_json::from_str::<Option<Vec<String>>>\<close>, the two shapes in which targeting
  conditions carry lists.
\<close>

definition json_strings :: "'r crates \<Rightarrow> str \<Rightarrow> str list option" where
  "json_strings x s = Option.bind (json_parse x s) (decode_list decode_str)"

definition json_opt_strings :: "'r crates \<Rightarrow> str \<Rightarrow> str list option option" where
  "json_opt_strings x s = Option.bind (json_parse x s) (decode_option (decode_list decode_str))"

lemma those_map_Some: "those (map d js) = Some xs \<longleftrightarrow> map d js = map Some xs"
proof (induction js arbitrary: xs)
  case (Cons j js)
  show ?case
    by (cases "d j"; cases xs) (auto simp: Cons.IH map_option_eq_Some)
qed auto

lemma json_opt_strings_Some: "json_strings x s = Some ids \<Longrightarrow> json_opt_strings x s = Some (Some ids)"
proof -
  assume "json_strings x s = Some ids"
  then obtain j where j: "json_parse x s = Some j" "decode_list decode_str j = Some ids"
    by (auto simp: json_strings_def bind_eq_Some_conv)
  then have "decode_option (decode_list decode_str) j = Some (Some ids)"
    by (cases j) auto
  with j show ?thesis by (simp add: json_opt_strings_def)
qed

end
