(* ===== verification/Model.thy ===== *)
theory Model
  imports External "HOL-Library.Monad_Syntax"
begin

text \<open>
  \<^verbatim>\<open>src/model.rs\<close>: the user an application evaluates flags for and its builder, and
  the data set of the FeatBit wire protocol (flags, variations, targets, rules, rollouts,
  segments) with the derived JSON deserialization and the hand-written parts of it.
\<close>

section \<open>Users\<close>

record fb_user =
  u_key :: str
  u_name :: str
  u_custom :: "str btree_map"

record fb_user_builder =
  ub_key :: str
  ub_name :: str
  ub_custom :: "str btree_map"

definition user_builder_new :: "str \<Rightarrow> fb_user_builder" where
  "user_builder_new key = \<lparr>ub_key = key, ub_name = [], ub_custom = []\<rparr>"

definition user_builder_name :: "str \<Rightarrow> fb_user_builder \<Rightarrow> fb_user_builder" where
  "user_builder_name name b = b\<lparr>ub_name := name\<rparr>"

definition user_builder_custom :: "str \<Rightarrow> str \<Rightarrow> fb_user_builder \<Rightarrow> fb_user_builder" where
  "user_builder_custom key value b = b\<lparr>ub_custom := btree_insert key value (ub_custom b)\<rparr>"

definition user_builder_build :: "fb_user_builder \<Rightarrow> fb_user" where
  "user_builder_build b = \<lparr>u_key = ub_key b, u_name = ub_name b, u_custom = ub_custom b\<rparr>"

text \<open>\<^verbatim>\<open>FbUser::value_of\<close>: the two built-in properties shadow custom attributes.\<close>

definition user_value_of :: "fb_user \<Rightarrow> str \<Rightarrow> str" where
  "user_value_of u property =
    (if property = ''keyId'' then u_key u
     else if property = ''name'' then u_name u
     else case map_of (u_custom u) property of None \<Rightarrow> [] | Some v \<Rightarrow> v)"

definition user_ok :: "fb_user \<Rightarrow> bool" where
  "user_ok u = sorted_wrt (<) (map fst (u_custom u))"

section \<open>The data set\<close>

record variation =
  var_id :: str
  var_value :: str

record target_user =
  tu_key_ids :: "str list"
  tu_variation_id :: str

record condition =
  c_property :: str
  c_op :: str
  c_value :: str

record rollout_variation =
  rv_id :: str
  rv_rollout :: "f64 list"

record target_rule =
  tr_name :: str
  tr_dispatch_key :: "str option"
  tr_conditions :: "condition list"
  tr_variations :: "rollout_variation list"

record fallthrough =
  ft_dispatch_key :: "str option"
  ft_variations :: "rollout_variation list"

record feature_flag =
  ff_id :: str
  ff_key :: str
  ff_updated_at :: int
  ff_variation_type :: str
  ff_variations :: "variation list"
  ff_target_users :: "target_user list"
  ff_rules :: "target_rule list"
  ff_is_enabled :: bool
  ff_insights_enabled :: bool
  ff_disabled_variation_id :: str
  ff_fallthrough :: fallthrough
  ff_is_archived :: bool

record match_rule =
  mr_conditions :: "condition list"

record segment =
  sg_id :: str
  sg_updated_at :: int
  sg_included :: "str list"
  sg_excluded :: "str list"
  sg_rules :: "match_rule list"
  sg_is_archived :: bool

record data_set =
  ds_event_type :: str
  ds_feature_flags :: "feature_flag list"
  ds_segments :: "segment list"

record data_sync_envelope =
  env_message_type :: str
  env_data :: data_set

text \<open>\<^verbatim>\<open>FeatureFlag::variation\<close>: the first variation with the id.\<close>

definition flag_variation :: "feature_flag \<Rightarrow> str \<Rightarrow> variation option" where
  "flag_variation f i = find (\<lambda>v. var_id v = i) (ff_variations f)"

text \<open>
  The derived \<^verbatim>\<open>PartialEq\<close>: rollout bounds are compared as floating-point numbers, all
  other fields structurally.
\<close>

definition rollout_variation_eq :: "rollout_variation \<Rightarrow> rollout_variation \<Rightarrow> bool" where
  "rollout_variation_eq a b = (rv_id a = rv_id b \<and> list_all2 f64_eq (rv_rollout a) (rv_rollout b))"

definition target_rule_eq :: "target_rule \<Rightarrow> target_rule \<Rightarrow> bool" where
  "target_rule_eq a b =
    (tr_name a = tr_name b \<and> tr_dispatch_key a = tr_dispatch_key b \<and>
     tr_conditions a = tr_conditions b \<and>
     list_all2 rollout_variation_eq (tr_variations a) (tr_variations b))"

definition fallthrough_eq :: "fallthrough \<Rightarrow> fallthrough \<Rightarrow> bool" where
  "fallthrough_eq a b =
    (ft_dispatch_key a = ft_dispatch_key b \<and>
     list_all2 rollout_variation_eq (ft_variations a) (ft_variations b))"

definition flag_eq :: "feature_flag \<Rightarrow> feature_flag \<Rightarrow> bool" where
  "flag_eq a b =
    (ff_id a = ff_id b \<and> ff_key a = ff_key b \<and> ff_updated_at a = ff_updated_at b \<and>
     ff_variation_type a = ff_variation_type b \<and> ff_variations a = ff_variations b \<and>
     ff_target_users a = ff_target_users b \<and>
     list_all2 target_rule_eq (ff_rules a) (ff_rules b) \<and>
     ff_is_enabled a = ff_is_enabled b \<and> ff_insights_enabled a = ff_insights_enabled b \<and>
     ff_disabled_variation_id a = ff_disabled_variation_id b \<and>
     fallthrough_eq (ff_fallthrough a) (ff_fallthrough b) \<and>
     ff_is_archived a = ff_is_archived b)"

definition segment_eq :: "segment \<Rightarrow> segment \<Rightarrow> bool" where
  "segment_eq a b = (a = b)"

section \<open>Deserialization\<close>

definition default_insights_enabled :: bool where
  "default_insights_enabled = True"

definition deserialize_insights_enabled :: "json \<Rightarrow> bool option" where
  "deserialize_insights_enabled j = Some (j \<noteq> JBool False)"

fun deserialize_version :: "'r crates \<Rightarrow> json \<Rightarrow> int option" where
  "deserialize_version x (JStr text) = rfc3339_millis x text"
| "deserialize_version x (JNum n) = as_i64 n"
| "deserialize_version x _ = None"

definition decode_variation :: "json \<Rightarrow> variation option" where
  "decode_variation j = do {
     kvs \<leftarrow> struct_fields [''id'', ''value''] j;
     i \<leftarrow> field_or [] decode_str ''id'' kvs;
     v \<leftarrow> field_or [] decode_str ''value'' kvs;
     Some \<lparr>var_id = i, var_value = v\<rparr>
   }"

definition decode_target_user :: "json \<Rightarrow> target_user option" where
  "decode_target_user j = do {
     kvs \<leftarrow> struct_fields [''keyIds'', ''variationId''] j;
     ks \<leftarrow> field_or [] (decode_list decode_str) ''keyIds'' kvs;
     v \<leftarrow> field_or [] decode_str ''variationId'' kvs;
     Some \<lparr>tu_key_ids = ks, tu_variation_id = v\<rparr>
   }"

definition decode_condition :: "json \<Rightarrow> condition option" where
  "decode_condition j = do {
     kvs \<leftarrow> struct_fields [''property'', ''op'', ''value''] j;
     p \<leftarrow> field_or [] decode_str ''property'' kvs;
     ope \<leftarrow> field_or [] decode_str ''op'' kvs;
     v \<leftarrow> field_or [] decode_str ''value'' kvs;
     Some \<lparr>c_property = p, c_op = ope, c_value = v\<rparr>
   }"

definition decode_rollout_variation :: "json \<Rightarrow> rollout_variation option" where
  "decode_rollout_variation j = do {
     kvs \<leftarrow> struct_fields [''id'', ''rollout''] j;
     i \<leftarrow> field_or [] decode_str ''id'' kvs;
     r \<leftarrow> field_or [] (decode_list decode_f64) ''rollout'' kvs;
     Some \<lparr>rv_id = i, rv_rollout = r\<rparr>
   }"

definition decode_target_rule :: "json \<Rightarrow> target_rule option" where
  "decode_target_rule j = do {
     kvs \<leftarrow> struct_fields [''name'', ''dispatchKey'', ''conditions'', ''variations''] j;
     n \<leftarrow> field_or [] decode_str ''name'' kvs;
     d \<leftarrow> field_or None (decode_option decode_str) ''dispatchKey'' kvs;
     cs \<leftarrow> field_or [] (decode_list decode_condition) ''conditions'' kvs;
     vs \<leftarrow> field_or [] (decode_list decode_rollout_variation) ''variations'' kvs;
     Some \<lparr>tr_name = n, tr_dispatch_key = d, tr_conditions = cs, tr_variations = vs\<rparr>
   }"

definition default_fallthrough :: fallthrough where
  "default_fallthrough = \<lparr>ft_dispatch_key = None, ft_variations = []\<rparr>"

definition decode_fallthrough :: "json \<Rightarrow> fallthrough option" where
  "decode_fallthrough j = do {
     kvs \<leftarrow> struct_fields [''dispatchKey'', ''variations''] j;
     d \<leftarrow> field_or None (decode_option decode_str) ''dispatchKey'' kvs;
     vs \<leftarrow> field_or [] (decode_list decode_rollout_variation) ''variations'' kvs;
     Some \<lparr>ft_dispatch_key = d, ft_variations = vs\<rparr>
   }"

definition flag_fields :: "str list" where
  "flag_fields =
    [''id'', ''key'', ''updatedAt'', ''variationType'', ''variations'', ''targetUsers'', ''rules'',
     ''isEnabled'', ''insightsEnabled'', ''disabledVariationId'', ''fallthrough'', ''isArchived'']"

definition decode_flag :: "'r crates \<Rightarrow> json \<Rightarrow> feature_flag option" where
  "decode_flag x j = do {
     kvs \<leftarrow> struct_fields flag_fields j;
     i \<leftarrow> field_or [] decode_str ''id'' kvs;
     k \<leftarrow> field_or [] decode_str ''key'' kvs;
     upd \<leftarrow> field_or 0 (deserialize_version x) ''updatedAt'' kvs;
     vt \<leftarrow> field_or [] decode_str ''variationType'' kvs;
     vs \<leftarrow> field_or [] (decode_list decode_variation) ''variations'' kvs;
     ts \<leftarrow> field_or [] (decode_list decode_target_user) ''targetUsers'' kvs;
     rs \<leftarrow> field_or [] (decode_list decode_target_rule) ''rules'' kvs;
     en \<leftarrow> field_or False decode_bool ''isEnabled'' kvs;
     ins \<leftarrow> field_or default_insights_enabled deserialize_insights_enabled ''insightsEnabled'' kvs;
     dv \<leftarrow> field_or [] decode_str ''disabledVariationId'' kvs;
     ft \<leftarrow> field_or default_fallthrough decode_fallthrough ''fallthrough'' kvs;
     ar \<leftarrow> field_or False decode_bool ''isArchived'' kvs;
     Some \<lparr>ff_id = i, ff_key = k, ff_updated_at = upd, ff_variation_type = vt, ff_variations = vs,
       ff_target_users = ts, ff_rules = rs, ff_is_enabled = en, ff_insights_enabled = ins,
       ff_disabled_variation_id = dv, ff_fallthrough = ft, ff_is_archived = ar\<rparr>
   }"

definition decode_match_rule :: "json \<Rightarrow> match_rule option" where
  "decode_match_rule j = do {
     kvs \<leftarrow> struct_fields [''conditions''] j;
     cs \<leftarrow> field_or [] (decode_list decode_condition) ''conditions'' kvs;
     Some \<lparr>mr_conditions = cs\<rparr>
   }"

definition decode_segment :: "'r crates \<Rightarrow> json \<Rightarrow> segment option" where
  "decode_segment x j = do {
     kvs \<leftarrow> struct_fields [''id'', ''updatedAt'', ''included'', ''excluded'', ''rules'', ''isArchived''] j;
     i \<leftarrow> field_or [] decode_str ''id'' kvs;
     upd \<leftarrow> field_or 0 (deserialize_version x) ''updatedAt'' kvs;
     inc \<leftarrow> field_or [] (decode_list decode_str) ''included'' kvs;
     exc \<leftarrow> field_or [] (decode_list decode_str) ''excluded'' kvs;
     rs \<leftarrow> field_or [] (decode_list decode_match_rule) ''rules'' kvs;
     ar \<leftarrow> field_or False decode_bool ''isArchived'' kvs;
     Some \<lparr>sg_id = i, sg_updated_at = upd, sg_included = inc, sg_excluded = exc, sg_rules = rs,
       sg_is_archived = ar\<rparr>
   }"

definition decode_data_set :: "'r crates \<Rightarrow> json \<Rightarrow> data_set option" where
  "decode_data_set x j = do {
     kvs \<leftarrow> struct_fields [''eventType'', ''featureFlags'', ''segments''] j;
     e \<leftarrow> field_or [] decode_str ''eventType'' kvs;
     fs \<leftarrow> field_or [] (decode_list (decode_flag x)) ''featureFlags'' kvs;
     ss \<leftarrow> field_or [] (decode_list (decode_segment x)) ''segments'' kvs;
     Some \<lparr>ds_event_type = e, ds_feature_flags = fs, ds_segments = ss\<rparr>
   }"

definition decode_envelope :: "'r crates \<Rightarrow> json \<Rightarrow> data_sync_envelope option" where
  "decode_envelope x j = do {
     kvs \<leftarrow> struct_fields [''messageType'', ''data''] j;
     m \<leftarrow> field_or [] decode_str ''messageType'' kvs;
     d \<leftarrow> field_required (decode_data_set x) ''data'' kvs;
     Some \<lparr>env_message_type = m, env_data = d\<rparr>
   }"

text \<open>\<^verbatim>\<open>serde_json::from_slice::<DataSyncEnvelope>\<close> and the same on a string.\<close>

definition parse_envelope :: "'r crates \<Rightarrow> str \<Rightarrow> data_sync_envelope option" where
  "parse_envelope x text = Option.bind (json_parse x text) (decode_envelope x)"

section \<open>Lemmas\<close>

lemma flag_variation_id: "flag_variation f i = Some v \<Longrightarrow> v \<in> set (ff_variations f) \<and> var_id v = i"
  by (auto simp: flag_variation_def dest: find_Some_iff_in)

lemma flag_variation_None:
  "flag_variation f i = None \<longleftrightarrow> i \<notin> var_id ` set (ff_variations f)"
  by (auto simp: flag_variation_def find_None_set)

text \<open>Users made by the builder keep their attributes sorted and the last value of each key.\<close>

lemma user_builder_custom_sorted:
  "sorted_wrt (<) (map fst (ub_custom b)) \<Longrightarrow>
    sorted_wrt (<) (map fst (ub_custom (user_builder_custom k v b)))"
  by (simp add: user_builder_custom_def strict_sorted_btree_insert)

lemma user_value_of_custom:
  assumes "sorted_wrt (<) (map fst (ub_custom b))" and "k \<notin> {''keyId'', ''name''}"
  shows "user_value_of (user_builder_build (user_builder_custom k v b)) j =
    (if j = k then v else user_value_of (user_builder_build b) j)"
  using assms
  by (auto simp: user_value_of_def user_builder_build_def user_builder_custom_def map_of_btree_insert)

end
