(* ===== verification/Prepared.thy ===== *)
theory Prepared
  imports Model
begin

text \<open>
  \<^verbatim>\<open>src/prepared.rs\<close>: the index built once per stored flag or segment so that
  evaluation does not search lists or parse condition values. The lemmas say what each part
  of the index answers for the object it was built from.
\<close>

definition IS_IN_SEGMENT :: str where
  "IS_IN_SEGMENT = ''User is in segment''"

definition IS_NOT_IN_SEGMENT :: str where
  "IS_NOT_IN_SEGMENT = ''User is not in segment''"

datatype prepared_segment_ids = ValidIds "str list" | InvalidIds

datatype 'r prepared_condition =
    PNone
  | PNumeric "f64 option"
  | PRegex "'r option"
  | PStringSet "str set option"
  | PSegmentIds prepared_segment_ids

record 'r prepared_rule =
  pr_conditions :: "'r prepared_condition list"

record 'r prepared_flag =
  pf_variation_indices :: "nat hash_map"
  pf_target_variations :: "str hash_map"
  pf_rules :: "'r prepared_rule list"

record 'r prepared_segment =
  ps_included :: "str set"
  ps_excluded :: "str set"
  ps_rules :: "'r prepared_rule list"

section \<open>Conditions\<close>

definition numeric_ops :: "str list" where
  "numeric_ops = [''LessThan'', ''LessEqualThan'', ''BiggerThan'', ''BiggerEqualThan'']"

definition prepared_condition_new :: "'r crates \<Rightarrow> condition \<Rightarrow> 'r prepared_condition" where
  "prepared_condition_new x c =
    (if c_property c = IS_IN_SEGMENT \<or> c_property c = IS_NOT_IN_SEGMENT then
       PSegmentIds
         (case json_opt_strings x (c_value c) of
            Some (Some ids) \<Rightarrow> ValidIds ids
          | Some None \<Rightarrow> ValidIds []
          | None \<Rightarrow> InvalidIds)
     else if c_op c \<in> set numeric_ops then PNumeric (parse_finite_f64 (c_value c))
     else if c_op c = ''MatchRegex'' \<or> c_op c = ''NotMatchRegex'' then PRegex (regex_new x (c_value c))
     else if c_op c = ''IsOneOf'' \<or> c_op c = ''NotOneOf'' then
       PStringSet (map_option set (json_strings x (c_value c)))
     else PNone)"

definition prepared_rule_new :: "'r crates \<Rightarrow> condition list \<Rightarrow> 'r prepared_rule" where
  "prepared_rule_new x cs = \<lparr>pr_conditions = map (prepared_condition_new x) cs\<rparr>"

definition prepared_rule_condition :: "'r prepared_rule \<Rightarrow> nat \<Rightarrow> 'r prepared_condition option" where
  "prepared_rule_condition r i = slice_get (pr_conditions r) i"

section \<open>Flags\<close>

definition variation_indices_new :: "variation list \<Rightarrow> nat hash_map" where
  "variation_indices_new vs =
    fold (\<lambda>(i, v). or_insert (var_id v) i) (List.enumerate 0 vs) []"

definition target_variations_new :: "target_user list \<Rightarrow> str hash_map" where
  "target_variations_new ts =
    fold (\<lambda>t. fold (\<lambda>k. or_insert k (tu_variation_id t)) (tu_key_ids t)) ts []"

definition prepared_flag_new :: "'r crates \<Rightarrow> feature_flag \<Rightarrow> 'r prepared_flag" where
  "prepared_flag_new x f =
    \<lparr>pf_variation_indices = variation_indices_new (ff_variations f),
     pf_target_variations = target_variations_new (ff_target_users f),
     pf_rules = map (\<lambda>r. prepared_rule_new x (tr_conditions r)) (ff_rules f)\<rparr>"

definition prepared_flag_variation :: "'r prepared_flag \<Rightarrow> feature_flag \<Rightarrow> str \<Rightarrow> variation option" where
  "prepared_flag_variation p f i =
    (case Option.bind (map_of (pf_variation_indices p) i) (slice_get (ff_variations f)) of
       Some v \<Rightarrow> if var_id v = i then Some v else flag_variation f i
     | None \<Rightarrow> flag_variation f i)"

definition prepared_flag_target_variation :: "'r prepared_flag \<Rightarrow> str \<Rightarrow> str option" where
  "prepared_flag_target_variation p user_key = map_of (pf_target_variations p) user_key"

definition prepared_flag_rule :: "'r prepared_flag \<Rightarrow> nat \<Rightarrow> 'r prepared_rule option" where
  "prepared_flag_rule p i = slice_get (pf_rules p) i"

section \<open>Segments\<close>

definition prepared_segment_new :: "'r crates \<Rightarrow> segment \<Rightarrow> 'r prepared_segment" where
  "prepared_segment_new x s =
    \<lparr>ps_included = set (sg_included s),
     ps_excluded = set (sg_excluded s),
     ps_rules = map (\<lambda>r. prepared_rule_new x (mr_conditions r)) (sg_rules s)\<rparr>"

definition prepared_segment_includes :: "'r prepared_segment \<Rightarrow> str \<Rightarrow> bool" where
  "prepared_segment_includes p k = (k \<in> ps_included p)"

definition prepared_segment_excludes :: "'r prepared_segment \<Rightarrow> str \<Rightarrow> bool" where
  "prepared_segment_excludes p k = (k \<in> ps_excluded p)"

definition prepared_segment_rule :: "'r prepared_segment \<Rightarrow> nat \<Rightarrow> 'r prepared_rule option" where
  "prepared_segment_rule p i = slice_get (ps_rules p) i"

section \<open>What the index answers\<close>

named_theorems prepared_simps \<open>answers of an index for the object it was built from\<close>

lemma variation_indices_sound:
  assumes "map_of (variation_indices_new vs) k = Some i"
  shows "i < length vs \<and> find (\<lambda>v. var_id v = k) vs = Some (vs ! i)"
proof -
  have "fold (\<lambda>(i, v). or_insert (var_id v) i) ivs m =
      fold (\<lambda>(k, i). or_insert k i) (map (\<lambda>(i, v). (var_id v, i)) ivs) m"
    for ivs :: "(nat \<times> variation) list" and m :: "nat hash_map"
    by (induction ivs arbitrary: m) auto
  with assms have "map_of (map (\<lambda>(i, v). (var_id v, i)) (List.enumerate 0 vs)) k = Some i"
    by (simp add: variation_indices_new_def fold_or_insert_first)
  then show ?thesis by (auto dest: map_of_enumerate_find)
qed

lemma prepared_variation [prepared_simps, simp]:
  "prepared_flag_variation (prepared_flag_new x f) f i = flag_variation f i"
proof (cases "map_of (variation_indices_new (ff_variations f)) i")
  case (Some n)
  from variation_indices_sound [OF this] show ?thesis
    by (auto simp: prepared_flag_variation_def prepared_flag_new_def flag_variation_def slice_get_def Some
        dest: find_Some_iff_in split: option.splits)
qed (simp add: prepared_flag_variation_def prepared_flag_new_def)

text \<open>The index never answers with a variation of another id, whatever it holds.\<close>

lemma prepared_variation_id:
  "prepared_flag_variation p f i = Some v \<Longrightarrow> v \<in> set (ff_variations f) \<and> var_id v = i"
  by (auto simp: prepared_flag_variation_def slice_get_def bind_eq_Some_conv
      dest: flag_variation_id split: option.splits if_splits)

lemma fold_target_user:
  "map_of (fold (\<lambda>k. or_insert k v) ks m) j =
    (case map_of m j of None \<Rightarrow> if j \<in> set ks then Some v else None | Some w \<Rightarrow> Some w)"
proof (induction ks arbitrary: m)
  case (Cons k ks)
  then show ?case by (auto simp: map_of_or_insert split: option.splits)
qed (simp split: option.splits)

lemma prepared_target_variation [prepared_simps, simp]:
  "prepared_flag_target_variation (prepared_flag_new x f) k =
    map_option tu_variation_id (find (\<lambda>t. k \<in> set (tu_key_ids t)) (ff_target_users f))"
proof -
  have "map_of (fold (\<lambda>t. fold (\<lambda>k. or_insert k (tu_variation_id t)) (tu_key_ids t)) ts m) k =
      (case map_of m k of
         None \<Rightarrow> map_option tu_variation_id (find (\<lambda>t. k \<in> set (tu_key_ids t)) ts)
       | Some w \<Rightarrow> Some w)" for ts m
    by (induction ts arbitrary: m) (auto simp: fold_target_user split: option.splits)
  from this [of "ff_target_users f" "[]"] show ?thesis
    by (simp add: prepared_flag_target_variation_def prepared_flag_new_def target_variations_new_def)
qed

lemma prepared_rules [prepared_simps, simp]:
  "prepared_flag_rule (prepared_flag_new x f) i =
    map_option (\<lambda>r. prepared_rule_new x (tr_conditions r)) (slice_get (ff_rules f) i)"
  "prepared_segment_rule (prepared_segment_new x s) i =
    map_option (\<lambda>r. prepared_rule_new x (mr_conditions r)) (slice_get (sg_rules s) i)"
  by (simp_all add: prepared_flag_rule_def prepared_flag_new_def prepared_segment_rule_def
      prepared_segment_new_def)

lemma prepared_conditions [prepared_simps, simp]:
  "prepared_rule_condition (prepared_rule_new x cs) i =
    map_option (prepared_condition_new x) (slice_get cs i)"
  by (simp add: prepared_rule_condition_def prepared_rule_new_def)

lemma prepared_membership [prepared_simps, simp]:
  "prepared_segment_includes (prepared_segment_new x s) k \<longleftrightarrow> k \<in> set (sg_included s)"
  "prepared_segment_excludes (prepared_segment_new x s) k \<longleftrightarrow> k \<in> set (sg_excluded s)"
  by (simp_all add: prepared_segment_includes_def prepared_segment_excludes_def prepared_segment_new_def)

end
