(* ===== verification/Operators.thy ===== *)
theory Operators
  imports Prepared
begin

text \<open>
  \<^verbatim>\<open>src/evaluation/operators.rs\<close>: the operators of a targeting condition, each with
  the prepared form of its right-hand side and the fall-back that parses it on the spot.
\<close>

definition numeric_compare :: "str \<Rightarrow> str \<Rightarrow> (f64 \<Rightarrow> f64 \<Rightarrow> bool) \<Rightarrow> bool" where
  "numeric_compare user_value rule_value compare =
    (case (parse_f64 user_value, parse_f64 rule_value) of
       (Some user_number, Some rule_number) \<Rightarrow>
         f64_is_finite user_number \<and> f64_is_finite rule_number \<and> compare user_number rule_number
     | _ \<Rightarrow> False)"

definition numeric_compare_prepared ::
  "str \<Rightarrow> str \<Rightarrow> 'r prepared_condition option \<Rightarrow> (f64 \<Rightarrow> f64 \<Rightarrow> bool) \<Rightarrow> bool" where
  "numeric_compare_prepared user_value rule_value prepared compare =
    (case prepared of
       Some (PNumeric (Some rule_number)) \<Rightarrow>
         (case parse_finite_f64 user_value of
            None \<Rightarrow> False
          | Some user_number \<Rightarrow> compare user_number rule_number)
     | Some (PNumeric None) \<Rightarrow> False
     | _ \<Rightarrow> numeric_compare user_value rule_value compare)"

definition regex_matches ::
  "'r crates \<Rightarrow> str \<Rightarrow> str \<Rightarrow> 'r prepared_condition option \<Rightarrow> bool \<Rightarrow> bool" where
  "regex_matches x user_value rule_value prepared negate =
    (case prepared of
       Some (PRegex (Some regex)) \<Rightarrow> regex_is_match x regex user_value \<noteq> negate
     | Some (PRegex None) \<Rightarrow> False
     | _ \<Rightarrow>
         (case regex_new x rule_value of
            None \<Rightarrow> False
          | Some regex \<Rightarrow> regex_is_match x regex user_value \<noteq> negate))"

definition string_list :: "'r crates \<Rightarrow> str \<Rightarrow> str list option" where
  "string_list x value = json_strings x value"

definition string_set_matches ::
  "'r crates \<Rightarrow> str \<Rightarrow> str \<Rightarrow> 'r prepared_condition option \<Rightarrow> bool \<Rightarrow> bool" where
  "string_set_matches x user_value rule_value prepared negate =
    (case prepared of
       Some (PStringSet (Some values)) \<Rightarrow> (user_value \<in> values) \<noteq> negate
     | Some (PStringSet None) \<Rightarrow> False
     | _ \<Rightarrow>
         (case string_list x rule_value of
            None \<Rightarrow> False
          | Some values \<Rightarrow> list_ex (\<lambda>value. value = user_value) values \<noteq> negate))"

definition operator_matches_prepared ::
  "'r crates \<Rightarrow> str \<Rightarrow> str \<Rightarrow> str \<Rightarrow> 'r prepared_condition option \<Rightarrow> bool" where
  "operator_matches_prepared x user_value operator rule_value prepared =
    (if operator = ''LessThan'' then numeric_compare_prepared user_value rule_value prepared f64_lt
     else if operator = ''LessEqualThan'' then numeric_compare_prepared user_value rule_value prepared f64_le
     else if operator = ''BiggerThan'' then
       numeric_compare_prepared user_value rule_value prepared (\<lambda>left right. f64_lt right left)
     else if operator = ''BiggerEqualThan'' then
       numeric_compare_prepared user_value rule_value prepared (\<lambda>left right. f64_le right left)
     else if operator = ''Equal'' then user_value = rule_value
     else if operator = ''NotEqual'' then user_value \<noteq> rule_value
     else if operator = ''Contains'' then str_contains user_value rule_value
     else if operator = ''NotContain'' then \<not> str_contains user_value rule_value
     else if operator = ''StartsWith'' then str_starts_with user_value rule_value
     else if operator = ''EndsWith'' then str_ends_with user_value rule_value
     else if operator = ''MatchRegex'' then regex_matches x user_value rule_value prepared False
     else if operator = ''NotMatchRegex'' then regex_matches x user_value rule_value prepared True
     else if operator = ''IsOneOf'' then string_set_matches x user_value rule_value prepared False
     else if operator = ''NotOneOf'' then string_set_matches x user_value rule_value prepared True
     else if operator = ''IsTrue'' then eq_ignore_ascii_case user_value ''true''
     else if operator = ''IsFalse'' then eq_ignore_ascii_case user_value ''false''
     else False)"

definition condition_matches_prepared ::
  "'r crates \<Rightarrow> condition \<Rightarrow> 'r prepared_condition option \<Rightarrow> fb_user \<Rightarrow> bool" where
  "condition_matches_prepared x c prepared u =
    operator_matches_prepared x (user_value_of u (c_property c)) (c_op c) (c_value c) prepared"

section \<open>The prepared form changes no answer\<close>

lemma numeric_compare_prepared_same [prepared_simps]:
  "numeric_compare_prepared uv rv (Some (PNumeric (parse_finite_f64 rv))) cmp
    = numeric_compare_prepared uv rv (None :: 'r prepared_condition option) cmp"
  by (auto simp: numeric_compare_prepared_def numeric_compare_def parse_finite_f64_def split: option.splits)

lemma regex_matches_same [prepared_simps]:
  "regex_matches x uv rv (Some (PRegex (regex_new x rv))) neg = regex_matches x uv rv None neg"
  by (auto simp: regex_matches_def split: option.splits)

lemma string_set_matches_same [prepared_simps]:
  "string_set_matches x uv rv (Some (PStringSet (map_option set (json_strings x rv)))) neg
    = string_set_matches x uv rv None neg"
  by (auto simp: string_set_matches_def string_list_def list_ex_iff split: option.splits)

definition is_segment_condition :: "condition \<Rightarrow> bool" where
  "is_segment_condition c = (c_property c = IS_IN_SEGMENT \<or> c_property c = IS_NOT_IN_SEGMENT)"

lemma operator_matches_other_prepared [prepared_simps]:
  "operator_matches_prepared x uv ope rv (Some (PSegmentIds ids)) = operator_matches_prepared x uv ope rv None"
  "operator_matches_prepared x uv ope rv (Some PNone) = operator_matches_prepared x uv ope rv None"
  by (simp_all add: operator_matches_prepared_def numeric_compare_prepared_def regex_matches_def
      string_set_matches_def)

lemma operator_matches_numeric:
  "ope \<in> set numeric_ops \<Longrightarrow>
    operator_matches_prepared x uv ope rv (Some (PNumeric (parse_finite_f64 rv)))
      = operator_matches_prepared x uv ope rv None"
  by (auto simp: numeric_ops_def operator_matches_prepared_def numeric_compare_prepared_same)

lemma operator_matches_regex:
  "ope = ''MatchRegex'' \<or> ope = ''NotMatchRegex'' \<Longrightarrow>
    operator_matches_prepared x uv ope rv (Some (PRegex (regex_new x rv)))
      = operator_matches_prepared x uv ope rv None"
  by (auto simp: operator_matches_prepared_def regex_matches_same)

lemma operator_matches_string_set:
  "ope = ''IsOneOf'' \<or> ope = ''NotOneOf'' \<Longrightarrow>
    operator_matches_prepared x uv ope rv (Some (PStringSet (map_option set (json_strings x rv))))
      = operator_matches_prepared x uv ope rv None"
  by (auto simp: operator_matches_prepared_def string_set_matches_same)

lemma condition_matches_prepared_new [prepared_simps, simp]:
  "condition_matches_prepared x c (Some (prepared_condition_new x c)) u
    = condition_matches_prepared x c None u"
  by (simp add: condition_matches_prepared_def prepared_condition_new_def operator_matches_numeric
      operator_matches_regex operator_matches_string_set operator_matches_other_prepared)

section \<open>Malformed right-hand sides never match\<close>

lemma bad_regex_no_match [simp]: "regex_new x rv = None \<Longrightarrow> \<not> regex_matches x uv rv None neg"
  by (simp add: regex_matches_def)

lemma bad_string_set_no_match [simp]: "json_strings x rv = None \<Longrightarrow> \<not> string_set_matches x uv rv None neg"
  by (simp add: string_set_matches_def string_list_def)

lemma bad_number_no_match [simp]:
  "parse_finite_f64 uv = None \<or> parse_finite_f64 rv = None \<Longrightarrow> \<not> numeric_compare uv rv cmp"
  by (auto simp: numeric_compare_def parse_finite_f64_def split: option.splits if_splits)

section \<open>Properties\<close>

definition value_unusable :: "'r crates \<Rightarrow> condition \<Rightarrow> bool" where
  "value_unusable x c =
    (c_op c \<in> set numeric_ops \<and> parse_finite_f64 (c_value c) = None \<or>
     c_op c \<in> {''MatchRegex'', ''NotMatchRegex''} \<and> regex_new x (c_value c) = None \<or>
     c_op c \<in> {''IsOneOf'', ''NotOneOf''} \<and> json_strings x (c_value c) = None)"

lemma unusable_no_match:
  assumes "value_unusable x c"
  shows "\<not> condition_matches_prepared x c None u"
  using assms
  by (auto simp: value_unusable_def numeric_ops_def condition_matches_prepared_def operator_matches_prepared_def
      numeric_compare_prepared_def)

text \<open>
  C34. The prepared form of a condition changes no answer, and a condition whose right-hand
  side cannot be used (not a finite number, not a regular expression, not a list of strings)
  matches nobody, its negated operator included.
\<close>

theorem prepared_condition_sound:
  "condition_matches_prepared x c (Some (prepared_condition_new x c)) u = condition_matches_prepared x c None u \<and>
    \<not> (value_unusable x c \<and> condition_matches_prepared x c (Some (prepared_condition_new x c)) u)"
  using unusable_no_match by auto

end
