(* ===== verification/Sample.thy ===== *)
theory Sample
  imports Model
begin

text \<open>
  Concrete data on which the theorems with hypotheses are applied: a user, two versions of a
  flag with a full rollout, a segment, data sets holding them, and crates that parse nothing
  and hash every key to the same digest.
\<close>

definition sample_crates :: "unit crates" where
  "sample_crates =
    \<lparr>json_parse = (\<lambda>s. None), json_error = (\<lambda>s. ''error''), rfc3339_millis = (\<lambda>s. None),
     regex_new = (\<lambda>s. None), regex_is_match = (\<lambda>r s. False), md5_digest = (\<lambda>s. [0, 0, 0, 64])\<rparr>"

definition sample_user :: fb_user where
  "sample_user = \<lparr>u_key = ''u1'', u_name = ''User'', u_custom = [(''country'', ''FR'')]\<rparr>"

definition sample_rollout :: "rollout_variation list" where
  "sample_rollout = [\<lparr>rv_id = ''on'', rv_rollout = [Fin False 0, Fin False 1]\<rparr>]"

definition sample_flag :: "int \<Rightarrow> bool \<Rightarrow> feature_flag" where
  "sample_flag v enabled =
    \<lparr>ff_id = ''1'', ff_key = ''f'', ff_updated_at = v, ff_variation_type = ''boolean'',
     ff_variations = [\<lparr>var_id = ''on'', var_value = ''true''\<rparr>, \<lparr>var_id = ''off'', var_value = ''false''\<rparr>],
     ff_target_users = [], ff_rules = [], ff_is_enabled = enabled, ff_insights_enabled = True,
     ff_disabled_variation_id = ''off'',
     ff_fallthrough = \<lparr>ft_dispatch_key = None, ft_variations = sample_rollout\<rparr>,
     ff_is_archived = False\<rparr>"

definition sample_segment :: "int \<Rightarrow> segment" where
  "sample_segment v =
    \<lparr>sg_id = ''s'', sg_updated_at = v, sg_included = [''u1''], sg_excluded = [], sg_rules = [],
     sg_is_archived = False\<rparr>"

definition sample_data :: "int \<Rightarrow> bool \<Rightarrow> data_set" where
  "sample_data v enabled =
    \<lparr>ds_event_type = ''patch'', ds_feature_flags = [sample_flag v enabled],
     ds_segments = [sample_segment v]\<rparr>"

lemma sample_simps [simp]:
  "ff_id (sample_flag v b) = ''1''" "ff_key (sample_flag v b) = ''f''" "ff_updated_at (sample_flag v b) = v"
  "ff_is_enabled (sample_flag v b) = b" "ff_is_archived (sample_flag v b) = False"
  "ff_target_users (sample_flag v b) = []" "ff_rules (sample_flag v b) = []"
  "ff_disabled_variation_id (sample_flag v b) = ''off''" "ff_insights_enabled (sample_flag v b) = True"
  "ff_variation_type (sample_flag v b) = ''boolean''"
  "ff_fallthrough (sample_flag v b) = \<lparr>ft_dispatch_key = None, ft_variations = sample_rollout\<rparr>"
  "ff_variations (sample_flag v b) =
    [\<lparr>var_id = ''on'', var_value = ''true''\<rparr>, \<lparr>var_id = ''off'', var_value = ''false''\<rparr>]"
  "sg_id (sample_segment v) = ''s''" "sg_updated_at (sample_segment v) = v"
  "ds_feature_flags (sample_data v b) = [sample_flag v b]" "ds_segments (sample_data v b) = [sample_segment v]"
  "u_key sample_user = ''u1''"
  by (simp_all add: sample_flag_def sample_segment_def sample_data_def sample_user_def)

end
