(* ===== verification/Store.thy ===== *)
theory Store
  imports Prepared Sample
begin

text \<open>
  \<^verbatim>\<open>src/store.rs\<close>: the immutable snapshot of flags, segments and their index that
  evaluation reads, and the two writers that publish a new one, \<^verbatim>\<open>populate\<close> (a full
  data set) and \<^verbatim>\<open>patch\<close> (newer objects only). A snapshot is published by one atomic
  swap under the write lock, so a writer is a function from the published snapshot to the
  next one.

  The lemmas give the abstract meaning of a patch (per key, the newest object wins, and the
  object already held wins a tie), the invariant that ties the index to the objects it was
  built from, and the version the synchronizer will ask updates for.
\<close>

named_theorems store_simps \<open>what the writers do to the maps of a snapshot\<close>

section \<open>Snapshots\<close>

record 'r prepared_snapshot =
  psn_flags :: "'r prepared_flag hash_map"
  psn_segments :: "'r prepared_segment hash_map"

record 'r data_snapshot =
  sn_flags :: "feature_flag hash_map"
  sn_segments :: "segment hash_map"
  sn_prepared :: "'r prepared_snapshot"
  sn_version :: int
  sn_populated :: bool

datatype patch_result = Changed | Unchanged | VersionConflict

definition store_new :: "'r data_snapshot" where
  "store_new =
    \<lparr>sn_flags = [], sn_segments = [], sn_prepared = \<lparr>psn_flags = [], psn_segments = []\<rparr>,
     sn_version = 0, sn_populated = False\<rparr>"

section \<open>populate\<close>

text \<open>
  One iteration of either loop of \<^verbatim>\<open>populate\<close>; the loop over flags and the loop over
  segments differ in the key, the version and the index of their objects only.
\<close>

definition populate_item ::
  "('a \<Rightarrow> str) \<Rightarrow> ('a \<Rightarrow> int) \<Rightarrow> ('a \<Rightarrow> 'p) \<Rightarrow> 'a \<Rightarrow>
    'a hash_map \<times> 'p hash_map \<times> int \<Rightarrow> 'a hash_map \<times> 'p hash_map \<times> int" where
  "populate_item key ver prep a acc =
    (case acc of (items, prepared, version) \<Rightarrow>
       if key a = [] then (items, prepared, version)
       else (AList.update (key a) a items, AList.update (key a) (prep a) prepared, max version (ver a)))"

definition populate :: "'r crates \<Rightarrow> data_set \<Rightarrow> 'r data_snapshot" where
  "populate x data =
    (let (flags, prepared_flags, version) =
           fold (populate_item ff_key ff_updated_at (prepared_flag_new x)) (ds_feature_flags data) ([], [], 0);
         (segments, prepared_segments, version') =
           fold (populate_item sg_id sg_updated_at (prepared_segment_new x)) (ds_segments data) ([], [], version)
     in \<lparr>sn_flags = flags, sn_segments = segments,
         sn_prepared = \<lparr>psn_flags = prepared_flags, psn_segments = prepared_segments\<rparr>,
         sn_version = version', sn_populated = True\<rparr>)"

section \<open>patch\<close>

text \<open>One iteration of either loop of \<^verbatim>\<open>patch\<close>: maps, \<^verbatim>\<open>changed\<close>, \<^verbatim>\<open>version_conflict\<close>.\<close>

definition patch_item ::
  "('a \<Rightarrow> str) \<Rightarrow> ('a \<Rightarrow> int) \<Rightarrow> ('a \<Rightarrow> 'a \<Rightarrow> bool) \<Rightarrow> ('a \<Rightarrow> 'p) \<Rightarrow> 'a \<Rightarrow>
    'a hash_map \<times> 'p hash_map \<times> bool \<times> bool \<Rightarrow> 'a hash_map \<times> 'p hash_map \<times> bool \<times> bool" where
  "patch_item key ver eqv prep a acc =
    (case acc of (items, prepared, changed, conflict) \<Rightarrow>
       if key a = [] then (items, prepared, changed, conflict)
       else
         let replaced = (AList.update (key a) a items, AList.update (key a) (prep a) prepared, True, conflict)
         in case map_of items (key a) of
              None \<Rightarrow> replaced
            | Some existing \<Rightarrow>
                if ver existing < ver a then replaced
                else if ver existing = ver a \<and> \<not> eqv existing a then (items, prepared, changed, True)
                else (items, prepared, changed, conflict))"

definition patch_flag ::
  "'r crates \<Rightarrow> feature_flag \<Rightarrow>
    feature_flag hash_map \<times> 'r prepared_flag hash_map \<times> bool \<times> bool \<Rightarrow>
    feature_flag hash_map \<times> 'r prepared_flag hash_map \<times> bool \<times> bool" where
  "patch_flag x = patch_item ff_key ff_updated_at flag_eq (prepared_flag_new x)"

definition patch_segment ::
  "'r crates \<Rightarrow> segment \<Rightarrow>
    segment hash_map \<times> 'r prepared_segment hash_map \<times> bool \<times> bool \<Rightarrow>
    segment hash_map \<times> 'r prepared_segment hash_map \<times> bool \<times> bool" where
  "patch_segment x = patch_item sg_id sg_updated_at segment_eq (prepared_segment_new x)"

definition patch :: "'r crates \<Rightarrow> data_set \<Rightarrow> 'r data_snapshot \<Rightarrow> patch_result \<times> 'r data_snapshot" where
  "patch x data s =
    (let (flags, prepared_flags, changed, conflict) =
           fold (patch_flag x) (ds_feature_flags data)
             (sn_flags s, psn_flags (sn_prepared s), False, False);
         (segments, prepared_segments, changed', conflict') =
           fold (patch_segment x) (ds_segments data)
             (sn_segments s, psn_segments (sn_prepared s), changed, conflict);
         version = max_or_default (map (ff_updated_at \<circ> snd) flags @ map (sg_updated_at \<circ> snd) segments);
         s' = (if changed' \<or> \<not> sn_populated s
               then \<lparr>sn_flags = flags, sn_segments = segments,
                     sn_prepared = \<lparr>psn_flags = prepared_flags, psn_segments = prepared_segments\<rparr>,
                     sn_version = version, sn_populated = True\<rparr>
               else s)
     in (if conflict' then VersionConflict else if changed' then Changed else Unchanged, s'))"

section \<open>Newest object wins\<close>

text \<open>
  The abstract register of a key: it takes an object that is strictly newer than the one it
  holds and keeps what it has otherwise.
\<close>

definition newer :: "('a \<Rightarrow> int) \<Rightarrow> 'a \<Rightarrow> 'a option \<Rightarrow> 'a option" where
  "newer ver a old =
    (case old of None \<Rightarrow> Some a | Some b \<Rightarrow> if ver b < ver a then Some a else Some b)"

definition newest :: "('a \<Rightarrow> int) \<Rightarrow> 'a list \<Rightarrow> 'a option \<Rightarrow> 'a option" where
  "newest ver as old = fold (newer ver) as old"

lemma newest_Nil [simp]: "newest ver [] old = old"
  and newest_Cons [simp]: "newest ver (a # as) old = newest ver as (newer ver a old)"
  and newest_append [simp]: "newest ver (as @ bs) old = newest ver bs (newest ver as old)"
  by (simp_all add: newest_def)

lemma newer_cases:
  obtains "newer ver a old = Some a" "\<forall>b \<in> set_option old. ver b < ver a"
  | b where "old = Some b" "newer ver a old = Some b" "ver a \<le> ver b"
proof (cases old)
  case (Some c)
  with that show ?thesis by (cases "ver c < ver a") (auto simp: newer_def not_less)
qed (auto simp: newer_def)

lemma newest_max:
  assumes "newest ver as old = Some b"
  shows "b \<in> set as \<union> set_option old \<and> (\<forall>a \<in> set as \<union> set_option old. ver a \<le> ver b)"
  using assms
proof (induction as arbitrary: old)
  case (Cons a as)
  then have IH: "b \<in> set as \<union> set_option (newer ver a old)"
    "\<forall>c \<in> set as \<union> set_option (newer ver a old). ver c \<le> ver b"
    by simp_all
  show ?case
  proof (cases rule: newer_cases [of ver a old])
    case 1
    with IH show ?thesis by (auto intro: order_trans [OF less_imp_le])
  next
    case (2 c)
    with IH show ?thesis by (auto intro: order_trans)
  qed
qed simp

lemma newest_Some: "old \<noteq> None \<or> as \<noteq> [] \<Longrightarrow> \<exists>b. newest ver as old = Some b"
  by (induction as arbitrary: old) (auto simp: newer_def split: option.splits)

lemma newest_None: "newest ver as old = None \<longleftrightarrow> as = [] \<and> old = None"
  using newest_Some [of old as ver] by (cases "as = []") auto

text \<open>Where no two objects tie, the order in which they arrive does not matter.\<close>

definition no_ties :: "('a \<Rightarrow> int) \<Rightarrow> 'a set \<Rightarrow> bool" where
  "no_ties ver A = (\<forall>a \<in> A. \<forall>b \<in> A. ver a = ver b \<longrightarrow> a = b)"

lemma newest_order:
  assumes "no_ties ver (set as \<union> set_option old)" and "set as = set bs"
  shows "newest ver as old = newest ver bs old"
proof (cases "newest ver as old")
  case None
  with assms(2) show ?thesis by (simp add: newest_None)
next
  case (Some a)
  then have "as \<noteq> [] \<or> old \<noteq> None" using newest_None [of ver as old] by auto
  with assms(2) obtain b where b: "newest ver bs old = Some b"
    using newest_Some [of old bs ver] by fastforce
  with Some assms show ?thesis
    using newest_max [OF Some] newest_max [OF b] by (simp add: no_ties_def order_antisym)
qed

section \<open>What the loops do to the maps\<close>

lemma patch_fold_lookup:
  assumes "fold (patch_item key ver eqv prep) as (m, p, ch, cf) = (m', p', ch', cf')"
  shows "map_of m' k = (if k = [] then map_of m k
      else newest ver (filter (\<lambda>a. key a = k) as) (map_of m k))"
  using assms
proof (induction as arbitrary: m p ch cf)
  case (Cons a as)
  obtain m1 p1 ch1 cf1 where step: "patch_item key ver eqv prep a (m, p, ch, cf) = (m1, p1, ch1, cf1)"
    by (metis prod_cases4)
  then have "map_of m1 k = (if k \<noteq> [] \<and> key a = k then newer ver a (map_of m k) else map_of m k)"
    by (auto simp: patch_item_def newer_def Let_def split: if_splits option.splits)
  with Cons.IH [of m1 p1 ch1 cf1] Cons.prems step show ?case by (cases "k = []") auto
qed simp

text \<open>The maps of objects and of indexes stay in step, with distinct keys.\<close>

definition indexed :: "('a \<Rightarrow> str) \<Rightarrow> ('a \<Rightarrow> 'p) \<Rightarrow> 'a hash_map \<Rightarrow> 'p hash_map \<Rightarrow> bool" where
  "indexed key prep m p =
    (distinct (map fst m) \<and>
     (\<forall>k a. map_of m k = Some a \<longrightarrow> key a = k \<and> k \<noteq> []) \<and>
     (\<forall>k. map_of p k = map_option prep (map_of m k)))"

lemma indexed_Nil [simp]: "indexed key prep [] []"
  by (simp add: indexed_def)

lemma indexed_update:
  "indexed key prep m p \<Longrightarrow> key a \<noteq> [] \<Longrightarrow>
    indexed key prep (AList.update (key a) a m) (AList.update (key a) (prep a) p)"
  by (auto simp: indexed_def)

lemma patch_fold_indexed:
  assumes "fold (patch_item key ver eqv prep) as (m, p, ch, cf) = (m', p', ch', cf')"
    and "indexed key prep m p"
  shows "indexed key prep m' p'"
  using assms
proof (induction as arbitrary: m p ch cf)
  case (Cons a as)
  obtain m1 p1 ch1 cf1 where step: "patch_item key ver eqv prep a (m, p, ch, cf) = (m1, p1, ch1, cf1)"
    by (metis prod_cases4)
  then have "indexed key prep m1 p1"
    using Cons.prems(2) indexed_update [of key prep m p a]
    by (auto simp: patch_item_def Let_def split: if_splits option.splits)
  with Cons.IH [of m1 p1 ch1 cf1] Cons.prems step show ?case by simp
qed simp

lemma patch_fold_changed_mono:
  "fold (patch_item key ver eqv prep) as (m, p, ch, cf) = (m', p', ch', cf') \<Longrightarrow> ch \<Longrightarrow> ch'"
proof (induction as arbitrary: m p ch cf)
  case (Cons a as)
  obtain m1 p1 ch1 cf1 where step: "patch_item key ver eqv prep a (m, p, ch, cf) = (m1, p1, ch1, cf1)"
    by (metis prod_cases4)
  then have "ch1"
    using Cons.prems(2) by (auto simp: patch_item_def Let_def split: if_splits option.splits)
  with Cons.IH [of m1 p1 ch1 cf1] Cons.prems step show ?case by simp
qed simp

lemma patch_fold_unchanged:
  "fold (patch_item key ver eqv prep) as (m, p, ch, cf) = (m', p', ch', cf') \<Longrightarrow> \<not> ch' \<Longrightarrow>
    m' = m \<and> p' = p \<and> \<not> ch"
proof (induction as arbitrary: m p ch cf)
  case (Cons a as)
  obtain m1 p1 ch1 cf1 where step: "patch_item key ver eqv prep a (m, p, ch, cf) = (m1, p1, ch1, cf1)"
    by (metis prod_cases4)
  with Cons.IH [of m1 p1 ch1 cf1] Cons.prems have "m' = m1 \<and> p' = p1 \<and> \<not> ch1" by simp
  with step show ?case by (auto simp: patch_item_def Let_def split: if_splits option.splits)
qed simp

text \<open>Objects that are not newer than what the map holds change nothing.\<close>

lemma patch_fold_stale:
  assumes "\<And>a. a \<in> set as \<Longrightarrow> key a \<noteq> [] \<Longrightarrow> \<exists>b. map_of m (key a) = Some b \<and> ver a \<le> ver b"
    and "fold (patch_item key ver eqv prep) as (m, p, ch, cf) = (m', p', ch', cf')"
  shows "m' = m \<and> p' = p \<and> ch' = ch"
  using assms
proof (induction as arbitrary: cf)
  case (Cons a as)
  obtain m1 p1 ch1 cf1 where step: "patch_item key ver eqv prep a (m, p, ch, cf) = (m1, p1, ch1, cf1)"
    by (metis prod_cases4)
  have "key a \<noteq> [] \<Longrightarrow> \<exists>b. map_of m (key a) = Some b \<and> ver a \<le> ver b"
    by (rule Cons.prems(1)) simp
  with step have "m1 = m \<and> p1 = p \<and> ch1 = ch"
    by (auto simp: patch_item_def Let_def split: if_splits)
  with Cons.IH [of cf1] Cons.prems step show ?case by simp
qed simp

lemma populate_fold_lookup:
  assumes "fold (populate_item key ver prep) as (m, p, v) = (m', p', v')"
  shows "map_of m' k =
    (case find (\<lambda>a. key a = k \<and> k \<noteq> []) (rev as) of None \<Rightarrow> map_of m k | Some a \<Rightarrow> Some a)"
  using assms
proof (induction as arbitrary: m' p' v' rule: rev_induct)
  case (snoc a as)
  obtain m1 p1 v1 where step: "fold (populate_item key ver prep) as (m, p, v) = (m1, p1, v1)"
    by (metis prod_cases3)
  from snoc.prems step have "populate_item key ver prep a (m1, p1, v1) = (m', p', v')" by simp
  with snoc.IH [OF step] show ?case
    by (auto simp: populate_item_def split: if_splits option.splits)
qed simp

lemma populate_fold_indexed:
  assumes "fold (populate_item key ver prep) as (m, p, v) = (m', p', v')" and "indexed key prep m p"
  shows "indexed key prep m' p'"
  using assms
proof (induction as arbitrary: m p v)
  case (Cons a as)
  obtain m1 p1 v1 where step: "populate_item key ver prep a (m, p, v) = (m1, p1, v1)"
    by (metis prod_cases3)
  then have "indexed key prep m1 p1"
    using Cons.prems(2) indexed_update [of key prep m p a]
    by (auto simp: populate_item_def split: if_splits)
  with Cons.IH [of m1 p1 v1] Cons.prems step show ?case by simp
qed simp

lemma populate_fold_version:
  assumes "fold (populate_item key ver prep) as (m, p, v) = (m', p', v')"
  shows "v' = fold max (map ver (filter (\<lambda>a. key a \<noteq> []) as)) v"
  using assms
proof (induction as arbitrary: m p v)
  case (Cons a as)
  then show ?case by (auto simp: populate_item_def max.commute split: if_splits)
qed simp

section \<open>The snapshot invariant\<close>

definition snapshot_ok :: "'r crates \<Rightarrow> 'r data_snapshot \<Rightarrow> bool" where
  "snapshot_ok x s =
    (indexed ff_key (prepared_flag_new x) (sn_flags s) (psn_flags (sn_prepared s)) \<and>
     indexed sg_id (prepared_segment_new x) (sn_segments s) (psn_segments (sn_prepared s)) \<and>
     (\<forall>f \<in> set (map snd (sn_flags s)). ff_updated_at f \<le> sn_version s) \<and>
     (\<forall>g \<in> set (map snd (sn_segments s)). sg_updated_at g \<le> sn_version s) \<and>
     (\<not> sn_populated s \<longrightarrow> sn_flags s = [] \<and> sn_segments s = []))"

lemma snapshot_okD:
  assumes "snapshot_ok x s"
  shows "distinct (map fst (sn_flags s))" and "distinct (map fst (sn_segments s))"
    and "map_of (psn_flags (sn_prepared s)) k = map_option (prepared_flag_new x) (map_of (sn_flags s) k)"
    and "map_of (psn_segments (sn_prepared s)) k = map_option (prepared_segment_new x) (map_of (sn_segments s) k)"
    and "map_of (sn_flags s) k = Some f \<Longrightarrow> ff_key f = k \<and> k \<noteq> []"
    and "map_of (sn_segments s) k = Some g \<Longrightarrow> sg_id g = k \<and> k \<noteq> []"
  using assms by (auto simp: snapshot_ok_def indexed_def)

lemma store_new_empty [simp]: "map_of (sn_flags store_new) k = None" "map_of (sn_segments store_new) k = None"
  by (simp_all add: store_new_def)

lemma store_new_ok: "snapshot_ok x store_new"
  by (simp add: snapshot_ok_def store_new_def)

lemma indexed_lookup_in: "indexed key prep m p \<Longrightarrow> a \<in> set (map snd m) \<longleftrightarrow> map_of m (key a) = Some a"
  by (force simp: indexed_def)

text \<open>What \<^verbatim>\<open>populate\<close> computes, in terms of its two loops.\<close>

lemma populate_cases:
  obtains v where
    "fold (populate_item ff_key ff_updated_at (prepared_flag_new x)) (ds_feature_flags d) ([], [], 0)
      = (sn_flags (populate x d), psn_flags (sn_prepared (populate x d)), v)"
    "fold (populate_item sg_id sg_updated_at (prepared_segment_new x)) (ds_segments d) ([], [], v)
      = (sn_segments (populate x d), psn_segments (sn_prepared (populate x d)), sn_version (populate x d))"
    "sn_populated (populate x d)"
proof -
  obtain f pf v where f: "fold (populate_item ff_key ff_updated_at (prepared_flag_new x))
      (ds_feature_flags d) ([], [], 0) = (f, pf, v)" by (metis prod_cases3)
  obtain g pg w where g: "fold (populate_item sg_id sg_updated_at (prepared_segment_new x))
      (ds_segments d) ([], [], v) = (g, pg, w)" by (metis prod_cases3)
  show thesis by (rule that [of v]) (simp_all add: populate_def f g)
qed

lemma populate_flags:
  "map_of (sn_flags (populate x d)) k = find (\<lambda>f. ff_key f = k \<and> k \<noteq> []) (rev (ds_feature_flags d))"
  by (rule populate_cases [of x d]) (auto dest: populate_fold_lookup [where k = k] split: option.splits)

lemma populate_segments:
  "map_of (sn_segments (populate x d)) k = find (\<lambda>g. sg_id g = k \<and> k \<noteq> []) (rev (ds_segments d))"
  by (rule populate_cases [of x d]) (auto dest: populate_fold_lookup [where k = k] split: option.splits)

lemma fold_max_init: "v \<le> fold max xs (v :: int)" and fold_max_mem: "y \<in> set xs \<Longrightarrow> y \<le> fold max xs v"
  using fold_max_ge by auto

lemma populate_version:
  "sn_version (populate x d) =
    fold max (map ff_updated_at (filter (\<lambda>f. ff_key f \<noteq> []) (ds_feature_flags d))
      @ map sg_updated_at (filter (\<lambda>g. sg_id g \<noteq> []) (ds_segments d))) 0"
  by (rule populate_cases [of x d]) (auto dest!: populate_fold_version)

lemma populate_ok: "snapshot_ok x (populate x d)"
proof (rule populate_cases [of x d])
  fix v
  assume f: "fold (populate_item ff_key ff_updated_at (prepared_flag_new x)) (ds_feature_flags d) ([], [], 0)
      = (sn_flags (populate x d), psn_flags (sn_prepared (populate x d)), v)"
    and g: "fold (populate_item sg_id sg_updated_at (prepared_segment_new x)) (ds_segments d) ([], [], v)
      = (sn_segments (populate x d), psn_segments (sn_prepared (populate x d)), sn_version (populate x d))"
    and pop: "sn_populated (populate x d)"
  note fi = populate_fold_indexed [OF f indexed_Nil]
  note gi = populate_fold_indexed [OF g indexed_Nil]
  have "ff_updated_at a \<le> sn_version (populate x d)" if a: "a \<in> set (map snd (sn_flags (populate x d)))" for a
  proof -
    from a have "map_of (sn_flags (populate x d)) (ff_key a) = Some a" using indexed_lookup_in [OF fi] by blast
    then have "a \<in> set (ds_feature_flags d)" "ff_key a \<noteq> []"
      by (auto simp: populate_flags dest: find_Some_iff_in)
    then show ?thesis unfolding populate_version by (intro fold_max_mem) auto
  qed
  moreover have "sg_updated_at a \<le> sn_version (populate x d)"
    if a: "a \<in> set (map snd (sn_segments (populate x d)))" for a
  proof -
    from a have "map_of (sn_segments (populate x d)) (sg_id a) = Some a" using indexed_lookup_in [OF gi] by blast
    then have "a \<in> set (ds_segments d)" "sg_id a \<noteq> []"
      by (auto simp: populate_segments dest: find_Some_iff_in)
    then show ?thesis unfolding populate_version by (intro fold_max_mem) auto
  qed
  ultimately show ?thesis using fi gi pop by (simp add: snapshot_ok_def)
qed

text \<open>What \<^verbatim>\<open>patch\<close> computes, in terms of its two loops.\<close>

lemma patch_cases:
  obtains (publish) f pf ch cf g pg ch' cf' where
    "fold (patch_flag x) (ds_feature_flags d) (sn_flags s, psn_flags (sn_prepared s), False, False) = (f, pf, ch, cf)"
    "fold (patch_segment x) (ds_segments d) (sn_segments s, psn_segments (sn_prepared s), ch, cf) = (g, pg, ch', cf')"
    "ch' \<or> \<not> sn_populated s"
    "patch x d s = (if cf' then VersionConflict else if ch' then Changed else Unchanged,
       \<lparr>sn_flags = f, sn_segments = g, sn_prepared = \<lparr>psn_flags = pf, psn_segments = pg\<rparr>,
        sn_version = max_or_default (map (ff_updated_at \<circ> snd) f @ map (sg_updated_at \<circ> snd) g),
        sn_populated = True\<rparr>)"
  | (keep) f pf ch cf g pg ch' cf' where
    "fold (patch_flag x) (ds_feature_flags d) (sn_flags s, psn_flags (sn_prepared s), False, False) = (f, pf, ch, cf)"
    "fold (patch_segment x) (ds_segments d) (sn_segments s, psn_segments (sn_prepared s), ch, cf) = (g, pg, ch', cf')"
    "\<not> ch'" "sn_populated s"
    "patch x d s = (if cf' then VersionConflict else Unchanged, s)"
    "f = sn_flags s" "pf = psn_flags (sn_prepared s)" "g = sn_segments s" "pg = psn_segments (sn_prepared s)" "\<not> ch"
proof -
  obtain f pf ch cf where f: "fold (patch_flag x) (ds_feature_flags d)
      (sn_flags s, psn_flags (sn_prepared s), False, False) = (f, pf, ch, cf)" by (metis prod_cases4)
  obtain g pg ch' cf' where g: "fold (patch_segment x) (ds_segments d)
      (sn_segments s, psn_segments (sn_prepared s), ch, cf) = (g, pg, ch', cf')" by (metis prod_cases4)
  have eq: "patch x d s = (if cf' then VersionConflict else if ch' then Changed else Unchanged,
      if ch' \<or> \<not> sn_populated s
      then \<lparr>sn_flags = f, sn_segments = g, sn_prepared = \<lparr>psn_flags = pf, psn_segments = pg\<rparr>,
        sn_version = max_or_default (map (ff_updated_at \<circ> snd) f @ map (sg_updated_at \<circ> snd) g),
        sn_populated = True\<rparr>
      else s)"
    by (simp add: patch_def f g)
  show thesis
  proof (cases "ch' \<or> \<not> sn_populated s")
    case True
    with eq show ?thesis by (intro publish [OF f g]) auto
  next
    case False
    with patch_fold_unchanged [OF g [unfolded patch_segment_def]]
    have "g = sn_segments s" "pg = psn_segments (sn_prepared s)" "\<not> ch" by auto
    moreover from patch_fold_unchanged [OF f [unfolded patch_flag_def]] this
    have "f = sn_flags s" "pf = psn_flags (sn_prepared s)" by auto
    ultimately show ?thesis using False eq by (intro keep [OF f g]) auto
  qed
qed

lemma patch_flags:
  "map_of (sn_flags (snd (patch x d s))) k =
    (if k = [] then map_of (sn_flags s) k
     else newest ff_updated_at (filter (\<lambda>f. ff_key f = k) (ds_feature_flags d)) (map_of (sn_flags s) k))"
  by (cases rule: patch_cases [of x d s]) (auto simp: patch_flag_def dest: patch_fold_lookup [where k = k])

lemma patch_segments:
  "map_of (sn_segments (snd (patch x d s))) k =
    (if k = [] then map_of (sn_segments s) k
     else newest sg_updated_at (filter (\<lambda>g. sg_id g = k) (ds_segments d)) (map_of (sn_segments s) k))"
  by (cases rule: patch_cases [of x d s]) (auto simp: patch_segment_def dest: patch_fold_lookup [where k = k])

lemma patch_populated [store_simps]: "sn_populated (snd (patch x d s))"
  by (cases rule: patch_cases [of x d s]) auto

lemma patch_ok:
  assumes "snapshot_ok x s"
  shows "snapshot_ok x (snd (patch x d s))"
proof (cases rule: patch_cases [of x d s])
  case (publish f pf ch cf g pg ch' cf')
  from assms have "indexed ff_key (prepared_flag_new x) f pf" "indexed sg_id (prepared_segment_new x) g pg"
    using patch_fold_indexed publish(1,2) unfolding patch_flag_def patch_segment_def snapshot_ok_def by blast+
  moreover have "ff_updated_at a \<le> max_or_default (map (ff_updated_at \<circ> snd) f @ map (sg_updated_at \<circ> snd) g)"
    if "a \<in> set (map snd f)" for a
    using that by (intro max_or_default_ge) force
  moreover have "sg_updated_at a \<le> max_or_default (map (ff_updated_at \<circ> snd) f @ map (sg_updated_at \<circ> snd) g)"
    if "a \<in> set (map snd g)" for a
    using that by (intro max_or_default_ge) force
  ultimately show ?thesis by (simp add: publish(4) snapshot_ok_def)
next
  case keep
  with assms show ?thesis by simp
qed

section \<open>The interface the rest of the SDK relies on\<close>

text \<open>
  The version a snapshot holds for a flag (\<^const>\<open>Inl\<close>) or a segment (\<^const>\<open>Inr\<close>), and the
  order in which a snapshot is below another that holds each of its objects at least as new.
\<close>

definition object_version :: "('r, 'm) data_snapshot_scheme \<Rightarrow> str + str \<Rightarrow> int option" where
  "object_version s k =
    (case k of Inl i \<Rightarrow> map_option ff_updated_at (map_of (sn_flags s) i)
     | Inr i \<Rightarrow> map_option sg_updated_at (map_of (sn_segments s) i))"

instantiation data_snapshot_ext :: (type, type) preorder
begin

definition less_eq_data_snapshot_ext :: "('a, 'b) data_snapshot_ext \<Rightarrow> ('a, 'b) data_snapshot_ext \<Rightarrow> bool" where
  "less_eq_data_snapshot_ext s t =
    (\<forall>k v. object_version s k = Some v \<longrightarrow> (\<exists>w \<ge> v. object_version t k = Some w))"

definition less_data_snapshot_ext :: "('a, 'b) data_snapshot_ext \<Rightarrow> ('a, 'b) data_snapshot_ext \<Rightarrow> bool" where
  "less_data_snapshot_ext s t = (s \<le> t \<and> \<not> t \<le> s)"

instance
  by standard (auto simp: less_eq_data_snapshot_ext_def less_data_snapshot_ext_def intro: order_trans, fastforce)

end

lemmas snapshot_le = less_eq_data_snapshot_ext_def

text \<open>
  The synchronizer writes the store and evaluation reads it. What readers may assume of any
  snapshot they load: it satisfies the store's invariant, whatever sequence of full and
  incremental updates led to it, and between two full updates snapshots only grow.
\<close>

locale snapshot_source =
  fixes init :: "'s :: preorder"
    and full :: "'d \<Rightarrow> 's"
    and incremental :: "'d \<Rightarrow> 's \<Rightarrow> 's"
    and ok :: "'s \<Rightarrow> bool"
  assumes init_ok: "ok init"
    and full_ok: "ok (full d)"
    and incremental_ok: "ok s \<Longrightarrow> ok (incremental d s)"
    and incremental_grows: "s \<le> incremental d s"
begin

lemma updates_ok:
  assumes "ok s"
  shows "ok (fold (\<lambda>u s. case u of Inl d \<Rightarrow> full d | Inr d \<Rightarrow> incremental d s) us s)"
  using assms by (induction us arbitrary: s) (auto simp: full_ok incremental_ok split: sum.splits)

lemma loaded_ok: "ok (fold (\<lambda>u s. case u of Inl d \<Rightarrow> full d | Inr d \<Rightarrow> incremental d s) us init)"
  by (rule updates_ok) (rule init_ok)

lemma incrementals_grow: "s \<le> fold incremental ds s"
  by (induction ds arbitrary: s) (auto intro: order_trans [OF incremental_grows])

end

lemma newest_version_grows:
  assumes "old = Some a"
  shows "\<exists>b. newest ver as old = Some b \<and> ver a \<le> ver b"
proof -
  obtain b where "newest ver as old = Some b" using newest_Some [of old as ver] assms by auto
  with newest_max [OF this] assms show ?thesis by auto
qed

lemma patch_object_version:
  assumes "object_version s k = Some v"
  shows "\<exists>w \<ge> v. object_version (snd (patch x d s)) k = Some w"
proof (cases k)
  case (Inl i)
  with assms obtain f where "map_of (sn_flags s) i = Some f" "v = ff_updated_at f"
    by (auto simp: object_version_def)
  with Inl show ?thesis
    using newest_version_grows [of "map_of (sn_flags s) i" f ff_updated_at]
    by (fastforce simp: object_version_def patch_flags)
next
  case (Inr i)
  with assms obtain g where "map_of (sn_segments s) i = Some g" "v = sg_updated_at g"
    by (auto simp: object_version_def)
  with Inr show ?thesis
    using newest_version_grows [of "map_of (sn_segments s) i" g sg_updated_at]
    by (fastforce simp: object_version_def patch_segments)
qed

lemma patch_grows: "s \<le> snd (patch x d s)"
  by (auto simp: snapshot_le dest: patch_object_version)

interpretation snapshots: snapshot_source store_new "populate x" "\<lambda>d s. snd (patch x d s)" "snapshot_ok x"
  by unfold_locales (auto intro: store_new_ok populate_ok patch_ok patch_grows)

section \<open>Idempotence and order\<close>

lemma filter_newest_stale:
  assumes "a \<in> set as" and "key a = k"
  shows "\<exists>b. newest ver (filter (\<lambda>a. key a = k) as) old = Some b \<and> ver a \<le> ver b"
proof -
  have "filter (\<lambda>a. key a = k) as \<noteq> []" using assms by (auto simp: filter_empty_conv)
  then obtain b where "newest ver (filter (\<lambda>a. key a = k) as) old = Some b" using newest_Some by blast
  with newest_max [OF this] assms show ?thesis by auto
qed

lemma patch_idempotent: "snd (patch x d (snd (patch x d s))) = snd (patch x d s)"
proof (cases rule: patch_cases [of x d "snd (patch x d s)"])
  case (publish f pf ch cf g pg ch' cf')
  have "\<not> ch"
    using patch_fold_stale [OF _ publish(1) [unfolded patch_flag_def]]
      filter_newest_stale [where key = ff_key and ver = ff_updated_at]
    by (fastforce simp: patch_flags)
  then have "\<not> ch'"
    using patch_fold_stale [OF _ publish(2) [unfolded patch_segment_def]]
      filter_newest_stale [where key = sg_id and ver = sg_updated_at]
    by (fastforce simp: patch_segments)
  with publish(3) show ?thesis by (simp add: patch_populated)
qed simp

text \<open>
  The objects two data sets and a snapshot hold for a key; they are free of ties when no two
  different ones carry the same version.
\<close>

definition flags_of_key :: "str \<Rightarrow> data_set \<Rightarrow> feature_flag set" where
  "flags_of_key k d = {f \<in> set (ds_feature_flags d). ff_key f = k}"

definition segments_of_key :: "str \<Rightarrow> data_set \<Rightarrow> segment set" where
  "segments_of_key k d = {g \<in> set (ds_segments d). sg_id g = k}"

lemma newest_commute:
  assumes "no_ties ver (set as \<union> set bs \<union> set_option old)"
  shows "newest ver bs (newest ver as old) = newest ver as (newest ver bs old)"
proof -
  have "newest ver (as @ bs) old = newest ver (bs @ as) old"
    by (rule newest_order) (use assms in \<open>auto simp: Un_commute Un_left_commute\<close>)
  then show ?thesis by simp
qed

lemma patches_commute_maps:
  assumes "\<And>k. k \<noteq> [] \<Longrightarrow> no_ties ff_updated_at
      (flags_of_key k d \<union> flags_of_key k e \<union> set_option (map_of (sn_flags s) k))"
    and "\<And>k. k \<noteq> [] \<Longrightarrow> no_ties sg_updated_at
      (segments_of_key k d \<union> segments_of_key k e \<union> set_option (map_of (sn_segments s) k))"
  shows "map_of (sn_flags (snd (patch x e (snd (patch x d s))))) k
      = map_of (sn_flags (snd (patch x d (snd (patch x e s))))) k"
    and "map_of (sn_segments (snd (patch x e (snd (patch x d s))))) k
      = map_of (sn_segments (snd (patch x d (snd (patch x e s))))) k"
proof -
  have "newest ff_updated_at (filter (\<lambda>f. ff_key f = k) (ds_feature_flags e))
        (newest ff_updated_at (filter (\<lambda>f. ff_key f = k) (ds_feature_flags d)) (map_of (sn_flags s) k))
      = newest ff_updated_at (filter (\<lambda>f. ff_key f = k) (ds_feature_flags d))
        (newest ff_updated_at (filter (\<lambda>f. ff_key f = k) (ds_feature_flags e)) (map_of (sn_flags s) k))"
    if "k \<noteq> []"
    by (rule newest_commute) (use assms(1) [OF that] in \<open>simp add: flags_of_key_def\<close>)
  then show "map_of (sn_flags (snd (patch x e (snd (patch x d s))))) k
      = map_of (sn_flags (snd (patch x d (snd (patch x e s))))) k"
    by (simp add: patch_flags)
  have "newest sg_updated_at (filter (\<lambda>g. sg_id g = k) (ds_segments e))
        (newest sg_updated_at (filter (\<lambda>g. sg_id g = k) (ds_segments d)) (map_of (sn_segments s) k))
      = newest sg_updated_at (filter (\<lambda>g. sg_id g = k) (ds_segments d))
        (newest sg_updated_at (filter (\<lambda>g. sg_id g = k) (ds_segments e)) (map_of (sn_segments s) k))"
    if "k \<noteq> []"
    by (rule newest_commute) (use assms(2) [OF that] in \<open>simp add: segments_of_key_def\<close>)
  then show "map_of (sn_segments (snd (patch x e (snd (patch x d s))))) k
      = map_of (sn_segments (snd (patch x d (snd (patch x e s))))) k"
    by (simp add: patch_segments)
qed

section \<open>Conflicts\<close>

lemma newest_keeps:
  "newest ver as (Some b) = Some c \<Longrightarrow> c = b \<or> ver b < ver c"
proof (induction as arbitrary: b)
  case (Cons a as)
  then show ?case by (fastforce simp: newer_def split: if_splits)
qed simp

lemma patch_fold_conflict_mono:
  "fold (patch_item key ver eqv prep) as (m, p, ch, cf) = (m', p', ch', cf') \<Longrightarrow> cf \<Longrightarrow> cf'"
proof (induction as arbitrary: m p ch cf)
  case (Cons a as)
  obtain m1 p1 ch1 cf1 where step: "patch_item key ver eqv prep a (m, p, ch, cf) = (m1, p1, ch1, cf1)"
    by (metis prod_cases4)
  then have "cf1"
    using Cons.prems(2) by (auto simp: patch_item_def Let_def split: if_splits option.splits)
  with Cons.IH [of m1 p1 ch1 cf1] Cons.prems step show ?case by simp
qed simp

lemma patch_fold_no_conflict:
  assumes "fold (patch_item key ver eqv prep) as (m, p, ch, cf) = (m', p', ch', False)"
    and "a \<in> set as" and "key a \<noteq> []"
  shows "\<exists>b. map_of m' (key a) = Some b \<and> (b = a \<or> ver a < ver b \<or> ver b = ver a \<and> eqv b a)"
  using assms(1,2)
proof (induction as arbitrary: m p ch cf)
  case (Cons c as)
  obtain m1 p1 ch1 cf1 where step: "patch_item key ver eqv prep c (m, p, ch, cf) = (m1, p1, ch1, cf1)"
    by (metis prod_cases4)
  with Cons.prems have rest: "fold (patch_item key ver eqv prep) as (m1, p1, ch1, cf1) = (m', p', ch', False)"
    by simp
  then have "\<not> cf1" using patch_fold_conflict_mono by blast
  show ?case
  proof (cases "a \<in> set as")
    case True
    with Cons.IH rest show ?thesis by blast
  next
    case False
    with Cons.prems(2) have "c = a" by simp
    with step assms(3) \<open>\<not> cf1\<close> obtain b where b: "map_of m1 (key a) = Some b"
      "b = a \<or> ver a < ver b \<or> ver b = ver a \<and> eqv b a"
      by (force simp: patch_item_def Let_def split: if_splits option.splits)
    from patch_fold_lookup [OF rest, of "key a"] assms(3) b(1)
    have m': "map_of m' (key a) = newest ver (filter (\<lambda>e. key e = key a) as) (Some b)" by simp
    obtain d where d: "map_of m' (key a) = Some d" using newest_Some [of "Some b"] m' by auto
    with m' newest_keeps have "d = b \<or> ver b < ver d" by metis
    with b(2) d show ?thesis by auto
  qed
qed simp

lemma patch_fold_conflict:
  assumes "fold (patch_item key ver eqv prep) as (m, p, ch, cf) = (m', p', ch', True)" and "\<not> cf"
  shows "\<exists>a \<in> set as. \<exists>b. key a \<noteq> [] \<and> (b \<in> set as \<and> key b = key a \<or> map_of m (key a) = Some b) \<and>
    ver b = ver a \<and> \<not> eqv b a"
  using assms
proof (induction as arbitrary: m p ch cf)
  case (Cons c as)
  obtain m1 p1 ch1 cf1 where step: "patch_item key ver eqv prep c (m, p, ch, cf) = (m1, p1, ch1, cf1)"
    by (metis prod_cases4)
  show ?case
  proof (cases cf1)
    case True
    with step Cons.prems(2) obtain b where "key c \<noteq> []" "map_of m (key c) = Some b" "ver b = ver c" "\<not> eqv b c"
      by (auto simp: patch_item_def Let_def split: if_splits option.splits)
    then show ?thesis by auto
  next
    case False
    with Cons step obtain a b where ab: "a \<in> set as" "key a \<noteq> []" "ver b = ver a" "\<not> eqv b a"
      "b \<in> set as \<and> key b = key a \<or> map_of m1 (key a) = Some b"
      by fastforce
    moreover from step have "map_of m1 (key a) = Some b \<Longrightarrow> b = c \<and> key c = key a \<or> map_of m (key a) = Some b"
      by (auto simp: patch_item_def Let_def split: if_splits option.splits)
    ultimately show ?thesis by auto
  qed
qed simp

text \<open>The versions an update carries for a key, and when a snapshot holds all of them.\<close>

definition data_versions :: "data_set \<Rightarrow> str + str \<Rightarrow> int set" where
  "data_versions d k =
    (case k of Inl i \<Rightarrow> if i = [] then {} else ff_updated_at ` flags_of_key i d
     | Inr i \<Rightarrow> if i = [] then {} else sg_updated_at ` segments_of_key i d)"

definition covers :: "('r, 'm) data_snapshot_scheme \<Rightarrow> data_set \<Rightarrow> bool" where
  "covers s d = (\<forall>k. \<forall>v \<in> data_versions d k. \<exists>w \<ge> v. object_version s k = Some w)"

lemma newest_version:
  "map_option ver (newest ver (filter P as) old) = Some w \<Longrightarrow>
    w \<in> ver ` {a \<in> set as. P a} \<union> set_option (map_option ver old) \<and>
    (\<forall>v \<in> ver ` {a \<in> set as. P a} \<union> set_option (map_option ver old). v \<le> w)"
  by (cases "newest ver (filter P as) old") (auto dest!: newest_max)

lemma patch_versions_newest:
  assumes "object_version (snd (patch x d s)) k = Some w"
  shows "w \<in> data_versions d k \<union> set_option (object_version s k) \<and>
    (\<forall>v \<in> data_versions d k \<union> set_option (object_version s k). v \<le> w)"
proof (cases k)
  case (Inl i)
  show ?thesis
  proof (cases "i = []")
    case False
    with assms Inl have "map_option ff_updated_at (newest ff_updated_at (filter (\<lambda>f. ff_key f = i) (ds_feature_flags d))
        (map_of (sn_flags s) i)) = Some w" by (simp add: object_version_def patch_flags)
    from newest_version [OF this] Inl False show ?thesis
      by (simp add: data_versions_def flags_of_key_def object_version_def)
  qed (use assms Inl in \<open>auto simp: object_version_def data_versions_def patch_flags\<close>)
next
  case (Inr i)
  show ?thesis
  proof (cases "i = []")
    case False
    with assms Inr have "map_option sg_updated_at (newest sg_updated_at (filter (\<lambda>g. sg_id g = i) (ds_segments d))
        (map_of (sn_segments s) i)) = Some w" by (simp add: object_version_def patch_segments)
    from newest_version [OF this] Inr False show ?thesis
      by (simp add: data_versions_def segments_of_key_def object_version_def)
  qed (use assms Inr in \<open>auto simp: object_version_def data_versions_def patch_segments\<close>)
qed

lemma patch_versions_known:
  assumes "v \<in> data_versions d k"
  shows "\<exists>w \<ge> v. object_version (snd (patch x d s)) k = Some w"
proof -
  obtain w where w: "object_version (snd (patch x d s)) k = Some w"
  proof (cases k)
    case (Inl i)
    with assms have "i \<noteq> []" "filter (\<lambda>f. ff_key f = i) (ds_feature_flags d) \<noteq> []"
      by (auto simp: data_versions_def flags_of_key_def filter_empty_conv split: if_splits)
    with that Inl newest_Some [of "map_of (sn_flags s) i" "filter (\<lambda>f. ff_key f = i) (ds_feature_flags d)" ff_updated_at]
    show thesis by (auto simp: object_version_def patch_flags)
  next
    case (Inr i)
    with assms have "i \<noteq> []" "filter (\<lambda>g. sg_id g = i) (ds_segments d) \<noteq> []"
      by (auto simp: data_versions_def segments_of_key_def filter_empty_conv split: if_splits)
    with that Inr newest_Some [of "map_of (sn_segments s) i" "filter (\<lambda>g. sg_id g = i) (ds_segments d)" sg_updated_at]
    show thesis by (auto simp: object_version_def patch_segments)
  qed
  with patch_versions_newest [OF w] assms show ?thesis by auto
qed

section \<open>Properties\<close>

text \<open>The snapshot after a sequence of full (\<^const>\<open>Inl\<close>) and incremental (\<^const>\<open>Inr\<close>) updates.\<close>

definition store_after :: "'r crates \<Rightarrow> (data_set + data_set) list \<Rightarrow> 'r data_snapshot" where
  "store_after x us =
    fold (\<lambda>u s. case u of Inl d \<Rightarrow> populate x d | Inr d \<Rightarrow> snd (patch x d s)) us store_new"

text \<open>
  C14. Whatever full and incremental updates the store has taken, every snapshot it publishes
  is well formed: each object is stored under its own, non-empty key, the index holds exactly
  the preparation of the object stored, no stored object is newer than the version of the
  snapshot, and an unpopulated store is empty.
\<close>

theorem published_snapshots_ok: "snapshot_ok x (store_after x us)"
  unfolding store_after_def by (rule snapshots.loaded_ok)

text \<open>
  After an incremental update the store holds, for every non-empty flag key, an object
  of the newest version among the one it held and those in the update; on a tie the object it
  held stays. Nothing is held for a key that neither had.
\<close>

theorem patch_newest_flag_wins:
  assumes "k \<noteq> []"
  shows "(case map_of (sn_flags (snd (patch x d s))) k of
      None \<Rightarrow> flags_of_key k d = {} \<and> map_of (sn_flags s) k = None
    | Some f \<Rightarrow>
        f \<in> flags_of_key k d \<union> set_option (map_of (sn_flags s) k) \<and>
        (\<forall>g \<in> flags_of_key k d \<union> set_option (map_of (sn_flags s) k). ff_updated_at g \<le> ff_updated_at f) \<and>
        (\<forall>g \<in> set_option (map_of (sn_flags s) k). ff_updated_at g = ff_updated_at f \<longrightarrow> f = g))"
proof -
  define fs where "fs = filter (\<lambda>f. ff_key f = k) (ds_feature_flags d)"
  have fs: "set fs = flags_of_key k d" by (auto simp: fs_def flags_of_key_def)
  have eq: "map_of (sn_flags (snd (patch x d s))) k = newest ff_updated_at fs (map_of (sn_flags s) k)"
    using assms by (simp add: patch_flags fs_def)
  show ?thesis
  proof (cases "newest ff_updated_at fs (map_of (sn_flags s) k)")
    case None
    then show ?thesis using fs by (simp add: eq newest_None)
  next
    case (Some f)
    have "\<forall>g \<in> set_option (map_of (sn_flags s) k). ff_updated_at g = ff_updated_at f \<longrightarrow> f = g"
      using Some newest_keeps [of ff_updated_at fs _ f] by fastforce
    with newest_max [OF Some] show ?thesis by (simp add: eq Some fs)
  qed
qed

theorem patch_newest_flag_wins_witness:
  "map_of (sn_flags (snd (patch sample_crates (sample_data 2 True) (populate sample_crates (sample_data 1 False))))) ''f''
    = Some (sample_flag 2 True)"
  using patch_newest_flag_wins [where k = "''f''" and x = sample_crates and d = "sample_data 2 True"
      and s = "populate sample_crates (sample_data 1 False)"]
  by (auto simp: flags_of_key_def populate_flags split: option.splits)

text \<open>
  No sequence of incremental updates takes a flag or segment back to an older version or
  removes it.
\<close>

theorem patches_never_regress:
  assumes "object_version s k = Some v"
  shows "\<exists>w \<ge> v. object_version (fold (\<lambda>d s. snd (patch x d s)) ds s) k = Some w"
  using assms snapshots.incrementals_grow [of s x ds] by (simp add: snapshot_le)

theorem patches_never_regress_witness:
  "\<exists>w \<ge> 5. object_version
    (fold (\<lambda>d s. snd (patch sample_crates d s)) [sample_data 3 True, sample_data 7 False]
      (populate sample_crates (sample_data 5 True))) (Inr ''s'') = Some w"
  by (rule patches_never_regress) (simp add: object_version_def populate_segments)

text \<open>
  C16. A patch is the join of the snapshot and the update: the snapshot it publishes holds
  everything the store held and everything the update carries, each at least as new, and it is
  the least such snapshot.
\<close>

theorem patch_is_the_join:
  "s \<le> snd (patch x d s) \<and> covers (snd (patch x d s)) d \<and>
    (s \<le> t \<and> covers t d \<longrightarrow> snd (patch x d s) \<le> t)"
proof (intro conjI impI)
  show "covers (snd (patch x d s)) d"
    using patch_versions_known [of _ d] by (force simp: covers_def)
  assume t: "s \<le> t \<and> covers t d"
  have "\<exists>w \<ge> v. object_version t k = Some w" if "object_version (snd (patch x d s)) k = Some v" for k v
    using patch_versions_newest [OF that] t by (auto simp: snapshot_le covers_def)
  then show "snd (patch x d s) \<le> t" by (auto simp: snapshot_le)
qed (rule patch_grows)

theorem patch_is_the_join_witness:
  "snd (patch sample_crates (sample_data 2 True) store_new) \<le> populate sample_crates (sample_data 5 True)"
  by (rule patch_is_the_join [of store_new sample_crates "sample_data 2 True", THEN conjunct2, THEN conjunct2, rule_format])
    (auto simp: snapshot_le covers_def data_versions_def object_version_def store_new_def flags_of_key_def segments_of_key_def
      populate_flags populate_segments split: sum.splits if_splits)

text \<open>Applying the same incremental update twice is the same as applying it once.\<close>

theorem patch_twice: "snd (patch x d (snd (patch x d s))) = snd (patch x d s)"
  by (rule patch_idempotent)

text \<open>
  C17. Two incremental updates may arrive in either order: unless two different objects of one
  key, among those of the updates and the one the store holds, carry the same version, the store
  answers every lookup the same way.
\<close>

theorem patches_commute:
  assumes "\<And>k. k \<noteq> [] \<Longrightarrow> no_ties ff_updated_at
      (flags_of_key k d \<union> flags_of_key k e \<union> set_option (map_of (sn_flags s) k))"
    and "\<And>k. k \<noteq> [] \<Longrightarrow> no_ties sg_updated_at
      (segments_of_key k d \<union> segments_of_key k e \<union> set_option (map_of (sn_segments s) k))"
  shows "map_of (sn_flags (snd (patch x e (snd (patch x d s)))))
        = map_of (sn_flags (snd (patch x d (snd (patch x e s))))) \<and>
      map_of (sn_segments (snd (patch x e (snd (patch x d s)))))
        = map_of (sn_segments (snd (patch x d (snd (patch x e s)))))"
  using patches_commute_maps [OF assms] by (auto intro!: ext)

theorem patches_commute_witness:
  "map_of (sn_flags (snd (patch sample_crates (sample_data 2 True)
      (snd (patch sample_crates (sample_data 1 False) store_new)))))
    = map_of (sn_flags (snd (patch sample_crates (sample_data 1 False)
      (snd (patch sample_crates (sample_data 2 True) store_new)))))"
  by (rule conjunct1 [OF patches_commute])
    (auto simp: no_ties_def flags_of_key_def segments_of_key_def)

text \<open>
  An incremental update reports a version conflict only when it carries a flag or segment
  of the same key and version as, but different content from, an object of the store or of the
  update itself.
\<close>

theorem conflicts_are_real:
  assumes "fst (patch x d s) = VersionConflict"
  shows "(\<exists>k f g. k \<noteq> [] \<and> f \<in> flags_of_key k d \<and> g \<in> flags_of_key k d \<union> set_option (map_of (sn_flags s) k) \<and>
      ff_updated_at g = ff_updated_at f \<and> \<not> flag_eq g f) \<or>
    (\<exists>k f g. k \<noteq> [] \<and> f \<in> segments_of_key k d \<and>
      g \<in> segments_of_key k d \<union> set_option (map_of (sn_segments s) k) \<and>
      sg_updated_at g = sg_updated_at f \<and> \<not> segment_eq g f)"
proof -
  obtain f pf ch cf g pg ch' where
    f: "fold (patch_flag x) (ds_feature_flags d) (sn_flags s, psn_flags (sn_prepared s), False, False) = (f, pf, ch, cf)"
    and g: "fold (patch_segment x) (ds_segments d) (sn_segments s, psn_segments (sn_prepared s), ch, cf) = (g, pg, ch', True)"
    using assms by (cases rule: patch_cases [of x d s]) (auto split: if_splits)
  show ?thesis
  proof (cases cf)
    case True
    with f have "\<exists>f \<in> set (ds_feature_flags d). \<exists>g. ff_key f \<noteq> [] \<and>
        (g \<in> set (ds_feature_flags d) \<and> ff_key g = ff_key f \<or> map_of (sn_flags s) (ff_key f) = Some g) \<and>
        ff_updated_at g = ff_updated_at f \<and> \<not> flag_eq g f"
      unfolding patch_flag_def by (intro patch_fold_conflict) auto
    then obtain f g where "f \<in> flags_of_key (ff_key f) d" "ff_key f \<noteq> []"
      "g \<in> flags_of_key (ff_key f) d \<union> set_option (map_of (sn_flags s) (ff_key f))"
      "ff_updated_at g = ff_updated_at f" "\<not> flag_eq g f"
      by (auto simp: flags_of_key_def)
    then show ?thesis by blast
  next
    case False
    with g have "\<exists>f \<in> set (ds_segments d). \<exists>g. sg_id f \<noteq> [] \<and>
        (g \<in> set (ds_segments d) \<and> sg_id g = sg_id f \<or> map_of (sn_segments s) (sg_id f) = Some g) \<and>
        sg_updated_at g = sg_updated_at f \<and> \<not> segment_eq g f"
      unfolding patch_segment_def by (intro patch_fold_conflict) auto
    then obtain f g where "f \<in> segments_of_key (sg_id f) d" "sg_id f \<noteq> []"
      "g \<in> segments_of_key (sg_id f) d \<union> set_option (map_of (sn_segments s) (sg_id f))"
      "sg_updated_at g = sg_updated_at f" "\<not> segment_eq g f"
      by (auto simp: segments_of_key_def)
    then show ?thesis by blast
  qed
qed

text \<open>
  When an incremental update reports no conflict, every flag and segment in it that has a
  key is now in the store, or an equal one of the same version is, or a newer one.
\<close>

theorem no_conflict_keeps_all:
  assumes "fst (patch x d s) \<noteq> VersionConflict" and "k \<noteq> []"
  shows "(\<forall>f \<in> flags_of_key k d. \<exists>g. map_of (sn_flags (snd (patch x d s))) k = Some g \<and>
      (g = f \<or> ff_updated_at f < ff_updated_at g \<or> ff_updated_at g = ff_updated_at f \<and> flag_eq g f)) \<and>
    (\<forall>f \<in> segments_of_key k d. \<exists>g. map_of (sn_segments (snd (patch x d s))) k = Some g \<and>
      (g = f \<or> sg_updated_at f < sg_updated_at g \<or> sg_updated_at g = sg_updated_at f \<and> segment_eq g f))"
proof -
  obtain f pf ch cf g pg ch' where
    f: "fold (patch_flag x) (ds_feature_flags d) (sn_flags s, psn_flags (sn_prepared s), False, False) = (f, pf, ch, cf)"
    and g: "fold (patch_segment x) (ds_segments d) (sn_segments s, psn_segments (sn_prepared s), ch, cf) = (g, pg, ch', False)"
    and new: "sn_flags (snd (patch x d s)) = f" "sn_segments (snd (patch x d s)) = g"
    using assms(1) by (cases rule: patch_cases [of x d s]) (auto split: if_splits)
  have "\<not> cf" using patch_fold_conflict_mono [OF g [unfolded patch_segment_def]] by blast
  with f have f': "fold (patch_flag x) (ds_feature_flags d) (sn_flags s, psn_flags (sn_prepared s), False, False)
      = (f, pf, ch, False)" by simp
  show ?thesis
    using patch_fold_no_conflict [OF f' [unfolded patch_flag_def]]
      patch_fold_no_conflict [OF g [unfolded patch_segment_def]] assms(2)
    by (simp add: new flags_of_key_def segments_of_key_def) blast
qed

text \<open>
  A full update replaces the store: a non-empty key holds the last object of the data set
  with that key, and the version is the newest of all objects with a key, or 0.
\<close>

theorem populate_replaces:
  "map_of (sn_flags (populate x d)) k = find (\<lambda>f. ff_key f = k \<and> k \<noteq> []) (rev (ds_feature_flags d)) \<and>
   map_of (sn_segments (populate x d)) k = find (\<lambda>g. sg_id g = k \<and> k \<noteq> []) (rev (ds_segments d)) \<and>
   sn_version (populate x d) =
     fold max (map ff_updated_at (filter (\<lambda>f. ff_key f \<noteq> []) (ds_feature_flags d))
       @ map sg_updated_at (filter (\<lambda>g. sg_id g \<noteq> []) (ds_segments d))) 0"
  by (simp add: populate_flags populate_segments populate_version)

section \<open>Witnesses\<close>

lemma sample_lookup [simp]:
  "map_of (sn_flags (populate sample_crates (sample_data v b))) ''f'' = Some (sample_flag v b)"
  by (simp add: populate_flags)

lemma sample_not_eq [simp]: "\<not> flag_eq (sample_flag v False) (sample_flag w True)"
  by (simp add: flag_eq_def)

lemma sample_conflict:
  "fst (patch sample_crates (sample_data 1 True) (populate sample_crates (sample_data 1 False))) = VersionConflict"
  by (simp add: patch_def populate_def patch_flag_def patch_segment_def patch_item_def
      populate_item_def segment_eq_def)

lemma sample_no_conflict:
  "fst (patch sample_crates (sample_data v b) store_new) = Changed"
  by (simp add: patch_def store_new_def patch_flag_def patch_segment_def patch_item_def)

theorem conflicts_are_real_witness:
  "\<exists>k f. k \<noteq> [] \<and> f \<in> flags_of_key k (sample_data 1 True) \<and> \<not> flag_eq (sample_flag 1 False) f"
proof -
  have "\<not> (k \<noteq> [] \<and> f \<in> segments_of_key k (sample_data 1 True) \<and>
      g \<in> segments_of_key k (sample_data 1 True) \<union>
        set_option (map_of (sn_segments (populate sample_crates (sample_data 1 False))) k) \<and>
      sg_updated_at g = sg_updated_at f \<and> \<not> segment_eq g f)" for k f g
    by (auto simp: segments_of_key_def populate_segments segment_eq_def split: if_splits)
  with conflicts_are_real [OF sample_conflict] obtain k f g where
    "k \<noteq> []" "f \<in> flags_of_key k (sample_data 1 True)" "\<not> flag_eq g f"
    by blast
  moreover from this(2) have "f = sample_flag 1 True" by (simp add: flags_of_key_def)
  ultimately show ?thesis using sample_not_eq by blast
qed

theorem no_conflict_keeps_all_witness:
  "\<exists>g. map_of (sn_flags (snd (patch sample_crates (sample_data 2 True) store_new))) ''f'' = Some g \<and>
    (g = sample_flag 2 True \<or> 2 < ff_updated_at g \<or> ff_updated_at g = 2 \<and> flag_eq g (sample_flag 2 True))"
proof -
  have "fst (patch sample_crates (sample_data 2 True) store_new) \<noteq> VersionConflict"
    by (simp add: sample_no_conflict)
  from no_conflict_keeps_all [OF this, of "''f''"] show ?thesis
    by (simp add: flags_of_key_def)
qed

end
