(* ===== verification/Segments.thy ===== *)
theory Segments
  imports Operators Store
begin

text \<open>
  \<^verbatim>\<open>src/evaluation/segments.rs\<close>: conditions on segments and the matching of a whole
  rule. A segment condition has three outcomes; both the positive and the negated operator
  need a definite one, so a condition over invalid data matches neither way.
\<close>

datatype segment_match = Matched | NotMatched | Invalid

definition segment_matches :: "'r crates \<Rightarrow> segment \<Rightarrow> 'r prepared_segment option \<Rightarrow> fb_user \<Rightarrow> bool" where
  "segment_matches x s prepared u =
    (let excluded = (case prepared of
                       None \<Rightarrow> list_ex (\<lambda>k. k = u_key u) (sg_excluded s)
                     | Some p \<Rightarrow> prepared_segment_excludes p (u_key u));
         included = (case prepared of
                       None \<Rightarrow> list_ex (\<lambda>k. k = u_key u) (sg_included s)
                     | Some p \<Rightarrow> prepared_segment_includes p (u_key u))
     in if excluded then False
        else if included then True
        else list_ex
          (\<lambda>(i, r).
             let prepared_rule = Option.bind prepared (\<lambda>p. prepared_segment_rule p i)
             in list_all
                  (\<lambda>(j, c). condition_matches_prepared x c
                     (Option.bind prepared_rule (\<lambda>p. prepared_rule_condition p j)) u)
                  (List.enumerate 0 (mr_conditions r)))
          (List.enumerate 0 (sg_rules s)))"

fun match_segment_ids :: "'r crates \<Rightarrow> 'r data_snapshot \<Rightarrow> str list \<Rightarrow> fb_user \<Rightarrow> segment_match" where
  "match_segment_ids x s [] u = NotMatched"
| "match_segment_ids x s (i # ids) u =
    (case map_of (sn_segments s) i of
       None \<Rightarrow> Invalid
     | Some g \<Rightarrow>
         if sg_is_archived g then Invalid
         else if segment_matches x g (map_of (psn_segments (sn_prepared s)) i) u then Matched
         else match_segment_ids x s ids u)"

definition matches_any_segment ::
  "'r crates \<Rightarrow> 'r data_snapshot \<Rightarrow> condition \<Rightarrow> 'r prepared_condition option \<Rightarrow> fb_user \<Rightarrow> segment_match" where
  "matches_any_segment x s c prepared u =
    (case prepared of
       Some (PSegmentIds (ValidIds ids)) \<Rightarrow> match_segment_ids x s ids u
     | Some (PSegmentIds InvalidIds) \<Rightarrow> Invalid
     | _ \<Rightarrow>
         (case json_opt_strings x (c_value c) of
            None \<Rightarrow> Invalid
          | Some None \<Rightarrow> NotMatched
          | Some (Some ids) \<Rightarrow> match_segment_ids x s ids u))"

definition rule_matches_prepared ::
  "'r crates \<Rightarrow> 'r data_snapshot \<Rightarrow> target_rule \<Rightarrow> 'r prepared_rule option \<Rightarrow> fb_user \<Rightarrow> bool" where
  "rule_matches_prepared x s r prepared u =
    list_all
      (\<lambda>(i, c).
         let pc = Option.bind prepared (\<lambda>p. prepared_rule_condition p i)
         in if c_property c = IS_IN_SEGMENT then matches_any_segment x s c pc u = Matched
            else if c_property c = IS_NOT_IN_SEGMENT then matches_any_segment x s c pc u = NotMatched
            else condition_matches_prepared x c pc u)
      (List.enumerate 0 (tr_conditions r))"

section \<open>Reference definitions\<close>

text \<open>The same decisions on the stored objects alone, with no index and no positions.\<close>

definition condition_holds :: "'r crates \<Rightarrow> fb_user \<Rightarrow> condition \<Rightarrow> bool" where
  "condition_holds x u c = condition_matches_prepared x c None u"

definition user_in_segment :: "'r crates \<Rightarrow> fb_user \<Rightarrow> segment \<Rightarrow> bool" where
  "user_in_segment x u g =
    (u_key u \<notin> set (sg_excluded g) \<and>
     (u_key u \<in> set (sg_included g) \<or>
      list_ex (\<lambda>r. list_all (condition_holds x u) (mr_conditions r)) (sg_rules g)))"

fun segments_decision :: "'r crates \<Rightarrow> (str \<Rightarrow> segment option) \<Rightarrow> fb_user \<Rightarrow> str list \<Rightarrow> segment_match" where
  "segments_decision x segs u [] = NotMatched"
| "segments_decision x segs u (i # ids) =
    (case segs i of
       None \<Rightarrow> Invalid
     | Some g \<Rightarrow>
         if sg_is_archived g then Invalid
         else if user_in_segment x u g then Matched
         else segments_decision x segs u ids)"

definition segment_condition_decision ::
  "'r crates \<Rightarrow> (str \<Rightarrow> segment option) \<Rightarrow> fb_user \<Rightarrow> condition \<Rightarrow> segment_match" where
  "segment_condition_decision x segs u c =
    (case json_opt_strings x (c_value c) of
       None \<Rightarrow> Invalid
     | Some None \<Rightarrow> NotMatched
     | Some (Some ids) \<Rightarrow> segments_decision x segs u ids)"

definition rule_condition_holds ::
  "'r crates \<Rightarrow> (str \<Rightarrow> segment option) \<Rightarrow> fb_user \<Rightarrow> condition \<Rightarrow> bool" where
  "rule_condition_holds x segs u c =
    (if c_property c = IS_IN_SEGMENT then segment_condition_decision x segs u c = Matched
     else if c_property c = IS_NOT_IN_SEGMENT then segment_condition_decision x segs u c = NotMatched
     else condition_holds x u c)"

definition rule_holds :: "'r crates \<Rightarrow> (str \<Rightarrow> segment option) \<Rightarrow> fb_user \<Rightarrow> target_rule \<Rightarrow> bool" where
  "rule_holds x segs u r = list_all (rule_condition_holds x segs u) (tr_conditions r)"

section \<open>The indexed code computes the reference definitions\<close>

lemma list_ex_eq [simp]: "list_ex (\<lambda>k. k = a) xs \<longleftrightarrow> a \<in> set xs"
  by (auto simp: list_ex_iff)

lemma segment_matches_None: "segment_matches x g None u = user_in_segment x u g"
proof -
  have "list_ex (\<lambda>(i, r). list_all (\<lambda>(j, c). condition_matches_prepared x c None u)
          (List.enumerate 0 (mr_conditions r))) (List.enumerate 0 (sg_rules g))
      = list_ex (\<lambda>r. list_all (condition_holds x u) (mr_conditions r)) (sg_rules g)"
    by (intro list_ex_enumerate_ignore list_all_enumerate_ignore) (simp add: condition_holds_def)
  then show ?thesis by (simp add: segment_matches_def user_in_segment_def Let_def)
qed

lemma segment_matches_prepared:
  "segment_matches x g (Some (prepared_segment_new x g)) u = user_in_segment x u g"
proof -
  have "list_ex (\<lambda>(i, r). list_all (\<lambda>(j, c). condition_matches_prepared x c
          (Option.bind (prepared_segment_rule (prepared_segment_new x g) i) (\<lambda>p. prepared_rule_condition p j)) u)
          (List.enumerate 0 (mr_conditions r))) (List.enumerate 0 (sg_rules g))
      = list_ex (\<lambda>r. list_all (condition_holds x u) (mr_conditions r)) (sg_rules g)"
    by (intro list_ex_enumerate_ignore list_all_enumerate_ignore) (auto simp: condition_holds_def slice_get_def)
  then show ?thesis by (simp add: segment_matches_def user_in_segment_def Let_def)
qed

lemma match_segment_ids_decision:
  assumes "snapshot_ok x s"
  shows "match_segment_ids x s ids u = segments_decision x (map_of (sn_segments s)) u ids"
  by (induction ids)
    (auto simp: snapshot_okD(4) [OF assms] segment_matches_prepared split: option.splits)

lemma matches_any_segment_decision:
  assumes "snapshot_ok x s" and "is_segment_condition c"
    and "p = None \<or> p = Some (prepared_condition_new x c)"
  shows "matches_any_segment x s c p u = segment_condition_decision x (map_of (sn_segments s)) u c"
  using assms(2,3)
  by (auto simp: matches_any_segment_def segment_condition_decision_def prepared_condition_new_def
      is_segment_condition_def match_segment_ids_decision [OF assms(1)] split: option.splits)

lemma rule_matches_prepared_holds:
  assumes "snapshot_ok x s" and "p = None \<or> p = Some (prepared_rule_new x (tr_conditions r))"
  shows "rule_matches_prepared x s r p u = rule_holds x (map_of (sn_segments s)) u r"
  unfolding rule_matches_prepared_def rule_holds_def
proof (rule list_all_enumerate_ignore)
  fix i c
  assume i: "i < length (tr_conditions r)" and c: "tr_conditions r ! i = c"
  define pc where "pc = Option.bind p (\<lambda>q. prepared_rule_condition q i)"
  have pc: "pc = None \<or> pc = Some (prepared_condition_new x c)"
    using assms(2) i c by (auto simp: pc_def slice_get_def)
  then have "condition_matches_prepared x c pc u = condition_holds x u c"
    by (auto simp: condition_holds_def)
  moreover have "matches_any_segment x s c pc u = segment_condition_decision x (map_of (sn_segments s)) u c"
    if "c_property c = IS_IN_SEGMENT \<or> c_property c = IS_NOT_IN_SEGMENT"
    using matches_any_segment_decision [OF assms(1) _ pc] that by (simp add: is_segment_condition_def)
  ultimately show "(let pc = Option.bind p (\<lambda>q. prepared_rule_condition q (0 + i))
      in if c_property c = IS_IN_SEGMENT then matches_any_segment x s c pc u = Matched
         else if c_property c = IS_NOT_IN_SEGMENT then matches_any_segment x s c pc u = NotMatched
         else condition_matches_prepared x c pc u)
      = rule_condition_holds x (map_of (sn_segments s)) u c"
    by (simp add: Let_def rule_condition_holds_def flip: pc_def)
qed

section \<open>Properties\<close>

definition segment_usable :: "(str \<Rightarrow> segment option) \<Rightarrow> str \<Rightarrow> bool" where
  "segment_usable segs i = (case segs i of None \<Rightarrow> False | Some g \<Rightarrow> \<not> sg_is_archived g)"

definition user_in_named :: "'r crates \<Rightarrow> (str \<Rightarrow> segment option) \<Rightarrow> fb_user \<Rightarrow> str \<Rightarrow> bool" where
  "user_in_named x segs u i = (case segs i of None \<Rightarrow> False | Some g \<Rightarrow> user_in_segment x u g)"

lemma segments_decision_outcome:
  "segments_decision x segs u ids =
    (case find (\<lambda>i. \<not> segment_usable segs i \<or> user_in_named x segs u i) ids of
       None \<Rightarrow> NotMatched
     | Some i \<Rightarrow> if segment_usable segs i then Matched else Invalid)"
  by (induction ids) (auto simp: segment_usable_def user_in_named_def split: option.splits)

text \<open>
  On every published snapshot a condition on segments is decided by the first listed
  segment that is unknown, archived or contains the user: it matches in the last case, is
  invalid otherwise, and does not match when there is no such segment. A list that cannot be
  parsed is invalid, and the index never changes the outcome.
\<close>

theorem segment_condition_outcome:
  assumes "is_segment_condition c" and "p = None \<or> p = Some (prepared_condition_new x c)"
  shows "matches_any_segment x (store_after x us) c p u =
    (case json_opt_strings x (c_value c) of
       None \<Rightarrow> Invalid
     | Some ids \<Rightarrow>
         (case find (\<lambda>i. \<not> segment_usable (map_of (sn_segments (store_after x us))) i \<or>
                  user_in_named x (map_of (sn_segments (store_after x us))) u i)
              (case ids of None \<Rightarrow> [] | Some is \<Rightarrow> is) of
            None \<Rightarrow> NotMatched
          | Some i \<Rightarrow> if segment_usable (map_of (sn_segments (store_after x us))) i then Matched else Invalid))"
  unfolding matches_any_segment_decision [OF snapshots.loaded_ok [of x us, folded store_after_def] assms]
  by (auto simp: segment_condition_decision_def segments_decision_outcome split: option.splits)

theorem segment_condition_outcome_witness:
  "matches_any_segment sample_crates (store_after sample_crates [])
    \<lparr>c_property = IS_IN_SEGMENT, c_op = [], c_value = ''x''\<rparr> None sample_user = Invalid"
  by (subst segment_condition_outcome)
    (simp_all add: is_segment_condition_def json_opt_strings_def sample_crates_def)

text \<open>
  Membership of a segment, with the index the store keeps for it: an excluded user is
  never a member; another one is when included or when all conditions of some rule hold.
\<close>

theorem segment_membership:
  assumes "map_of (sn_segments (store_after x us)) i = Some g"
  shows "segment_matches x g (map_of (psn_segments (sn_prepared (store_after x us))) i) u \<longleftrightarrow>
    u_key u \<notin> set (sg_excluded g) \<and>
    (u_key u \<in> set (sg_included g) \<or>
     (\<exists>r \<in> set (sg_rules g). \<forall>c \<in> set (mr_conditions r). condition_matches_prepared x c None u))"
  using snapshot_okD(4) [OF snapshots.loaded_ok [of x us, folded store_after_def], of i] assms
  by (simp add: segment_matches_prepared user_in_segment_def list_ex_iff list_all_iff condition_holds_def)

theorem segment_membership_witness:
  "segment_matches sample_crates (sample_segment 1)
    (map_of (psn_segments (sn_prepared (store_after sample_crates [Inl (sample_data 1 True)]))) ''s'') sample_user"
  by (subst segment_membership)
    (simp_all add: store_after_def populate_segments, simp add: sample_segment_def)

end
