(* ===== verification/Dispatch.thy ===== *)
theory Dispatch
  imports Prepared Sample
begin

text \<open>
  \<^verbatim>\<open>src/evaluation/dispatch.rs\<close>: the position of a dispatch key in the unit interval,
  taken from the first four bytes of its MD5 digest, and the matcher that tests it against
  rollout ranges. The matcher computes the position lazily and keeps it; the lemmas show that
  this is the same as testing a fixed position, and what the ranges of a rollout guarantee.
\<close>

section \<open>The position of a key\<close>

definition i32_from_le_bytes :: "8 word list \<Rightarrow> int" where
  "i32_from_le_bytes bs =
    (let u = uint (bs ! 0) + 2 ^ 8 * uint (bs ! 1) + 2 ^ 16 * uint (bs ! 2) + 2 ^ 24 * uint (bs ! 3)
     in if u < 2 ^ 31 then u else u - 2 ^ 32)"

definition rollout_of_key :: "'r crates \<Rightarrow> str \<Rightarrow> f64" where
  "rollout_of_key x key =
    (let digest = md5_digest x key
     in if length digest < 4 then Fin False 0
        else f64_abs (f64_div (f64_of_int (i32_from_le_bytes (take 4 digest))) (f64_of_int (- (2 ^ 31)))))"

section \<open>Ranges\<close>

definition f64_zero :: f64 where "f64_zero = Fin False 0"
definition f64_one :: f64 where "f64_one = Fin False 1"
definition f64_1e_minus_5 :: f64 where "f64_1e_minus_5 = f64_round False (1 / 100000)"

text \<open>\<^verbatim>\<open>*min == 0.0 && 1.0 - max < 1e-5\<close>: the range that takes every key.\<close>

definition is_full_range :: "f64 \<Rightarrow> f64 \<Rightarrow> bool" where
  "is_full_range lo hi = (f64_eq lo f64_zero \<and> f64_lt (f64_sub f64_one hi) f64_1e_minus_5)"

record rollout_matcher =
  rm_key :: str
  rm_value :: "f64 option"
  rm_hash_computations :: nat

definition matcher_new :: "str \<Rightarrow> rollout_matcher" where
  "matcher_new key = \<lparr>rm_key = key, rm_value = None, rm_hash_computations = 0\<rparr>"

definition matcher_value :: "'r crates \<Rightarrow> rollout_matcher \<Rightarrow> f64 \<times> rollout_matcher" where
  "matcher_value x m =
    (case rm_value m of
       Some v \<Rightarrow> (v, m)
     | None \<Rightarrow>
         let v = rollout_of_key x (rm_key m)
         in (v, m\<lparr>rm_value := Some v, rm_hash_computations := Suc (rm_hash_computations m)\<rparr>))"

definition matcher_matches :: "'r crates \<Rightarrow> rollout_matcher \<Rightarrow> f64 list \<Rightarrow> bool \<times> rollout_matcher" where
  "matcher_matches x m rollout =
    (case rollout of
       [lo, hi] \<Rightarrow>
         if \<not> f64_is_finite lo \<or> \<not> f64_is_finite hi \<or> f64_lt hi lo then (False, m)
         else if is_full_range lo hi then (True, m)
         else if f64_eq lo f64_zero \<and> f64_eq hi f64_zero then (False, m)
         else let (v, m') = matcher_value x m in (f64_le lo v \<and> f64_le v hi, m')
     | _ \<Rightarrow> (False, m))"

definition is_percentage_split :: "rollout_variation list \<Rightarrow> bool" where
  "is_percentage_split vs =
    (if 1 < length vs then True
     else case vs of
            [] \<Rightarrow> False
          | v # _ \<Rightarrow> \<not> (case rv_rollout v of [lo, hi] \<Rightarrow> is_full_range lo hi | _ \<Rightarrow> False))"

section \<open>The matcher is a test of a fixed position\<close>

text \<open>The same test on a position that is already known.\<close>

definition in_rollout :: "f64 \<Rightarrow> f64 list \<Rightarrow> bool" where
  "in_rollout v rollout =
    (case rollout of
       [lo, hi] \<Rightarrow>
         f64_is_finite lo \<and> f64_is_finite hi \<and> \<not> f64_lt hi lo \<and>
         (is_full_range lo hi \<or>
          \<not> (f64_eq lo f64_zero \<and> f64_eq hi f64_zero) \<and> f64_le lo v \<and> f64_le v hi)
     | _ \<Rightarrow> False)"

definition matcher_ok :: "'r crates \<Rightarrow> str \<Rightarrow> rollout_matcher \<Rightarrow> bool" where
  "matcher_ok x key m =
    (rm_key m = key \<and>
     (case rm_value m of
        None \<Rightarrow> rm_hash_computations m = 0
      | Some v \<Rightarrow> v = rollout_of_key x key \<and> rm_hash_computations m = 1))"

lemma matcher_ok_new [simp]: "matcher_ok x key (matcher_new key)"
  by (simp add: matcher_ok_def matcher_new_def)

lemma matcher_value_ok:
  assumes "matcher_ok x key m"
  shows "fst (matcher_value x m) = rollout_of_key x key" and "matcher_ok x key (snd (matcher_value x m))"
  using assms by (auto simp: matcher_ok_def matcher_value_def Let_def split: option.splits)

lemma matcher_matches_ok:
  assumes "matcher_ok x key m"
  shows "fst (matcher_matches x m r) = in_rollout (rollout_of_key x key) r"
    and "matcher_ok x key (snd (matcher_matches x m r))"
  using matcher_value_ok [OF assms] assms
  by (auto simp: matcher_matches_def in_rollout_def split: list.splits prod.splits)

section \<open>Positions lie in the unit interval\<close>

lemma i32_from_le_bytes_range:
  "- (2 ^ 31) \<le> i32_from_le_bytes bs \<and> i32_from_le_bytes bs < 2 ^ 31"
proof -
  define u where "u = uint (bs ! 0) + 2 ^ 8 * uint (bs ! 1) + 2 ^ 16 * uint (bs ! 2) + 2 ^ 24 * uint (bs ! 3)"
  have b: "uint (b :: 8 word) \<le> 255" for b
    using uint_lt2p [of b] by simp
  have "0 \<le> u" by (simp add: u_def)
  moreover have "u < 2 ^ 32"
    using b [of "bs ! 0"] b [of "bs ! 1"] b [of "bs ! 2"] b [of "bs ! 3"] by (simp add: u_def)
  ultimately show ?thesis by (simp only: i32_from_le_bytes_def u_def [symmetric] Let_def) simp
qed

lemma f64_mag_over_2_31:
  assumes "0 \<le> i" and "i \<le> 2 ^ 31"
  shows "f64_mag (of_int i / 2 ^ 31)"
proof -
  have "(of_int i / 2 ^ 31 :: rat) = of_int i * 2 powi (- 31)" by (simp add: power_int_minus_divide)
  moreover have "i < 2 ^ 53" using assms(2) by simp
  ultimately show ?thesis
    using assms(1) unfolding f64_mag_def by (intro exI [of _ i] exI [of _ "- 31"]) simp
qed

lemma rollout_of_key_unit: "\<exists>m. rollout_of_key x key = Fin False m \<and> 0 \<le> m \<and> m \<le> 1"
proof (cases "length (md5_digest x key) < 4")
  case False
  define i where "i = i32_from_le_bytes (take 4 (md5_digest x key))"
  have i: "\<bar>i\<bar> \<le> 2 ^ 31" using i32_from_le_bytes_range [of "take 4 (md5_digest x key)"]
    unfolding i_def by linarith
  then have mag: "f64_mag (of_int \<bar>i\<bar> / 2 ^ 31)" by (intro f64_mag_over_2_31) auto
  have "f64_of_int i = Fin (i < 0) (of_int \<bar>i\<bar>)" using i by (intro f64_of_int_exact) simp
  moreover have "f64_of_int (- (2 ^ 31)) = Fin True (2 ^ 31)" by (simp add: f64_of_int_exact)
  ultimately have "f64_abs (f64_div (f64_of_int i) (f64_of_int (- (2 ^ 31)))) = Fin False (of_int \<bar>i\<bar> / 2 ^ 31)"
    using mag by (simp add: f64_round_id)
  moreover have "of_int \<bar>i\<bar> / 2 ^ 31 \<le> (1 :: rat)"
  proof -
    have "(of_int \<bar>i\<bar> :: rat) \<le> of_int (2 ^ 31)" using i by (simp only: of_int_le_iff)
    then show ?thesis by simp
  qed
  moreover have "(0 :: rat) \<le> of_int \<bar>i\<bar> / 2 ^ 31" by simp
  ultimately show ?thesis
    using False unfolding rollout_of_key_def i_def [symmetric] Let_def
    by (intro exI [of _ "of_int \<bar>i\<bar> / 2 ^ 31"]) simp
qed (simp add: rollout_of_key_def)

lemma rollout_of_key_bounds:
  "f64_is_finite (rollout_of_key x key)"
  "0 \<le> f64_val (rollout_of_key x key)" "f64_val (rollout_of_key x key) \<le> 1"
  using rollout_of_key_unit [of x key] by auto

section \<open>Growing a range keeps its keys\<close>

lemma f64_1e_minus_5_pos: "\<exists>b. f64_1e_minus_5 = Fin False b \<and> 0 < b"
proof -
  have low: "round_mag (1 / 131072) = 1 / 131072"
    by (rule round_mag_id [of _ 1 "- 17"]) simp_all
  have high: "round_mag 1 = 1"
    by (rule round_mag_id [of _ 1 0]) simp_all
  have "round_mag (1 / 131072) \<le> round_mag (1 / 100000)" by (rule round_mag_mono) simp_all
  moreover have "round_mag (1 / 100000) \<le> round_mag 1" by (rule round_mag_mono) simp_all
  ultimately show ?thesis by (simp add: low high f64_1e_minus_5_def f64_round_def Let_def)
qed

lemma is_full_range_mono:
  assumes "f64_is_finite hi" "f64_is_finite hi'" "f64_le hi hi'" "is_full_range lo hi"
  shows "is_full_range lo hi'"
proof -
  obtain b where b: "f64_1e_minus_5 = Fin False b" "0 < b" using f64_1e_minus_5_pos by blast
  have "f64_lt (f64_sub f64_one hi') (Fin False b)"
    by (rule f64_sub_antimono_bound [of f64_one hi hi'])
      (use assms b in \<open>auto simp: is_full_range_def f64_one_def\<close>)
  with assms b show ?thesis by (simp add: is_full_range_def)
qed

lemma in_rollout_grow:
  assumes "in_rollout v [lo, hi]" "f64_is_finite hi'" "f64_le hi hi'" "f64_is_finite v"
  shows "in_rollout v [lo, hi']"
proof (cases "is_full_range lo hi")
  case True
  with assms show ?thesis
    using is_full_range_mono [of hi hi' lo] by (auto simp: in_rollout_def f64_compare)
next
  case False
  with assms have fin: "f64_is_finite lo" "f64_is_finite hi" and v: "f64_le lo v" "f64_le v hi"
    and nz: "\<not> (f64_eq lo f64_zero \<and> f64_eq hi f64_zero)"
    by (auto simp: in_rollout_def)
  moreover have "\<not> (f64_eq lo f64_zero \<and> f64_eq hi' f64_zero)"
    using fin v nz assms by (auto simp: f64_zero_def f64_compare)
  ultimately show ?thesis using assms by (auto simp: in_rollout_def f64_compare)
qed

section \<open>Ranges that cover the unit interval select a variation for every key\<close>

text \<open>
  The ranges of a rollout as FeatBit writes them: each range starts where the one before it
  ends, from \<open>lo\<close> up to at least 1.
\<close>

fun contiguous_from :: "rat \<Rightarrow> rollout_variation list \<Rightarrow> bool" where
  "contiguous_from lo [] = (1 \<le> lo)"
| "contiguous_from lo (r # rs) =
    (case rv_rollout r of
       [a, b] \<Rightarrow>
         f64_is_finite a \<and> f64_is_finite b \<and> f64_val a = lo \<and> lo \<le> f64_val b \<and>
         contiguous_from (f64_val b) rs
     | _ \<Rightarrow> False)"

lemma contiguous_from_ConsE:
  assumes "contiguous_from lo (r # rs)"
  obtains a b where "rv_rollout r = [a, b]" "f64_is_finite a" "f64_is_finite b" "f64_val a = lo"
    "lo \<le> f64_val b" "contiguous_from (f64_val b) rs"
  using assms by (auto split: list.splits)

lemma in_rollout_between:
  assumes "f64_is_finite a" "f64_is_finite b" "f64_is_finite v"
    and "f64_val a \<le> f64_val v" "f64_val v \<le> f64_val b" "0 < f64_val b"
  shows "in_rollout v [a, b]"
  using assms by (auto simp: in_rollout_def f64_compare f64_zero_def)

lemma contiguous_covers:
  assumes "contiguous_from lo rs" "f64_is_finite v" "f64_val v \<le> 1" "0 \<le> lo"
    and "lo < f64_val v \<or> lo = f64_val v \<and> lo < 1"
  shows "\<exists>r \<in> set rs. in_rollout v (rv_rollout r)"
  using assms
proof (induction rs arbitrary: lo)
  case (Cons r rs)
  from Cons.prems(1) obtain a b where r: "rv_rollout r = [a, b]" "f64_is_finite a" "f64_is_finite b"
    "f64_val a = lo" "lo \<le> f64_val b" and rs: "contiguous_from (f64_val b) rs"
    by (rule contiguous_from_ConsE)
  show ?case
  proof (cases "f64_val v \<le> f64_val b \<and> 0 < f64_val b")
    case True
    with r Cons.prems have "in_rollout v [a, b]" by (intro in_rollout_between) auto
    with r show ?thesis by auto
  next
    case False
    with r Cons.prems have "f64_val b < f64_val v \<or> f64_val b = f64_val v \<and> f64_val b < 1" by auto
    with Cons.IH [OF rs] Cons.prems r show ?thesis by auto
  qed
qed auto

text \<open>The digest of \<^const>\<open>sample_crates\<close> is the little-endian number \<open>2 ^ 30\<close>.\<close>

lemma sample_position: "rollout_of_key sample_crates key = Fin False (1 / 2)"
proof -
  have "i32_from_le_bytes (take 4 [0, 0, 0, 64]) = 2 ^ 30"
    by (simp add: i32_from_le_bytes_def)
  moreover have "f64_mag (1 / 2)" using f64_mag_over_2_31 [of "2 ^ 30"] by simp
  ultimately show ?thesis
    by (simp add: rollout_of_key_def sample_crates_def f64_of_int_exact f64_round_id)
qed

text \<open>The position of every dispatch key is a finite number between 0 and 1.\<close>

theorem positions_in_unit_interval:
  "f64_is_finite (rollout_of_key x key) \<and> f64_le (Fin False 0) (rollout_of_key x key) \<and>
    f64_le (rollout_of_key x key) (Fin False 1)"
  using rollout_of_key_unit [of x key] by (auto simp: f64_compare)

end
