(* ===== verification/Evaluator.thy ===== *)
theory Evaluator
  imports Segments Dispatch
begin

text \<open>
  \<^verbatim>\<open>src/evaluation/mod.rs\<close> and \<^verbatim>\<open>src/evaluation/evaluator.rs\<close>: evaluation of a flag
  for a user against a snapshot. The code consults the index of the flag and falls back on
  the flag itself, carries the position of every rule to find its index entry, and hashes
  the dispatch key lazily; the reference definition has none of that. The lemmas show that
  both agree on every snapshot the store can publish.
\<close>

datatype eval_error = InvalidContext | FlagNotFound | MalformedFlag

definition eval_error_display :: "eval_error \<Rightarrow> str" where
  "eval_error_display e =
    (case e of
       InvalidContext \<Rightarrow> ''targeting key is missing''
     | FlagNotFound \<Rightarrow> ''flag not found''
     | MalformedFlag \<Rightarrow> ''malformed flag'')"

datatype evaluation_reason = Off | TargetMatch | RuleMatch str bool | FallthroughMatch bool

text \<open>
  \<^verbatim>\<open>EvalReason\<close> borrows the rule name that \<^verbatim>\<open>EvaluationReason\<close> owns;
  \<^verbatim>\<open>into_owned\<close> copies it.
\<close>

datatype eval_reason = EOff | ETargetMatch | ERuleMatch str bool | EFallthrough bool

fun into_owned :: "eval_reason \<Rightarrow> evaluation_reason" where
  "into_owned EOff = Off"
| "into_owned ETargetMatch = TargetMatch"
| "into_owned (ERuleMatch name split) = RuleMatch name split"
| "into_owned (EFallthrough split) = FallthroughMatch split"

record eval_result =
  er_flag_id :: str
  er_flag_type :: str
  er_variation :: variation
  er_reason :: eval_reason
  er_insights_enabled :: bool

section \<open>The evaluator\<close>

definition evaluator_result :: "feature_flag \<Rightarrow> variation \<Rightarrow> eval_reason \<Rightarrow> eval_result" where
  "evaluator_result f v reason =
    \<lparr>er_flag_id = ff_id f, er_flag_type = ff_variation_type f, er_variation = v,
     er_reason = reason, er_insights_enabled = ff_insights_enabled f\<rparr>"

definition evaluator_variation :: "feature_flag \<Rightarrow> 'r prepared_flag option \<Rightarrow> str \<Rightarrow> variation option" where
  "evaluator_variation f prepared i =
    (case prepared of
       None \<Rightarrow> flag_variation f i
     | Some p \<Rightarrow> prepared_flag_variation p f i)"

definition dispatch_key :: "feature_flag \<Rightarrow> str option \<Rightarrow> fb_user \<Rightarrow> str" where
  "dispatch_key f property u =
    (let value = (case property of
                    None \<Rightarrow> u_key u
                  | Some p \<Rightarrow> if str_is_blank p then u_key u else user_value_of u p)
     in ff_key f @ value)"

fun select_rollout_from ::
  "'r crates \<Rightarrow> rollout_matcher \<Rightarrow> rollout_variation list \<Rightarrow> rollout_variation option" where
  "select_rollout_from x m [] = None"
| "select_rollout_from x m (r # rs) =
    (let (found, m') = matcher_matches x m (rv_rollout r)
     in if found then Some r else select_rollout_from x m' rs)"

definition select_rollout :: "'r crates \<Rightarrow> rollout_variation list \<Rightarrow> str \<Rightarrow> rollout_variation option" where
  "select_rollout x rollouts key = select_rollout_from x (matcher_new key) rollouts"

definition target_variation :: "feature_flag \<Rightarrow> 'r prepared_flag option \<Rightarrow> fb_user \<Rightarrow> str option" where
  "target_variation f prepared u =
    (case Option.bind prepared (\<lambda>p. prepared_flag_target_variation p (u_key u)) of
       Some i \<Rightarrow> Some i
     | None \<Rightarrow>
         map_option tu_variation_id
           (find (\<lambda>t. list_ex (\<lambda>k. k = u_key u) (tu_key_ids t)) (ff_target_users f)))"

text \<open>The rollout and the variation that a matching rule or the fallthrough selects.\<close>

definition rollout_result ::
  "'r crates \<Rightarrow> feature_flag \<Rightarrow> 'r prepared_flag option \<Rightarrow> fb_user \<Rightarrow> str option \<Rightarrow>
    rollout_variation list \<Rightarrow> eval_reason \<Rightarrow> eval_error + eval_result" where
  "rollout_result x f prepared u property rollouts reason =
    (case select_rollout x rollouts (dispatch_key f property u) of
       None \<Rightarrow> Inl MalformedFlag
     | Some rollout \<Rightarrow>
         (case evaluator_variation f prepared (rv_id rollout) of
            None \<Rightarrow> Inl MalformedFlag
          | Some v \<Rightarrow> Inr (evaluator_result f v reason)))"

text \<open>The loop over the rules; \<^verbatim>\<open>None\<close> when it runs to its end.\<close>

fun evaluate_rules ::
  "'r crates \<Rightarrow> 'r data_snapshot \<Rightarrow> feature_flag \<Rightarrow> 'r prepared_flag option \<Rightarrow> fb_user \<Rightarrow>
    (nat \<times> target_rule) list \<Rightarrow> (eval_error + eval_result) option" where
  "evaluate_rules x s f prepared u [] = None"
| "evaluate_rules x s f prepared u ((i, r) # rs) =
    (if \<not> rule_matches_prepared x s r (Option.bind prepared (\<lambda>p. prepared_flag_rule p i)) u
     then evaluate_rules x s f prepared u rs
     else Some (rollout_result x f prepared u (tr_dispatch_key r) (tr_variations r)
                 (ERuleMatch (tr_name r) (is_percentage_split (tr_variations r)))))"

definition evaluate_flag ::
  "'r crates \<Rightarrow> 'r data_snapshot \<Rightarrow> feature_flag \<Rightarrow> 'r prepared_flag option \<Rightarrow> fb_user \<Rightarrow>
    eval_error + eval_result" where
  "evaluate_flag x s f prepared u =
    (if \<not> ff_is_enabled f then
       (case evaluator_variation f prepared (ff_disabled_variation_id f) of
          None \<Rightarrow> Inl MalformedFlag
        | Some v \<Rightarrow> Inr (evaluator_result f v EOff))
     else
       (case target_variation f prepared u of
          Some i \<Rightarrow>
            (case evaluator_variation f prepared i of
               None \<Rightarrow> Inl MalformedFlag
             | Some v \<Rightarrow> Inr (evaluator_result f v ETargetMatch))
        | None \<Rightarrow>
            (case evaluate_rules x s f prepared u (List.enumerate 0 (ff_rules f)) of
               Some r \<Rightarrow> r
             | None \<Rightarrow>
                 rollout_result x f prepared u (ft_dispatch_key (ff_fallthrough f))
                   (ft_variations (ff_fallthrough f))
                   (EFallthrough (is_percentage_split (ft_variations (ff_fallthrough f)))))))"

definition evaluate :: "'r crates \<Rightarrow> 'r data_snapshot \<Rightarrow> str \<Rightarrow> fb_user \<Rightarrow> eval_error + eval_result" where
  "evaluate x s flag_key u =
    (if u_key u = [] then Inl InvalidContext
     else
       (case map_of (sn_flags s) flag_key of
          None \<Rightarrow> Inl FlagNotFound
        | Some f \<Rightarrow>
            if ff_is_archived f then Inl FlagNotFound
            else evaluate_flag x s f (map_of (psn_flags (sn_prepared s)) flag_key) u))"

section \<open>The reference definition\<close>

text \<open>
  The decision as the product describes it, on the stored objects alone: which variation id
  and which reason a flag yields for a user.
\<close>

definition pick :: "'r crates \<Rightarrow> feature_flag \<Rightarrow> fb_user \<Rightarrow> str option \<Rightarrow> rollout_variation list \<Rightarrow> str option" where
  "pick x f u property rollouts =
    map_option rv_id
      (find (\<lambda>r. in_rollout (rollout_of_key x (dispatch_key f property u)) (rv_rollout r)) rollouts)"

definition decide ::
  "'r crates \<Rightarrow> (str \<Rightarrow> segment option) \<Rightarrow> feature_flag \<Rightarrow> fb_user \<Rightarrow> str option \<times> eval_reason" where
  "decide x segs f u =
    (if \<not> ff_is_enabled f then (Some (ff_disabled_variation_id f), EOff)
     else
       (case find (\<lambda>t. u_key u \<in> set (tu_key_ids t)) (ff_target_users f) of
          Some t \<Rightarrow> (Some (tu_variation_id t), ETargetMatch)
        | None \<Rightarrow>
            (case find (rule_holds x segs u) (ff_rules f) of
               Some r \<Rightarrow>
                 (pick x f u (tr_dispatch_key r) (tr_variations r),
                  ERuleMatch (tr_name r) (is_percentage_split (tr_variations r)))
             | None \<Rightarrow>
                 (pick x f u (ft_dispatch_key (ff_fallthrough f)) (ft_variations (ff_fallthrough f)),
                  EFallthrough (is_percentage_split (ft_variations (ff_fallthrough f)))))))"

definition spec_evaluate ::
  "'r crates \<Rightarrow> (str \<Rightarrow> feature_flag option) \<Rightarrow> (str \<Rightarrow> segment option) \<Rightarrow> str \<Rightarrow> fb_user \<Rightarrow>
    eval_error + eval_result" where
  "spec_evaluate x flags segs flag_key u =
    (if u_key u = [] then Inl InvalidContext
     else
       (case flags flag_key of
          None \<Rightarrow> Inl FlagNotFound
        | Some f \<Rightarrow>
            if ff_is_archived f then Inl FlagNotFound
            else
              let (i, reason) = decide x segs f u
              in (case Option.bind i (flag_variation f) of
                    None \<Rightarrow> Inl MalformedFlag
                  | Some v \<Rightarrow> Inr (evaluator_result f v reason))))"

section \<open>The code computes the reference definition\<close>

lemma select_rollout_from_find:
  assumes "matcher_ok x key m"
  shows "select_rollout_from x m rs = find (\<lambda>r. in_rollout (rollout_of_key x key) (rv_rollout r)) rs"
  using assms
proof (induction rs arbitrary: m)
  case (Cons r rs)
  obtain b m' where step: "matcher_matches x m (rv_rollout r) = (b, m')" by fastforce
  with matcher_matches_ok [OF Cons.prems, of "rv_rollout r"]
  have "b = in_rollout (rollout_of_key x key) (rv_rollout r)" "matcher_ok x key m'" by simp_all
  with Cons.IH step show ?case by simp
qed simp

lemma select_rollout_find:
  "select_rollout x rs key = find (\<lambda>r. in_rollout (rollout_of_key x key) (rv_rollout r)) rs"
  by (simp add: select_rollout_def select_rollout_from_find)

lemma evaluator_variation_index:
  "p = None \<or> p = Some (prepared_flag_new x f) \<Longrightarrow> evaluator_variation f p i = flag_variation f i"
  by (auto simp: evaluator_variation_def)

lemma target_variation_index:
  "p = None \<or> p = Some (prepared_flag_new x f) \<Longrightarrow>
    target_variation f p u =
      map_option tu_variation_id (find (\<lambda>t. u_key u \<in> set (tu_key_ids t)) (ff_target_users f))"
  by (auto simp: target_variation_def split: option.splits)

definition with_variation :: "feature_flag \<Rightarrow> str option \<Rightarrow> eval_reason \<Rightarrow> eval_error + eval_result" where
  "with_variation f i reason =
    (case Option.bind i (flag_variation f) of
       None \<Rightarrow> Inl MalformedFlag
     | Some v \<Rightarrow> Inr (evaluator_result f v reason))"

lemma rollout_result_pick:
  "p = None \<or> p = Some (prepared_flag_new x f) \<Longrightarrow>
    rollout_result x f p u property rollouts reason = with_variation f (pick x f u property rollouts) reason"
  by (auto simp: rollout_result_def select_rollout_find pick_def with_variation_def
      evaluator_variation_index split: option.splits)

lemma evaluate_rules_find:
  assumes "snapshot_ok x s" and "p = None \<or> p = Some (prepared_flag_new x f)"
    and "\<And>i r. (i, r) \<in> set irs \<Longrightarrow> slice_get (ff_rules f) i = Some r"
  shows "evaluate_rules x s f p u irs =
    map_option
      (\<lambda>r. with_variation f (pick x f u (tr_dispatch_key r) (tr_variations r))
        (ERuleMatch (tr_name r) (is_percentage_split (tr_variations r))))
      (find (rule_holds x (map_of (sn_segments s)) u) (map snd irs))"
  using assms(3)
proof (induction irs)
  case (Cons ir irs)
  obtain i r where ir: "ir = (i, r)" by fastforce
  from Cons.prems [of i r] ir have "slice_get (ff_rules f) i = Some r" by simp
  with assms(2) have "rule_matches_prepared x s r (Option.bind p (\<lambda>p. prepared_flag_rule p i)) u
      = rule_holds x (map_of (sn_segments s)) u r"
    by (intro rule_matches_prepared_holds [OF assms(1)]) auto
  with Cons show ?case by (simp add: ir rollout_result_pick [OF assms(2)])
qed simp

lemma evaluate_flag_decide:
  assumes "snapshot_ok x s" and "p = None \<or> p = Some (prepared_flag_new x f)"
  shows "evaluate_flag x s f p u =
    (let (i, reason) = decide x (map_of (sn_segments s)) f u in with_variation f i reason)"
proof -
  have "evaluate_rules x s f p u (List.enumerate 0 (ff_rules f)) =
    map_option
      (\<lambda>r. with_variation f (pick x f u (tr_dispatch_key r) (tr_variations r))
        (ERuleMatch (tr_name r) (is_percentage_split (tr_variations r))))
      (find (rule_holds x (map_of (sn_segments s)) u) (ff_rules f))"
    using evaluate_rules_find [OF assms, of "List.enumerate 0 (ff_rules f)"]
    by (fastforce simp: in_set_enumerate_eq slice_get_def)
  then show ?thesis
    by (simp add: evaluate_flag_def decide_def evaluator_variation_index [OF assms(2)]
        target_variation_index [OF assms(2)] rollout_result_pick [OF assms(2)] with_variation_def
        split: option.splits)
qed

lemma evaluate_spec:
  assumes "snapshot_ok x s"
  shows "evaluate x s k u = spec_evaluate x (map_of (sn_flags s)) (map_of (sn_segments s)) k u"
proof (cases "map_of (sn_flags s) k")
  case (Some f)
  have "evaluate_flag x s f (map_of (psn_flags (sn_prepared s)) k) u =
    (let (i, reason) = decide x (map_of (sn_segments s)) f u in with_variation f i reason)"
    by (rule evaluate_flag_decide [OF assms]) (simp add: snapshot_okD(3) [OF assms] Some)
  then show ?thesis
    by (auto simp: evaluate_def spec_evaluate_def Some with_variation_def split: prod.splits)
qed (simp add: evaluate_def spec_evaluate_def)

section \<open>Flags that are always served\<close>

text \<open>
  A flag as the FeatBit editor saves it: every variation id it refers to is one of its
  variations, and the ranges of every rollout cover the unit interval.
\<close>

definition rollout_ok :: "feature_flag \<Rightarrow> rollout_variation list \<Rightarrow> bool" where
  "rollout_ok f rs =
    (contiguous_from 0 rs \<and> list_all (\<lambda>r. rv_id r \<in> set (map var_id (ff_variations f))) rs)"

definition flag_servable :: "feature_flag \<Rightarrow> bool" where
  "flag_servable f =
    (ff_disabled_variation_id f \<in> set (map var_id (ff_variations f)) \<and>
     list_all (\<lambda>t. tu_variation_id t \<in> set (map var_id (ff_variations f))) (ff_target_users f) \<and>
     list_all (\<lambda>r. rollout_ok f (tr_variations r)) (ff_rules f) \<and>
     rollout_ok f (ft_variations (ff_fallthrough f)))"

lemma pick_servable:
  assumes "rollout_ok f rs"
  shows "\<exists>i. pick x f u property rs = Some i \<and> i \<in> set (map var_id (ff_variations f))"
proof -
  define v where "v = rollout_of_key x (dispatch_key f property u)"
  have "\<exists>r \<in> set rs. in_rollout v (rv_rollout r)"
  proof (rule contiguous_covers)
    show "contiguous_from 0 rs" using assms by (simp add: rollout_ok_def)
    show "f64_is_finite v" "f64_val v \<le> 1" by (simp_all add: v_def rollout_of_key_bounds)
    show "0 < f64_val v \<or> 0 = f64_val v \<and> (0 :: rat) < 1"
      using rollout_of_key_bounds(2) [of x "dispatch_key f property u"] by (auto simp: v_def)
  qed simp
  then obtain r where r: "find (\<lambda>r. in_rollout v (rv_rollout r)) rs = Some r"
    by (cases "find (\<lambda>r. in_rollout v (rv_rollout r)) rs") (auto simp: find_None_set)
  with assms have "rv_id r \<in> set (map var_id (ff_variations f))"
    by (auto simp: rollout_ok_def list_all_iff dest: find_Some_iff_in)
  with r show ?thesis by (simp add: pick_def flip: v_def)
qed

lemma flag_variation_Some: "i \<in> set (map var_id (ff_variations f)) \<Longrightarrow> \<exists>v. flag_variation f i = Some v"
  by (cases "flag_variation f i") (auto simp: flag_variation_def find_None_set)

lemma decide_servable:
  assumes "flag_servable f"
  shows "\<exists>i. fst (decide x segs f u) = Some i \<and> i \<in> set (map var_id (ff_variations f))"
proof -
  have "tu_variation_id t \<in> set (map var_id (ff_variations f))"
    if "find P (ff_target_users f) = Some t" for P t
    using assms find_Some_iff_in [OF that] by (auto simp: flag_servable_def list_all_iff)
  moreover have "\<exists>i. pick x f u property (tr_variations r) = Some i \<and> i \<in> set (map var_id (ff_variations f))"
    if "find P (ff_rules f) = Some r" for P r property
    using assms find_Some_iff_in [OF that] by (intro pick_servable) (auto simp: flag_servable_def list_all_iff)
  moreover have "\<exists>i. pick x f u property (ft_variations (ff_fallthrough f)) = Some i \<and>
      i \<in> set (map var_id (ff_variations f))" for property
    using assms by (intro pick_servable) (simp add: flag_servable_def)
  moreover have "ff_disabled_variation_id f \<in> set (map var_id (ff_variations f))"
    using assms by (simp add: flag_servable_def)
  ultimately show ?thesis by (simp add: decide_def split: option.splits)
qed

section \<open>Properties\<close>

text \<open>
  C3. On every snapshot the store publishes, evaluation through the index, with positions
  and a lazily hashed dispatch key, yields the flag's reference decision: disabled variation,
  first matching target, first matching rule in order, fallthrough.
\<close>

theorem evaluate_decides:
  "evaluate x (store_after x us) k u =
    spec_evaluate x (map_of (sn_flags (store_after x us))) (map_of (sn_segments (store_after x us))) k u"
  unfolding store_after_def by (intro evaluate_spec snapshots.loaded_ok)

text \<open>
  C15. A servable flag that is not archived is always served: on every snapshot the store
  publishes, evaluating it for a user with a key returns one of its variations.
\<close>

theorem servable_flags_evaluate:
  assumes "map_of (sn_flags (store_after x us)) k = Some f" and "flag_servable f" and "\<not> ff_is_archived f"
    and "u_key u \<noteq> []"
  shows "\<exists>r. evaluate x (store_after x us) k u = Inr r \<and> er_variation r \<in> set (ff_variations f)"
proof -
  define s where "s = store_after x us"
  obtain i reason where d: "decide x (map_of (sn_segments s)) f u = (i, reason)" by fastforce
  from decide_servable [OF assms(2), of x "map_of (sn_segments s)" u] d flag_variation_Some
  obtain v where v: "Option.bind i (flag_variation f) = Some v" by fastforce
  then have "v \<in> set (ff_variations f)" by (auto simp: bind_eq_Some_conv dest: flag_variation_id)
  moreover have "evaluate x s k u = Inr (evaluator_result f v reason)"
    using assms evaluate_spec [OF snapshots.loaded_ok [of x us, folded store_after_def]]
    by (simp add: s_def [symmetric] spec_evaluate_def d v)
  ultimately show ?thesis by (simp add: s_def [symmetric] evaluator_result_def)
qed

lemma store_after_full [simp]: "store_after x [Inl d] = populate x d"
  by (simp add: store_after_def)

theorem servable_flags_evaluate_witness:
  "\<exists>r. evaluate sample_crates (populate sample_crates (sample_data 1 True)) ''f'' sample_user = Inr r \<and>
    er_variation r \<in> set (ff_variations (sample_flag 1 True))"
  using servable_flags_evaluate [of sample_crates "[Inl (sample_data 1 True)]" "''f''" "sample_flag 1 True" sample_user]
  by (simp add: flag_servable_def rollout_ok_def sample_rollout_def)

text \<open>
  Whatever index the snapshot holds, a successful evaluation returns a variation of the
  stored, unarchived flag together with that flag's id, type and insights setting, and the
  reason is \<^verbatim>\<open>Off\<close> exactly for a disabled flag, whose disabled variation it is.
\<close>

theorem evaluation_is_of_the_flag:
  assumes "evaluate x s k u = Inr r"
  shows "\<exists>f. map_of (sn_flags s) k = Some f \<and> \<not> ff_is_archived f \<and> u_key u \<noteq> [] \<and>
    er_variation r \<in> set (ff_variations f) \<and> er_flag_id r = ff_id f \<and>
    er_flag_type r = ff_variation_type f \<and> er_insights_enabled r = ff_insights_enabled f \<and>
    (er_reason r = EOff \<longleftrightarrow> \<not> ff_is_enabled f) \<and>
    (ff_is_enabled f \<or> var_id (er_variation r) = ff_disabled_variation_id f)"
proof -
  from assms obtain f where f: "map_of (sn_flags s) k = Some f" "\<not> ff_is_archived f" "u_key u \<noteq> []"
    and ev: "evaluate_flag x s f (map_of (psn_flags (sn_prepared s)) k) u = Inr r"
    by (auto simp: evaluate_def split: if_splits option.splits)
  define p where "p = map_of (psn_flags (sn_prepared s)) k"
  have var: "v \<in> set (ff_variations f) \<and> var_id v = i" if "evaluator_variation f p i = Some v" for i v
    using that by (auto simp: evaluator_variation_def dest: flag_variation_id prepared_variation_id
        split: option.splits)
  have roll: "\<exists>v \<in> set (ff_variations f). r = evaluator_result f v reason"
    if "rollout_result x f p u property rs reason = Inr r" for property rs reason
    using that var by (auto simp: rollout_result_def split: option.splits)
  have rules: "\<exists>v \<in> set (ff_variations f). \<exists>a b. r = evaluator_result f v (ERuleMatch a b)"
    if "evaluate_rules x s f p u irs = Some (Inr r)" for irs
    using that
  proof (induction irs)
    case (Cons ir irs)
    then show ?case by (cases ir) (fastforce split: if_splits dest: roll)
  qed simp
  from ev consider
      v where "\<not> ff_is_enabled f" "evaluator_variation f p (ff_disabled_variation_id f) = Some v"
        "r = evaluator_result f v EOff"
    | v reason where "ff_is_enabled f" "v \<in> set (ff_variations f)" "reason \<noteq> EOff" "r = evaluator_result f v reason"
    unfolding evaluate_flag_def p_def [symmetric]
    by (auto split: if_splits option.splits dest!: roll rules dest: var)
  then show ?thesis
    by cases (use f var in \<open>auto simp: evaluator_result_def\<close>)
qed

theorem evaluation_is_of_the_flag_witness:
  "\<exists>r. evaluate sample_crates (populate sample_crates (sample_data 1 False)) ''f'' sample_user = Inr r \<and>
    var_id (er_variation r) = ''off''"
proof -
  have "\<exists>r. evaluate sample_crates (populate sample_crates (sample_data 1 False)) ''f'' sample_user = Inr r"
    by (simp add: evaluate_spec [OF populate_ok] spec_evaluate_def decide_def flag_variation_def)
  then show ?thesis using evaluation_is_of_the_flag by fastforce
qed

text \<open>
  C29. The errors of evaluation: a user without a key is refused before anything else, an
  unknown or archived flag is not found, and only a flag that is not servable can be malformed.
\<close>

theorem evaluation_errors:
  "(case evaluate x (store_after x us) k u of
      Inl InvalidContext \<Rightarrow> u_key u = []
    | Inl FlagNotFound \<Rightarrow> u_key u \<noteq> [] \<and>
        (case map_of (sn_flags (store_after x us)) k of None \<Rightarrow> True | Some f \<Rightarrow> ff_is_archived f)
    | Inl MalformedFlag \<Rightarrow> u_key u \<noteq> [] \<and>
        (\<exists>f. map_of (sn_flags (store_after x us)) k = Some f \<and> \<not> ff_is_archived f \<and> \<not> flag_servable f)
    | Inr r \<Rightarrow> u_key u \<noteq> [] \<and>
        (\<exists>f. map_of (sn_flags (store_after x us)) k = Some f \<and> \<not> ff_is_archived f))"
proof -
  define s where "s = store_after x us"
  have eq: "evaluate x s k u = spec_evaluate x (map_of (sn_flags s)) (map_of (sn_segments s)) k u"
    unfolding s_def store_after_def by (intro evaluate_spec snapshots.loaded_ok)
  have "\<not> flag_servable f"
    if "decide x (map_of (sn_segments s)) f u = (i, reason)" "Option.bind i (flag_variation f) = None" for f i reason
    using decide_servable [of f x "map_of (sn_segments s)" u] that flag_variation_Some by fastforce
  then show ?thesis
    unfolding s_def [symmetric] eq
    by (auto simp: spec_evaluate_def split: option.splits prod.splits)
qed

text \<open>
  Raising the upper bound of the first range of a rollout keeps every user who was in it,
  whatever happens to the ranges after it.
\<close>

theorem rollout_growth_is_sticky:
  assumes "select_rollout x (\<lparr>rv_id = i, rv_rollout = [lo, hi]\<rparr> # rs) key = Some \<lparr>rv_id = i, rv_rollout = [lo, hi]\<rparr>"
    and "\<lparr>rv_id = i, rv_rollout = [lo, hi]\<rparr> \<notin> set rs"
    and "f64_is_finite hi'" and "f64_le hi hi'"
  shows "select_rollout x (\<lparr>rv_id = i, rv_rollout = [lo, hi']\<rparr> # rs') key = Some \<lparr>rv_id = i, rv_rollout = [lo, hi']\<rparr>"
proof -
  have "in_rollout (rollout_of_key x key) [lo, hi]"
    using assms(1,2) by (auto simp: select_rollout_find dest: find_Some_iff_in split: if_splits)
  from in_rollout_grow [OF this assms(3,4) rollout_of_key_bounds(1)]
  show ?thesis by (simp add: select_rollout_find)
qed

theorem rollout_growth_is_sticky_witness:
  "select_rollout sample_crates [\<lparr>rv_id = ''a'', rv_rollout = [Fin False 0, Fin False (3 / 4)]\<rparr>] ''fu1''
    = Some \<lparr>rv_id = ''a'', rv_rollout = [Fin False 0, Fin False (3 / 4)]\<rparr>"
proof (rule rollout_growth_is_sticky)
  have "rollout_of_key sample_crates ''fu1'' = Fin False (1 / 2)"
    by (rule sample_position)
  then show "select_rollout sample_crates [\<lparr>rv_id = ''a'', rv_rollout = [Fin False 0, Fin False (1 / 2)]\<rparr>] ''fu1''
    = Some \<lparr>rv_id = ''a'', rv_rollout = [Fin False 0, Fin False (1 / 2)]\<rparr>"
    by (simp add: select_rollout_find in_rollout_between)
qed (simp_all add: f64_compare)

end
