(* ===== verification/Status.thy ===== *)
theory Status
  imports Prelude
begin

text \<open>
  \<^verbatim>\<open>src/data_sync/status.rs\<close>: the synchronization status shared by the synchronizer,
  which sets it, and the client, which reads it and may wait for the first data. The status is
  stored as a byte; every operation of the model is one critical section or one atomic load of
  the code.
\<close>

datatype sync_status = Starting | Ready | Stale | Closed

fun sync_status_byte :: "sync_status \<Rightarrow> 8 word" where
  "sync_status_byte Starting = 0"
| "sync_status_byte Ready = 1"
| "sync_status_byte Stale = 2"
| "sync_status_byte Closed = 3"

record status_tracker =
  st_status :: "8 word"
  st_initialized :: bool

definition tracker_new :: "sync_status \<Rightarrow> bool \<Rightarrow> status_tracker" where
  "tracker_new status initialized =
    \<lparr>st_status = sync_status_byte status, st_initialized = initialized\<rparr>"

definition tracker_status :: "status_tracker \<Rightarrow> sync_status" where
  "tracker_status t =
    (if st_status t = 1 then Ready
     else if st_status t = 2 then Stale
     else if st_status t = 3 then Closed
     else Starting)"

definition tracker_initialized :: "status_tracker \<Rightarrow> bool" where
  "tracker_initialized t = st_initialized t"

text \<open>\<^verbatim>\<open>set\<close>: the new tracker, and whether waiting threads are notified.\<close>

definition tracker_set_notify :: "sync_status \<Rightarrow> status_tracker \<Rightarrow> bool \<times> status_tracker" where
  "tracker_set_notify status t =
    (let t1 = (if status = Ready then t\<lparr>st_initialized := True\<rparr> else t);
         previous = st_status t1;
         t2 = t1\<lparr>st_status := sync_status_byte status\<rparr>
     in (previous \<noteq> sync_status_byte status \<or> status = Ready, t2))"

definition tracker_set :: "sync_status \<Rightarrow> status_tracker \<Rightarrow> status_tracker" where
  "tracker_set status t = snd (tracker_set_notify status t)"

text \<open>
  \<^verbatim>\<open>wait_until_initialized\<close>. What a waiting thread meets in one round of its loop: the
  deadline has passed before it can block, it blocks and is woken, or it blocks until the
  deadline. The tracker is the one it reads next, which other threads may have set meanwhile.
\<close>

datatype wait_round =
    DeadlinePassed
  | Woken status_tracker
  | WaitTimedOut status_tracker

fun wait_loop :: "wait_round list \<Rightarrow> status_tracker \<Rightarrow> bool option" where
  "wait_loop rounds t =
    (if \<not> tracker_initialized t \<and> tracker_status t \<noteq> Closed then
       (case rounds of
          [] \<Rightarrow> None
        | DeadlinePassed # _ \<Rightarrow> Some (tracker_initialized t)
        | WaitTimedOut t' # _ \<Rightarrow> Some (tracker_initialized t')
        | Woken t' # rounds' \<Rightarrow> wait_loop rounds' t')
     else Some (tracker_initialized t))"

declare wait_loop.simps [simp del]

definition wait_until_initialized :: "status_tracker \<Rightarrow> status_tracker \<Rightarrow> wait_round list \<Rightarrow> bool option" where
  "wait_until_initialized first locked rounds =
    (if tracker_initialized first then Some True else wait_loop rounds locked)"

section \<open>The interface the synchronizer and the client share\<close>

locale status_cell =
  fixes put :: "sync_status \<Rightarrow> 's \<Rightarrow> 's"
    and current :: "'s \<Rightarrow> sync_status"
    and ever_ready :: "'s \<Rightarrow> bool"
  assumes current_put [simp]: "current (put s t) = s"
    and ever_ready_put [simp]: "ever_ready (put s t) \<longleftrightarrow> s = Ready \<or> ever_ready t"
begin

definition puts :: "sync_status list \<Rightarrow> 's \<Rightarrow> 's" where
  "puts ss t = fold put ss t"

lemma current_puts: "current (puts ss t) = (if ss = [] then current t else last ss)"
proof (cases ss rule: rev_cases)
  case (snoc ys y)
  then show ?thesis by (simp add: puts_def)
qed (simp add: puts_def)

lemma ever_ready_puts: "ever_ready (puts ss t) \<longleftrightarrow> Ready \<in> set ss \<or> ever_ready t"
  unfolding puts_def by (induction ss arbitrary: t) auto

lemma ready_means_ever_ready:
  assumes "current t = Ready \<Longrightarrow> ever_ready t" and "current (puts ss t) = Ready"
  shows "ever_ready (puts ss t)"
  using assms by (cases ss rule: rev_cases) (auto simp: puts_def)

end

lemma tracker_status_byte: "tracker_status (t\<lparr>st_status := sync_status_byte s\<rparr>) = s"
  by (cases s) (simp_all add: tracker_status_def)

lemma tracker_set_simps [simp]:
  "tracker_status (tracker_set s t) = s"
  "tracker_initialized (tracker_set s t) \<longleftrightarrow> s = Ready \<or> tracker_initialized t"
  by (auto simp: tracker_set_def tracker_set_notify_def Let_def tracker_status_byte tracker_initialized_def)

lemma tracker_new_simps [simp]:
  "tracker_status (tracker_new s i) = s" "tracker_initialized (tracker_new s i) = i"
  by (cases s; simp add: tracker_new_def tracker_status_def)
    (simp add: tracker_new_def tracker_initialized_def)

interpretation tracker: status_cell tracker_set tracker_status tracker_initialized
  by unfold_locales simp_all

section \<open>Waiting\<close>

text \<open>The tracker a wait read last.\<close>

fun last_seen :: "status_tracker \<Rightarrow> wait_round list \<Rightarrow> status_tracker" where
  "last_seen t [] = t"
| "last_seen t (r # rs) =
    (if \<not> tracker_initialized t \<and> tracker_status t \<noteq> Closed then
       (case r of DeadlinePassed \<Rightarrow> t | WaitTimedOut t' \<Rightarrow> t' | Woken t' \<Rightarrow> last_seen t' rs)
     else t)"

text \<open>
  Waiting never misses the first data: a call that makes the tracker initialized or
  closed notifies whoever is blocked, so a blocked thread always runs its check again.
\<close>

theorem set_wakes_waiters:
  assumes "\<not> tracker_initialized t" and "tracker_status t \<noteq> Closed"
    and "st_status t \<in> range sync_status_byte"
    and "tracker_initialized (tracker_set s t) \<or> tracker_status (tracker_set s t) = Closed"
  shows "fst (tracker_set_notify s t)"
proof -
  have "st_status t \<noteq> 3" using assms(2) by (auto simp: tracker_status_def)
  with assms show ?thesis by (auto simp: tracker_set_notify_def Let_def)
qed

theorem set_wakes_waiters_witness: "fst (tracker_set_notify Ready (tracker_new Starting False))"
  by (rule set_wakes_waiters) (simp_all add: tracker_new_def tracker_initialized_def tracker_status_def
      tracker_set_def tracker_set_notify_def range_eqI [of _ _ Starting])

text \<open>
  A wait answers whether data had arrived when it last looked, and it returns at once,
  with the right answer, when data is there or the synchronizer has stopped for good.
\<close>

theorem wait_answers_initialized:
  assumes "wait_until_initialized t t' rounds = Some b"
  shows "b \<longleftrightarrow> tracker_initialized t \<or> tracker_initialized (last_seen t' rounds)"
proof (cases "tracker_initialized t")
  case False
  with assms have "wait_loop rounds t' = Some b" by (simp add: wait_until_initialized_def)
  then have "b \<longleftrightarrow> tracker_initialized (last_seen t' rounds)"
  proof (induction rounds arbitrary: t')
    case (Cons r rs)
    then show ?case by (cases r) (auto simp: wait_loop.simps [of _ t'] split: if_splits)
  qed (auto simp: wait_loop.simps split: if_splits)
  with False show ?thesis by simp
qed (use assms in \<open>simp add: wait_until_initialized_def\<close>)

theorem wait_answers_initialized_witness:
  "tracker_initialized (last_seen (tracker_new Starting False) [Woken (tracker_new Ready True)])"
proof -
  have "wait_until_initialized (tracker_new Starting False) (tracker_new Starting False)
      [Woken (tracker_new Ready True)] = Some True"
    by (simp add: wait_until_initialized_def wait_loop.simps)
  from wait_answers_initialized [OF this] show ?thesis by simp
qed

end
