(* ===== verification/Options.thy ===== *)
theory Options
  imports Model
begin

text \<open>
  \<^verbatim>\<open>src/options.rs\<close>, \<^verbatim>\<open>src/options/validation.rs\<close> and \<^verbatim>\<open>src/error.rs\<close>: the builder of the
  client's options, its defaults, the validation that turns it into immutable options, and
  the redacted \<^verbatim>\<open>Debug\<close> output of both. The \<^verbatim>\<open>url\<close> crate is a record of functions over
  an abstract type of URLs; durations are nanoseconds.
\<close>

named_theorems options_simps \<open>what validated options satisfy\<close>

record 'u url_crate =
  url_parse :: "str \<Rightarrow> str + 'u"
  url_scheme :: "'u \<Rightarrow> str"
  url_host_str :: "'u \<Rightarrow> str option"
  url_port :: "'u \<Rightarrow> nat option"
  url_username :: "'u \<Rightarrow> str"
  url_password :: "'u \<Rightarrow> str option"
  url_path :: "'u \<Rightarrow> str"
  url_query :: "'u \<Rightarrow> str option"
  url_fragment :: "'u \<Rightarrow> str option"
  url_set_path :: "str \<Rightarrow> 'u \<Rightarrow> 'u"
  url_set_query :: "str option \<Rightarrow> 'u \<Rightarrow> 'u"
  url_set_fragment :: "str option \<Rightarrow> 'u \<Rightarrow> 'u"
  url_append_pair :: "str \<Rightarrow> str \<Rightarrow> 'u \<Rightarrow> 'u"

section \<open>The crate\<close>

text \<open>\<^verbatim>\<open>src/lib.rs\<close>; the version is the one in the manifest of the crate.\<close>

definition SDK_NAME :: str where
  "SDK_NAME = ''featbit-rust-server-sdk''"

definition SDK_VERSION :: str where
  "SDK_VERSION = ''0.2.1''"

definition user_agent :: str where
  "user_agent = SDK_NAME @ ''/'' @ SDK_VERSION"

section \<open>Durations\<close>

type_synonym duration = nat

definition duration_max :: duration where
  "duration_max = (2 ^ 64 - 1) * 10 ^ 9 + 999999999"

definition from_millis :: "nat \<Rightarrow> duration" where
  "from_millis n = n * 10 ^ 6"

definition from_secs :: "nat \<Rightarrow> duration" where
  "from_secs n = n * 10 ^ 9"

definition from_hours :: "nat \<Rightarrow> duration" where
  "from_hours n = from_secs (n * 3600)"

definition duration_checked_mul :: "duration \<Rightarrow> nat \<Rightarrow> duration option" where
  "duration_checked_mul d n = (if d * n \<le> duration_max then Some (d * n) else None)"

definition duration_checked_div :: "duration \<Rightarrow> nat \<Rightarrow> duration option" where
  "duration_checked_div d n = (if n = 0 then None else Some (d div n))"

section \<open>Errors\<close>

datatype config_error =
    InvalidEnvironmentSecret
  | InvalidUrl str str
  | InvalidUrlScheme str str
  | InvalidDuration str str
  | InvalidCapacity str str
  | EmptyReconnectDelays
  | BootstrapRequiresOffline
  | InvalidBootstrap str

fun config_error_display :: "config_error \<Rightarrow> str" where
  "config_error_display InvalidEnvironmentSecret =
    ''the environment secret must be a non-empty ASCII value of at least three characters''"
| "config_error_display (InvalidUrl field message) = field @ '' is not a valid URL: '' @ message"
| "config_error_display (InvalidUrlScheme field expected) =
    field @ '' must use one of these schemes: '' @ expected"
| "config_error_display (InvalidDuration field message) =
    ''invalid duration for '' @ field @ '': '' @ message"
| "config_error_display (InvalidCapacity field message) =
    ''invalid capacity for '' @ field @ '': '' @ message"
| "config_error_display EmptyReconnectDelays = ''reconnect_delays must contain at least one duration''"
| "config_error_display BootstrapRequiresOffline = ''bootstrap JSON can only be configured in offline mode''"
| "config_error_display (InvalidBootstrap message) = ''invalid bootstrap JSON: '' @ message"

section \<open>Defaults\<close>

definition DEFAULT_STREAMING_URL :: str where
  "DEFAULT_STREAMING_URL = ''ws://localhost:5100''"

definition DEFAULT_EVENT_URL :: str where
  "DEFAULT_EVENT_URL = ''http://localhost:5100''"

definition DEFAULT_MAX_EVENT_QUEUE_SIZE_BYTES :: usize where
  "DEFAULT_MAX_EVENT_QUEUE_SIZE_BYTES = 64 * 1024 * 1024"

definition MAX_CONFIG_DURATION :: duration where
  "MAX_CONFIG_DURATION = from_hours 8760"

definition DEFAULT_RECONNECT_DELAYS :: "duration list" where
  "DEFAULT_RECONNECT_DELAYS = map from_secs [0, 1, 2, 3, 5, 8, 13, 21, 34, 55]"

section \<open>Options and their builder\<close>

record ('u, 'o) fb_options =
  opt_env_secret :: str
  opt_streaming_url :: 'u
  opt_event_url :: 'u
  opt_start_wait :: duration
  opt_offline :: bool
  opt_disable_events :: bool
  opt_allow_track :: bool
  opt_evaluation_observer :: "'o option"
  opt_connect_timeout :: duration
  opt_close_timeout :: duration
  opt_keep_alive_interval :: duration
  opt_reconnect_delays :: "duration list"
  opt_auto_flush_interval :: duration
  opt_flush_timeout :: duration
  opt_event_request_timeout :: duration
  opt_max_events_in_queue :: usize
  opt_max_event_queue_size_bytes :: usize
  opt_max_events_per_request :: usize
  opt_max_send_event_attempts :: usize
  opt_send_event_retry_interval :: duration
  opt_max_ws_message_size :: usize
  opt_bootstrap :: "data_sync_envelope option"

record 'o fb_options_builder =
  ob_env_secret :: str
  ob_streaming_url :: str
  ob_event_url :: str
  ob_start_wait :: duration
  ob_offline :: bool
  ob_disable_events :: bool
  ob_allow_track :: bool
  ob_evaluation_observer :: "'o option"
  ob_connect_timeout :: duration
  ob_close_timeout :: duration
  ob_keep_alive_interval :: duration
  ob_reconnect_delays :: "duration list"
  ob_auto_flush_interval :: duration
  ob_flush_timeout :: duration
  ob_event_request_timeout :: duration
  ob_max_events_in_queue :: usize
  ob_max_event_queue_size_bytes :: usize
  ob_max_events_per_request :: usize
  ob_max_send_event_attempts :: usize
  ob_send_event_retry_interval :: duration
  ob_max_ws_message_size :: usize
  ob_bootstrap_json :: "str option"

definition options_builder_new :: "str \<Rightarrow> 'o fb_options_builder" where
  "options_builder_new env_secret =
    \<lparr>ob_env_secret = env_secret, ob_streaming_url = DEFAULT_STREAMING_URL,
     ob_event_url = DEFAULT_EVENT_URL, ob_start_wait = from_secs 5, ob_offline = False,
     ob_disable_events = False, ob_allow_track = True, ob_evaluation_observer = None,
     ob_connect_timeout = from_secs 3, ob_close_timeout = from_secs 2,
     ob_keep_alive_interval = from_secs 15, ob_reconnect_delays = DEFAULT_RECONNECT_DELAYS,
     ob_auto_flush_interval = from_secs 5, ob_flush_timeout = from_secs 5,
     ob_event_request_timeout = from_secs 2, ob_max_events_in_queue = 10000,
     ob_max_event_queue_size_bytes = DEFAULT_MAX_EVENT_QUEUE_SIZE_BYTES,
     ob_max_events_per_request = 50, ob_max_send_event_attempts = 2,
     ob_send_event_retry_interval = from_millis 200, ob_max_ws_message_size = 1024 * 1024,
     ob_bootstrap_json = None\<rparr>"

text \<open>The setters: each replaces one field (\<^verbatim>\<open>disable_events\<close> two).\<close>

datatype 'o builder_setter =
    SetStreamingUrl str | SetEventUrl str | SetStartWait duration | SetOffline bool
  | SetDisableEvents bool bool | SetObserver 'o | SetConnectTimeout duration
  | SetCloseTimeout duration | SetKeepAlive duration | SetReconnectDelays "duration list"
  | SetAutoFlush duration | SetFlushTimeout duration | SetEventRequestTimeout duration
  | SetMaxEventsInQueue usize | SetMaxQueueBytes usize | SetMaxPerRequest usize
  | SetMaxAttempts usize | SetRetryInterval duration | SetMaxWsMessageSize usize
  | SetBootstrapJson str

fun builder_call :: "'o builder_setter \<Rightarrow> 'o fb_options_builder \<Rightarrow> 'o fb_options_builder" where
  "builder_call (SetStreamingUrl url) b = b\<lparr>ob_streaming_url := url\<rparr>"
| "builder_call (SetEventUrl url) b = b\<lparr>ob_event_url := url\<rparr>"
| "builder_call (SetStartWait d) b = b\<lparr>ob_start_wait := d\<rparr>"
| "builder_call (SetOffline off) b = b\<lparr>ob_offline := off\<rparr>"
| "builder_call (SetDisableEvents disable allow_track) b =
    b\<lparr>ob_disable_events := disable, ob_allow_track := allow_track\<rparr>"
| "builder_call (SetObserver obs) b = b\<lparr>ob_evaluation_observer := Some obs\<rparr>"
| "builder_call (SetConnectTimeout d) b = b\<lparr>ob_connect_timeout := d\<rparr>"
| "builder_call (SetCloseTimeout d) b = b\<lparr>ob_close_timeout := d\<rparr>"
| "builder_call (SetKeepAlive d) b = b\<lparr>ob_keep_alive_interval := d\<rparr>"
| "builder_call (SetReconnectDelays ds) b = b\<lparr>ob_reconnect_delays := ds\<rparr>"
| "builder_call (SetAutoFlush d) b = b\<lparr>ob_auto_flush_interval := d\<rparr>"
| "builder_call (SetFlushTimeout d) b = b\<lparr>ob_flush_timeout := d\<rparr>"
| "builder_call (SetEventRequestTimeout d) b = b\<lparr>ob_event_request_timeout := d\<rparr>"
| "builder_call (SetMaxEventsInQueue n) b = b\<lparr>ob_max_events_in_queue := n\<rparr>"
| "builder_call (SetMaxQueueBytes n) b = b\<lparr>ob_max_event_queue_size_bytes := n\<rparr>"
| "builder_call (SetMaxPerRequest n) b = b\<lparr>ob_max_events_per_request := n\<rparr>"
| "builder_call (SetMaxAttempts n) b = b\<lparr>ob_max_send_event_attempts := n\<rparr>"
| "builder_call (SetRetryInterval d) b = b\<lparr>ob_send_event_retry_interval := d\<rparr>"
| "builder_call (SetMaxWsMessageSize n) b = b\<lparr>ob_max_ws_message_size := n\<rparr>"
| "builder_call (SetBootstrapJson json) b = b\<lparr>ob_bootstrap_json := Some json\<rparr>"

section \<open>Debug output\<close>

text \<open>What the formatter is given: a tree of field names and values.\<close>

datatype debug_value =
    DRaw str
  | DStr str
  | DBool bool
  | DDuration duration
  | DDurations "duration list"
  | DUsize usize
  | DOptStr "str option"
  | DOptPort "nat option"
  | DStruct str "(str \<times> debug_value) list"

definition url_summary_debug :: "'u url_crate \<Rightarrow> 'u \<Rightarrow> debug_value" where
  "url_summary_debug uc u =
    DStruct ''Url''
      [(''scheme'', DStr (url_scheme uc u)), (''host'', DOptStr (url_host_str uc u)),
       (''port'', DOptPort (url_port uc u)),
       (''has_base_path'', DBool (url_path uc u \<noteq> [] \<and> url_path uc u \<noteq> ''/'')),
       (''has_credentials'', DBool (url_username uc u \<noteq> [] \<or> url_password uc u \<noteq> None)),
       (''has_query'', DBool (url_query uc u \<noteq> None)),
       (''has_fragment'', DBool (url_fragment uc u \<noteq> None))]"

definition url_input_summary_debug :: "'u url_crate \<Rightarrow> str \<Rightarrow> debug_value" where
  "url_input_summary_debug uc s =
    (case url_parse uc s of
       Inr u \<Rightarrow> url_summary_debug uc u
     | Inl e \<Rightarrow> DRaw ''[INVALID URL REDACTED]'')"

definition options_debug :: "'u url_crate \<Rightarrow> ('u, 'o) fb_options \<Rightarrow> debug_value" where
  "options_debug uc o' =
    DStruct ''FbOptions''
      [(''env_secret'', DStr ''[REDACTED]''),
       (''streaming_url'', url_summary_debug uc (opt_streaming_url o')),
       (''event_url'', url_summary_debug uc (opt_event_url o')),
       (''start_wait'', DDuration (opt_start_wait o')), (''offline'', DBool (opt_offline o')),
       (''disable_events'', DBool (opt_disable_events o')),
       (''allow_track'', DBool (opt_allow_track o')),
       (''has_evaluation_observer'', DBool (opt_evaluation_observer o' \<noteq> None)),
       (''connect_timeout'', DDuration (opt_connect_timeout o')),
       (''close_timeout'', DDuration (opt_close_timeout o')),
       (''keep_alive_interval'', DDuration (opt_keep_alive_interval o')),
       (''reconnect_delays'', DDurations (opt_reconnect_delays o')),
       (''auto_flush_interval'', DDuration (opt_auto_flush_interval o')),
       (''flush_timeout'', DDuration (opt_flush_timeout o')),
       (''event_request_timeout'', DDuration (opt_event_request_timeout o')),
       (''max_events_in_queue'', DUsize (opt_max_events_in_queue o')),
       (''max_event_queue_size_bytes'', DUsize (opt_max_event_queue_size_bytes o')),
       (''max_events_per_request'', DUsize (opt_max_events_per_request o')),
       (''max_send_event_attempts'', DUsize (opt_max_send_event_attempts o')),
       (''send_event_retry_interval'', DDuration (opt_send_event_retry_interval o')),
       (''max_ws_message_size'', DUsize (opt_max_ws_message_size o')),
       (''has_bootstrap'', DBool (opt_bootstrap o' \<noteq> None))]"

definition options_builder_debug :: "'u url_crate \<Rightarrow> 'o fb_options_builder \<Rightarrow> debug_value" where
  "options_builder_debug uc b =
    DStruct ''FbOptionsBuilder''
      [(''env_secret'', DStr ''[REDACTED]''),
       (''streaming_url'', url_input_summary_debug uc (ob_streaming_url b)),
       (''event_url'', url_input_summary_debug uc (ob_event_url b)),
       (''start_wait'', DDuration (ob_start_wait b)), (''offline'', DBool (ob_offline b)),
       (''disable_events'', DBool (ob_disable_events b)),
       (''allow_track'', DBool (ob_allow_track b)),
       (''has_evaluation_observer'', DBool (ob_evaluation_observer b \<noteq> None)),
       (''connect_timeout'', DDuration (ob_connect_timeout b)),
       (''close_timeout'', DDuration (ob_close_timeout b)),
       (''keep_alive_interval'', DDuration (ob_keep_alive_interval b)),
       (''reconnect_delays'', DDurations (ob_reconnect_delays b)),
       (''auto_flush_interval'', DDuration (ob_auto_flush_interval b)),
       (''flush_timeout'', DDuration (ob_flush_timeout b)),
       (''event_request_timeout'', DDuration (ob_event_request_timeout b)),
       (''max_events_in_queue'', DUsize (ob_max_events_in_queue b)),
       (''max_event_queue_size_bytes'', DUsize (ob_max_event_queue_size_bytes b)),
       (''max_events_per_request'', DUsize (ob_max_events_per_request b)),
       (''max_send_event_attempts'', DUsize (ob_max_send_event_attempts b)),
       (''send_event_retry_interval'', DDuration (ob_send_event_retry_interval b)),
       (''max_ws_message_size'', DUsize (ob_max_ws_message_size b)),
       (''has_bootstrap'', DBool (ob_bootstrap_json b \<noteq> None))]"

end
