(* ===== verification/Validation.thy ===== *)
theory Validation
  imports Options Sample
begin

text \<open>
  \<^verbatim>\<open>src/options/validation.rs\<close>: \<^verbatim>\<open>FbOptionsBuilder::build\<close>. The checks run in the order
  of the code and the first one that fails is the error; the lemmas say what a builder must
  satisfy to be accepted and what the options it yields satisfy.
\<close>

definition and_then :: "'e + 'a \<Rightarrow> ('a \<Rightarrow> 'e + 'b) \<Rightarrow> 'e + 'b" where
  "and_then r f = (case r of Inl e \<Rightarrow> Inl e | Inr a \<Rightarrow> f a)"

lemma and_then_simps [simp]: "and_then (Inl e) f = Inl e" "and_then (Inr a) f = f a"
  by (simp_all add: and_then_def)

lemma and_then_Inr_iff: "and_then r f = Inr b \<longleftrightarrow> (\<exists>a. r = Inr a \<and> f a = Inr b)"
  by (cases r) auto

section \<open>The checks\<close>

definition secret_accepted :: "str \<Rightarrow> bool" where
  "secret_accepted secret =
    (let trimmed = str_trim_end_matches (CHR ''='') secret
     in \<not> (length trimmed < 3 \<or> \<not> is_ascii trimmed \<or>
        \<not> list_all (\<lambda>c. 33 \<le> byte_of c \<and> byte_of c \<le> 126) trimmed))"

definition validate_secret :: "'o fb_options_builder \<Rightarrow> config_error + unit" where
  "validate_secret b =
    (if \<not> secret_accepted (ob_env_secret b) then Inl InvalidEnvironmentSecret else Inr ())"

definition parse_url :: "'u url_crate \<Rightarrow> str \<Rightarrow> str \<Rightarrow> config_error + 'u" where
  "parse_url uc field v =
    (case url_parse uc v of
       Inl e \<Rightarrow> Inl (InvalidUrl field e)
     | Inr u \<Rightarrow>
         (let validation_message =
            if url_host_str uc u = None then Some ''URL must contain a host''
            else if url_username uc u \<noteq> [] \<or> url_password uc u \<noteq> None then Some ''URL must not contain credentials''
            else if url_query uc u \<noteq> None then Some ''URL must not contain a query''
            else if url_fragment uc u \<noteq> None then Some ''URL must not contain a fragment''
            else None
          in (case validation_message of
                Some message \<Rightarrow> Inl (InvalidUrl field message)
              | None \<Rightarrow> Inr u)))"

definition validated_urls :: "'u url_crate \<Rightarrow> 'o fb_options_builder \<Rightarrow> config_error + 'u \<times> 'u" where
  "validated_urls uc b =
    and_then (parse_url uc ''streaming_url'' (ob_streaming_url b)) (\<lambda>streaming_url.
      if \<not> (url_scheme uc streaming_url = ''ws'' \<or> url_scheme uc streaming_url = ''wss'')
      then Inl (InvalidUrlScheme ''streaming_url'' ''ws or wss'')
      else
        and_then (parse_url uc ''event_url'' (ob_event_url b)) (\<lambda>event_url.
          if \<not> (url_scheme uc event_url = ''http'' \<or> url_scheme uc event_url = ''https'')
          then Inl (InvalidUrlScheme ''event_url'' ''http or https'')
          else Inr (streaming_url, event_url)))"

definition validate_nonzero_duration :: "str \<Rightarrow> duration \<Rightarrow> config_error + unit" where
  "validate_nonzero_duration field d =
    (if d = 0 then Inl (InvalidDuration field ''must be greater than zero'')
     else if MAX_CONFIG_DURATION < d then Inl (InvalidDuration field ''must not exceed 365 days'')
     else Inr ())"

definition validate_capacity :: "str \<Rightarrow> usize \<Rightarrow> usize \<Rightarrow> config_error + unit" where
  "validate_capacity field v maximum =
    (if v = 0 then Inl (InvalidCapacity field ''must be greater than zero'')
     else if maximum < v then Inl (InvalidCapacity field ''exceeds the supported safety limit'')
     else Inr ())"

definition require :: "bool \<Rightarrow> config_error \<Rightarrow> config_error + unit" where
  "require ok e = (if ok then Inr () else Inl e)"

fun run_checks :: "(config_error + unit) list \<Rightarrow> config_error + unit" where
  "run_checks [] = Inr ()"
| "run_checks (c # cs) = and_then c (\<lambda>_. run_checks cs)"

definition validate_runtime_limits :: "'o fb_options_builder \<Rightarrow> config_error + unit" where
  "validate_runtime_limits b =
    run_checks
      [validate_nonzero_duration ''start_wait'' (ob_start_wait b),
       validate_nonzero_duration ''connect_timeout'' (ob_connect_timeout b),
       validate_nonzero_duration ''close_timeout'' (ob_close_timeout b),
       validate_nonzero_duration ''keep_alive_interval'' (ob_keep_alive_interval b),
       validate_nonzero_duration ''auto_flush_interval'' (ob_auto_flush_interval b),
       validate_nonzero_duration ''flush_timeout'' (ob_flush_timeout b),
       validate_nonzero_duration ''event_request_timeout'' (ob_event_request_timeout b),
       require (\<not> MAX_CONFIG_DURATION < ob_send_event_retry_interval b)
         (InvalidDuration ''send_event_retry_interval'' ''must not exceed 365 days''),
       require (\<not> ob_start_wait b < ob_connect_timeout b)
         (InvalidDuration ''start_wait'' ''must be greater than or equal to connect_timeout''),
       require (ob_reconnect_delays b \<noteq> []) EmptyReconnectDelays,
       require (\<not> list_all (\<lambda>d. d = 0) (ob_reconnect_delays b))
         (InvalidDuration ''reconnect_delays'' ''must contain at least one non-zero delay''),
       require (\<not> list_ex (\<lambda>d. MAX_CONFIG_DURATION < d) (ob_reconnect_delays b))
         (InvalidDuration ''reconnect_delays'' ''individual delays must not exceed 365 days''),
       validate_capacity ''max_events_in_queue'' (ob_max_events_in_queue b) 1000000,
       validate_capacity ''max_event_queue_size_bytes'' (ob_max_event_queue_size_bytes b) (1024 * 1024 * 1024),
       validate_capacity ''max_events_per_request'' (ob_max_events_per_request b) 10000,
       validate_capacity ''max_send_event_attempts'' (ob_max_send_event_attempts b) 100,
       validate_capacity ''max_ws_message_size'' (ob_max_ws_message_size b) (64 * 1024 * 1024)]"

definition validated_bootstrap ::
  "'r crates \<Rightarrow> 'o fb_options_builder \<Rightarrow> config_error + data_sync_envelope option" where
  "validated_bootstrap x b =
    (if ob_bootstrap_json b \<noteq> None \<and> \<not> ob_offline b then Inl BootstrapRequiresOffline
     else
       (case ob_bootstrap_json b of
          None \<Rightarrow> Inr None
        | Some json \<Rightarrow>
            (case parse_envelope x json of
               None \<Rightarrow> Inl (InvalidBootstrap (json_error x json))
             | Some envelope \<Rightarrow>
                 if env_message_type envelope \<noteq> ''data-sync'' \<or> ds_event_type (env_data envelope) \<noteq> ''full''
                 then Inl (InvalidBootstrap ''offline bootstrap must be a full data-sync envelope'')
                 else Inr (Some envelope))))"

definition build :: "'r crates \<Rightarrow> 'u url_crate \<Rightarrow> 'o fb_options_builder \<Rightarrow> config_error + ('u, 'o) fb_options" where
  "build x uc b =
    and_then (validate_secret b) (\<lambda>_.
    and_then (validated_urls uc b) (\<lambda>(streaming_url, event_url).
    and_then (validate_runtime_limits b) (\<lambda>_.
    and_then (validated_bootstrap x b) (\<lambda>bootstrap.
      Inr \<lparr>opt_env_secret = ob_env_secret b,
        opt_streaming_url = streaming_url,
        opt_event_url = event_url,
        opt_start_wait = ob_start_wait b,
        opt_offline = ob_offline b,
        opt_disable_events = ob_disable_events b,
        opt_allow_track = ob_allow_track b,
        opt_evaluation_observer = ob_evaluation_observer b,
        opt_connect_timeout = ob_connect_timeout b,
        opt_close_timeout = ob_close_timeout b,
        opt_keep_alive_interval = ob_keep_alive_interval b,
        opt_reconnect_delays = ob_reconnect_delays b,
        opt_auto_flush_interval = ob_auto_flush_interval b,
        opt_flush_timeout = ob_flush_timeout b,
        opt_event_request_timeout = ob_event_request_timeout b,
        opt_max_events_in_queue = ob_max_events_in_queue b,
        opt_max_event_queue_size_bytes = ob_max_event_queue_size_bytes b,
        opt_max_events_per_request = ob_max_events_per_request b,
        opt_max_send_event_attempts = ob_max_send_event_attempts b,
        opt_send_event_retry_interval = ob_send_event_retry_interval b,
        opt_max_ws_message_size = ob_max_ws_message_size b,
        opt_bootstrap = bootstrap\<rparr>))))"

section \<open>What validated options satisfy\<close>

definition duration_ok :: "duration \<Rightarrow> bool" where
  "duration_ok d = (0 < d \<and> d \<le> MAX_CONFIG_DURATION)"

definition capacity_ok :: "usize \<Rightarrow> nat \<Rightarrow> bool" where
  "capacity_ok v m = (0 < unat v \<and> unat v \<le> m)"

definition url_ok :: "'u url_crate \<Rightarrow> str list \<Rightarrow> 'u \<Rightarrow> bool" where
  "url_ok uc schemes u =
    (url_scheme uc u \<in> set schemes \<and> url_host_str uc u \<noteq> None \<and> url_username uc u = [] \<and>
     url_password uc u = None \<and> url_query uc u = None \<and> url_fragment uc u = None)"

definition options_ok :: "'u url_crate \<Rightarrow> ('u, 'o) fb_options \<Rightarrow> bool" where
  "options_ok uc o' =
    (secret_accepted (opt_env_secret o') \<and>
     url_ok uc [''ws'', ''wss''] (opt_streaming_url o') \<and> url_ok uc [''http'', ''https''] (opt_event_url o') \<and>
     (\<forall>d \<in> {opt_start_wait o', opt_connect_timeout o', opt_close_timeout o', opt_keep_alive_interval o',
            opt_auto_flush_interval o', opt_flush_timeout o', opt_event_request_timeout o'}. duration_ok d) \<and>
     opt_send_event_retry_interval o' \<le> MAX_CONFIG_DURATION \<and>
     opt_connect_timeout o' \<le> opt_start_wait o' \<and>
     (\<exists>d \<in> set (opt_reconnect_delays o'). 0 < d) \<and>
     (\<forall>d \<in> set (opt_reconnect_delays o'). d \<le> MAX_CONFIG_DURATION) \<and>
     capacity_ok (opt_max_events_in_queue o') 1000000 \<and>
     capacity_ok (opt_max_event_queue_size_bytes o') (2 ^ 30) \<and>
     capacity_ok (opt_max_events_per_request o') 10000 \<and>
     capacity_ok (opt_max_send_event_attempts o') 100 \<and>
     capacity_ok (opt_max_ws_message_size o') (2 ^ 26) \<and>
     (case opt_bootstrap o' of
        None \<Rightarrow> True
      | Some e \<Rightarrow> opt_offline o' \<and> env_message_type e = ''data-sync'' \<and> ds_event_type (env_data e) = ''full''))"

lemma run_checks_Inr: "run_checks cs = Inr () \<longleftrightarrow> (\<forall>c \<in> set cs. c = Inr ())"
  by (induction cs) (auto simp: and_then_Inr_iff)

lemma validate_nonzero_duration_Inr: "validate_nonzero_duration f d = Inr () \<longleftrightarrow> duration_ok d"
  by (auto simp: validate_nonzero_duration_def duration_ok_def)

lemma require_Inr: "require ok e = Inr () \<longleftrightarrow> ok"
  by (simp add: require_def)

lemma validate_capacity_Inr: "validate_capacity f v m = Inr () \<longleftrightarrow> capacity_ok v (unat m)"
  by (auto simp: validate_capacity_def capacity_ok_def word_less_nat_alt unat_gt_0)

lemma parse_url_Inr:
  "parse_url uc f v = Inr u \<longleftrightarrow> url_parse uc v = Inr u \<and> url_host_str uc u \<noteq> None \<and> url_username uc u = [] \<and>
     url_password uc u = None \<and> url_query uc u = None \<and> url_fragment uc u = None"
  by (auto simp: parse_url_def Let_def split: sum.splits option.splits if_splits)

lemma validated_urls_Inr:
  "validated_urls uc b = Inr (s, e) \<longleftrightarrow>
    url_parse uc (ob_streaming_url b) = Inr s \<and> url_parse uc (ob_event_url b) = Inr e \<and>
    url_ok uc [''ws'', ''wss''] s \<and> url_ok uc [''http'', ''https''] e"
  by (auto simp: validated_urls_def and_then_Inr_iff parse_url_Inr url_ok_def split: if_splits)

lemma validated_bootstrap_Inr:
  "validated_bootstrap x b = Inr e \<longleftrightarrow>
    (case ob_bootstrap_json b of
       None \<Rightarrow> e = None
     | Some json \<Rightarrow> ob_offline b \<and>
         (\<exists>env. e = Some env \<and> parse_envelope x json = Some env \<and>
            env_message_type env = ''data-sync'' \<and> ds_event_type (env_data env) = ''full''))"
  by (auto simp: validated_bootstrap_def split: option.splits)

lemma validate_runtime_limits_Inr:
  "validate_runtime_limits b = Inr () \<longleftrightarrow>
    (\<forall>d \<in> {ob_start_wait b, ob_connect_timeout b, ob_close_timeout b, ob_keep_alive_interval b,
            ob_auto_flush_interval b, ob_flush_timeout b, ob_event_request_timeout b}. duration_ok d) \<and>
    ob_send_event_retry_interval b \<le> MAX_CONFIG_DURATION \<and> ob_connect_timeout b \<le> ob_start_wait b \<and>
    (\<exists>d \<in> set (ob_reconnect_delays b). 0 < d) \<and>
    (\<forall>d \<in> set (ob_reconnect_delays b). d \<le> MAX_CONFIG_DURATION) \<and>
    capacity_ok (ob_max_events_in_queue b) 1000000 \<and> capacity_ok (ob_max_event_queue_size_bytes b) (2 ^ 30) \<and>
    capacity_ok (ob_max_events_per_request b) 10000 \<and> capacity_ok (ob_max_send_event_attempts b) 100 \<and>
    capacity_ok (ob_max_ws_message_size b) (2 ^ 26)"
  unfolding validate_runtime_limits_def run_checks_Inr
  by (auto simp: validate_nonzero_duration_Inr require_Inr validate_capacity_Inr list_all_iff list_ex_iff not_less)

section \<open>Properties\<close>

lemma build_Inr:
  "build x uc b = Inr r \<longleftrightarrow>
    (\<exists>s e bootstrap. secret_accepted (ob_env_secret b) \<and> validated_urls uc b = Inr (s, e) \<and>
      validate_runtime_limits b = Inr () \<and> validated_bootstrap x b = Inr bootstrap \<and>
      r = \<lparr>opt_env_secret = ob_env_secret b, opt_streaming_url = s, opt_event_url = e,
        opt_start_wait = ob_start_wait b, opt_offline = ob_offline b, opt_disable_events = ob_disable_events b,
        opt_allow_track = ob_allow_track b, opt_evaluation_observer = ob_evaluation_observer b,
        opt_connect_timeout = ob_connect_timeout b, opt_close_timeout = ob_close_timeout b,
        opt_keep_alive_interval = ob_keep_alive_interval b, opt_reconnect_delays = ob_reconnect_delays b,
        opt_auto_flush_interval = ob_auto_flush_interval b, opt_flush_timeout = ob_flush_timeout b,
        opt_event_request_timeout = ob_event_request_timeout b, opt_max_events_in_queue = ob_max_events_in_queue b,
        opt_max_event_queue_size_bytes = ob_max_event_queue_size_bytes b,
        opt_max_events_per_request = ob_max_events_per_request b,
        opt_max_send_event_attempts = ob_max_send_event_attempts b,
        opt_send_event_retry_interval = ob_send_event_retry_interval b,
        opt_max_ws_message_size = ob_max_ws_message_size b, opt_bootstrap = bootstrap\<rparr>)"
  by (auto simp: build_def validate_secret_def and_then_Inr_iff split: if_splits)

lemma build_options_ok:
  assumes "build x uc b = Inr r"
  shows "options_ok uc r"
proof -
  from assms obtain s e bootstrap where "secret_accepted (ob_env_secret b)"
    and "validated_urls uc b = Inr (s, e)" and l: "validate_runtime_limits b = Inr ()"
    and "validated_bootstrap x b = Inr bootstrap" and r: "opt_env_secret r = ob_env_secret b"
      "opt_streaming_url r = s" "opt_event_url r = e" "opt_bootstrap r = bootstrap" "opt_offline r = ob_offline b"
      "opt_start_wait r = ob_start_wait b" "opt_connect_timeout r = ob_connect_timeout b"
      "opt_close_timeout r = ob_close_timeout b" "opt_keep_alive_interval r = ob_keep_alive_interval b"
      "opt_reconnect_delays r = ob_reconnect_delays b" "opt_auto_flush_interval r = ob_auto_flush_interval b"
      "opt_flush_timeout r = ob_flush_timeout b" "opt_event_request_timeout r = ob_event_request_timeout b"
      "opt_max_events_in_queue r = ob_max_events_in_queue b"
      "opt_max_event_queue_size_bytes r = ob_max_event_queue_size_bytes b"
      "opt_max_events_per_request r = ob_max_events_per_request b"
      "opt_max_send_event_attempts r = ob_max_send_event_attempts b"
      "opt_send_event_retry_interval r = ob_send_event_retry_interval b"
      "opt_max_ws_message_size r = ob_max_ws_message_size b"
    by (auto simp: build_Inr)
  then show ?thesis
    using l [unfolded validate_runtime_limits_Inr]
    by (auto simp: options_ok_def r validated_urls_Inr validated_bootstrap_Inr split: option.splits)
qed

text \<open>
  C38. Options exist only for a configuration that is safe to run: a secret that forms a
  connection token, two endpoints of the right schemes with a host and nothing the SDK would
  overwrite, timeouts between zero and 365 days, a reconnect policy that is not all zero,
  capacities within their limits, and bootstrap data only offline and only as a full data set.
\<close>

theorem built_options_ok:
  assumes "build x uc b = Inr r"
  shows "options_ok uc r"
  using assms by (rule build_options_ok)

lemma build_default:
  assumes "secret_accepted secret"
    and "url_parse uc DEFAULT_STREAMING_URL = Inr s" and "url_ok uc [''ws'', ''wss''] s"
    and "url_parse uc DEFAULT_EVENT_URL = Inr e" and "url_ok uc [''http'', ''https''] e"
  shows "\<exists>r. build x uc (options_builder_new secret :: 'o fb_options_builder) = Inr r \<and> opt_env_secret r = secret \<and>
    opt_streaming_url r = s \<and> opt_event_url r = e"
proof -
  have "validate_runtime_limits (options_builder_new secret :: 'o fb_options_builder) = Inr ()"
    unfolding validate_runtime_limits_Inr
    by (simp add: options_builder_new_def duration_ok_def capacity_ok_def MAX_CONFIG_DURATION_def
        from_hours_def from_secs_def from_millis_def DEFAULT_RECONNECT_DELAYS_def
        DEFAULT_MAX_EVENT_QUEUE_SIZE_BYTES_def)
  moreover have "validated_urls uc (options_builder_new secret :: 'o fb_options_builder) = Inr (s, e)"
    using assms by (simp add: validated_urls_Inr options_builder_new_def)
  moreover have "validated_bootstrap x (options_builder_new secret :: 'o fb_options_builder) = Inr None"
    by (simp add: validated_bootstrap_Inr options_builder_new_def)
  moreover have "ob_env_secret (options_builder_new secret :: 'o fb_options_builder) = secret"
    by (simp add: options_builder_new_def)
  ultimately show ?thesis
    using assms(1) by (simp add: build_def validate_secret_def)
qed

text \<open>
  The defaults are a valid configuration: with any accepted secret and a URL parser that
  reads the two default endpoints as documented, a fresh builder builds.
\<close>

theorem default_options_build:
  assumes "secret_accepted secret"
    and "url_parse uc DEFAULT_STREAMING_URL = Inr s" and "url_ok uc [''ws'', ''wss''] s"
    and "url_parse uc DEFAULT_EVENT_URL = Inr e" and "url_ok uc [''http'', ''https''] e"
  shows "\<exists>r. build x uc (options_builder_new secret :: 'o fb_options_builder) = Inr r \<and> opt_env_secret r = secret \<and>
    opt_streaming_url r = s \<and> opt_event_url r = e"
  by (rule build_default) (rule assms)+

definition sample_url_crate :: "str url_crate" where
  "sample_url_crate =
    \<lparr>url_parse = Inr, url_scheme = (\<lambda>u. if u = DEFAULT_STREAMING_URL then ''ws'' else ''http''),
     url_host_str = (\<lambda>u. Some ''localhost''), url_port = (\<lambda>u. Some 5100), url_username = (\<lambda>u. []),
     url_password = (\<lambda>u. None), url_path = (\<lambda>u. ''/''), url_query = (\<lambda>u. None), url_fragment = (\<lambda>u. None),
     url_set_path = (\<lambda>p u. u), url_set_query = (\<lambda>q u. u), url_set_fragment = (\<lambda>f u. u),
     url_append_pair = (\<lambda>k v u. u)\<rparr>"

lemma sample_url_ok:
  "url_parse sample_url_crate u = Inr u" "url_ok sample_url_crate [''ws'', ''wss''] DEFAULT_STREAMING_URL"
  "url_ok sample_url_crate [''http'', ''https''] DEFAULT_EVENT_URL"
  by (simp_all add: sample_url_crate_def url_ok_def DEFAULT_STREAMING_URL_def DEFAULT_EVENT_URL_def)

lemma sample_secret_accepted: "secret_accepted ''abc=''"
  by (simp add: secret_accepted_def str_trim_end_matches_def is_ascii_def byte_of_def)

text \<open>The options that the default builder makes of the sample secret.\<close>

lemma sample_options:
  obtains opts where
    "build sample_crates sample_url_crate (options_builder_new ''abc='' :: unit fb_options_builder) = Inr opts"
    "options_ok sample_url_crate opts"
  using build_default [OF sample_secret_accepted sample_url_ok(1,2) sample_url_ok(1,3)] build_options_ok by blast

lemma sample_built:
  assumes "build sample_crates sample_url_crate (options_builder_new ''abc='' :: unit fb_options_builder) = Inr opts"
  shows "opt_env_secret opts = ''abc=''" "opt_reconnect_delays opts = DEFAULT_RECONNECT_DELAYS"
    "\<not> opt_offline opts" "opt_allow_track opts" "\<not> opt_disable_events opts" "opt_max_events_in_queue opts = 10000"
    "opt_max_event_queue_size_bytes opts = DEFAULT_MAX_EVENT_QUEUE_SIZE_BYTES"
    "opt_max_events_per_request opts = 50" "opt_max_send_event_attempts opts = 2"
  using assms by (auto simp: build_Inr options_builder_new_def)

theorem default_options_build_witness:
  "\<exists>r. build sample_crates sample_url_crate (options_builder_new ''abc='' :: unit fb_options_builder) = Inr r \<and>
    opt_env_secret r = ''abc='' \<and> opt_streaming_url r = DEFAULT_STREAMING_URL \<and> opt_event_url r = DEFAULT_EVENT_URL"
  by (rule default_options_build) (rule sample_secret_accepted sample_url_ok)+

theorem built_options_ok_witness:
  "\<exists>r. build sample_crates sample_url_crate (options_builder_new ''abc='' :: unit fb_options_builder) = Inr r \<and>
    options_ok sample_url_crate r"
proof -
  have "\<exists>r. build sample_crates sample_url_crate (options_builder_new ''abc='' :: unit fb_options_builder) = Inr r \<and>
    opt_env_secret r = ''abc='' \<and> opt_streaming_url r = DEFAULT_STREAMING_URL \<and> opt_event_url r = DEFAULT_EVENT_URL"
    by (rule build_default) (rule sample_secret_accepted sample_url_ok)+
  then show ?thesis using built_options_ok by blast
qed

text \<open>
  Debug output never depends on the environment secret. Of an endpoint it shows scheme,
  host, port and whether the other parts are there, and nothing of one that does not parse.
\<close>

theorem debug_output_redacts:
  "options_debug uc (r\<lparr>opt_env_secret := secret\<rparr>) = options_debug uc r \<and>
   options_builder_debug uc (b\<lparr>ob_env_secret := secret\<rparr>) = options_builder_debug uc b \<and>
   url_input_summary_debug uc text =
     (case url_parse uc text of
        Inl e \<Rightarrow> DRaw ''[INVALID URL REDACTED]''
      | Inr u \<Rightarrow> DStruct ''Url''
          [(''scheme'', DStr (url_scheme uc u)), (''host'', DOptStr (url_host_str uc u)),
           (''port'', DOptPort (url_port uc u)), (''has_base_path'', DBool (url_path uc u \<notin> {[], ''/''})),
           (''has_credentials'', DBool (url_username uc u \<noteq> [] \<or> url_password uc u \<noteq> None)),
           (''has_query'', DBool (url_query uc u \<noteq> None)), (''has_fragment'', DBool (url_fragment uc u \<noteq> None))])"
  by (simp add: options_debug_def options_builder_debug_def url_input_summary_debug_def url_summary_debug_def
      split: sum.splits)

end
