(* ===== verification/Protocol.thy ===== *)
theory Protocol
  imports Store Status Validation
begin

text \<open>
  \<^verbatim>\<open>src/data_sync/protocol.rs\<close>: what the synchronizer does with a message, the token it
  authenticates with, the address it connects to and how long it waits before reconnecting.
  Random numbers and the clock are arguments.
\<close>

section \<open>Messages\<close>

datatype apply_result = AppliedFull | AppliedPatch | Ignored | ApplyConflict

definition apply_message ::
  "'r crates \<Rightarrow> str \<Rightarrow> 'r data_snapshot \<Rightarrow> status_tracker \<Rightarrow>
    apply_result \<times> 'r data_snapshot \<times> status_tracker" where
  "apply_message x payload s t =
    (case parse_envelope x payload of
       None \<Rightarrow> (Ignored, s, t)
     | Some envelope \<Rightarrow>
         if env_message_type envelope \<noteq> ''data-sync'' then (Ignored, s, t)
         else
           let d = env_data envelope
           in if ds_event_type d = ''full'' then (AppliedFull, populate x d, tracker_set Ready t)
              else if ds_event_type d = ''patch'' then
                (case patch x d s of
                   (VersionConflict, s') \<Rightarrow> (ApplyConflict, s', tracker_set Stale t)
                 | (_, s') \<Rightarrow> (AppliedPatch, s', tracker_set Ready t))
              else (Ignored, s, t))"

section \<open>The connection token\<close>

definition NUMBER_MAP :: str where
  "NUMBER_MAP = ''QBWSPHDXZU''"

definition to_digit :: "char \<Rightarrow> nat option" where
  "to_digit c = (if is_digit c then Some (digit_val c) else None)"

definition encode_number :: "nat \<Rightarrow> nat \<Rightarrow> str" where
  "encode_number number len =
    (let padded = show_nat_padded len number;
         digits = rev (take len (rev padded))
     in List.map_filter (slice_get NUMBER_MAP) (List.map_filter to_digit digits))"

text \<open>\<^verbatim>\<open>start\<close> is the number drawn from \<^verbatim>\<open>2..trimmed.len()\<close>, \<^verbatim>\<open>now\<close> the clock in milliseconds.\<close>

definition connection_token :: "str \<Rightarrow> nat \<Rightarrow> int \<Rightarrow> str option" where
  "connection_token secret start now =
    (let trimmed = str_trim_end_matches (CHR ''='') secret
     in if length trimmed < 3 \<or> \<not> is_ascii trimmed then None
        else
          let timestamp = max now 0;
              timestamp_text = show_i64 timestamp
          in if length trimmed < start then None
             else Some
               (encode_number start 3 @ encode_number (length timestamp_text) 2 @
                take start trimmed @ encode_number (nat timestamp) (length timestamp_text) @
                drop start trimmed))"

definition streaming_url :: "'u url_crate \<Rightarrow> ('u, 'o) fb_options \<Rightarrow> nat \<Rightarrow> int \<Rightarrow> str + 'u" where
  "streaming_url uc opts start now =
    (case connection_token (opt_env_secret opts) start now of
       None \<Rightarrow> Inl ''environment secret cannot form a connection token''
     | Some token \<Rightarrow>
         let u = opt_streaming_url opts;
             base_path = str_trim_end_matches (CHR ''/'') (url_path uc u)
         in Inr (url_append_pair uc ''token'' token
             (url_append_pair uc ''type'' ''server''
               (url_set_fragment uc None (url_set_query uc None (url_set_path uc (base_path @ ''/streaming'') u))))))"

section \<open>Reconnecting\<close>

definition reconnect_delay :: "('u, 'o) fb_options \<Rightarrow> usize \<Rightarrow> nat \<Rightarrow> duration" where
  "reconnect_delay opts attempt jitter_percent =
    (let len = length (opt_reconnect_delays opts)
     in if len = 0 then from_secs 1
        else
          let index = unat attempt mod len;
              base = (case slice_get (opt_reconnect_delays opts) index of None \<Rightarrow> from_secs 1 | Some d \<Rightarrow> d)
          in if base = 0 then base
             else (case Option.bind (duration_checked_mul base jitter_percent) (\<lambda>d. duration_checked_div d 100) of
                     None \<Rightarrow> base
                   | Some d \<Rightarrow> d))"

section \<open>Lemmas: numbers in the token\<close>

definition decode_char :: "char \<Rightarrow> nat" where
  "decode_char c = length (takeWhile (\<lambda>d. d \<noteq> c) NUMBER_MAP)"

definition decode_number :: "str \<Rightarrow> nat" where
  "decode_number s = foldl (\<lambda>n c. 10 * n + decode_char c) 0 s"

definition encode_digit :: "char \<Rightarrow> char" where
  "encode_digit c = NUMBER_MAP ! digit_val c"

lemma digit_val_less: "is_digit c \<Longrightarrow> digit_val c < 10"
  by (auto simp: is_digit_def digit_val_def)

lemma decode_encode_digit: "is_digit c \<Longrightarrow> decode_char (encode_digit c) = digit_val c"
proof -
  have "d < 10 \<Longrightarrow> decode_char (NUMBER_MAP ! d) = d" for d
    by (auto simp: less_Suc_eq numeral_eq_Suc decode_char_def NUMBER_MAP_def)
  then show "is_digit c \<Longrightarrow> ?thesis" by (simp add: encode_digit_def digit_val_less)
qed

lemma encode_digits:
  "list_all is_digit s \<Longrightarrow>
    List.map_filter (slice_get NUMBER_MAP) (List.map_filter to_digit s) = map encode_digit s"
proof (induction s)
  case (Cons c s)
  then have "digit_val c < length NUMBER_MAP" using digit_val_less [of c] by (simp add: NUMBER_MAP_def)
  with Cons show ?case by (simp add: map_filter_simps to_digit_def slice_get_def encode_digit_def)
qed (simp add: map_filter_simps)

lemma encode_number_fits:
  assumes "0 < len" and "n < 10 ^ len"
  shows "encode_number n len = map encode_digit (show_nat_padded len n)"
  using assms show_nat_padded_digits [of len n]
  by (simp add: encode_number_def Let_def length_show_nat_padded encode_digits)

lemma length_encode_number: "0 < len \<Longrightarrow> n < 10 ^ len \<Longrightarrow> length (encode_number n len) = len"
  by (simp add: encode_number_fits length_show_nat_padded)

lemma decode_encode_number:
  assumes "0 < len" and "n < 10 ^ len"
  shows "decode_number (encode_number n len) = n"
proof -
  have "foldl (\<lambda>n c. 10 * n + decode_char c) a (map encode_digit s) = foldl (\<lambda>n c. 10 * n + digit_val c) a s"
    if "list_all is_digit s" for a s
    using that by (induction s arbitrary: a) (simp_all add: decode_encode_digit)
  from this [OF show_nat_padded_digits] show ?thesis
    using digits_val_show_nat_padded [of len n]
    by (simp add: decode_number_def encode_number_fits [OF assms] digits_val_def)
qed

text \<open>How the server reads a token: the timestamp and the secret without its padding.\<close>

definition read_token :: "str \<Rightarrow> nat \<times> str" where
  "read_token t =
    (let start = decode_number (take 3 t);
         len = decode_number (take 2 (drop 3 t));
         body = drop 5 t
     in (decode_number (take len (drop start body)), take start body @ drop (start + len) body))"

lemma i64_digits: "is_i64 i \<Longrightarrow> 0 \<le> i \<Longrightarrow> length (show_i64 i) \<le> 19 \<and> nat i < 10 ^ length (show_i64 i)"
proof -
  assume i: "is_i64 i" "0 \<le> i"
  then have "nat i < 10 ^ 19" by (simp add: is_i64_def i64_max_def nat_less_iff)
  then have "length (show_nat (nat i)) \<le> 19" by (intro length_show_nat_le) simp_all
  moreover have "n < 10 ^ length (show_nat n)" for n
  proof (induction n rule: show_nat.induct)
    case (1 n)
    show ?case
    proof (cases "n < 10")
      case False
      then have len: "length (show_nat n) = Suc (length (show_nat (n div 10)))" by (subst show_nat.simps) simp
      from 1 [OF False] have "n div 10 < 10 ^ length (show_nat (n div 10))" .
      then have "n < 10 ^ length (show_nat (n div 10)) * 10" by (simp add: div_less_iff_less_mult)
      with len show ?thesis by simp
    qed (simp add: show_nat.simps)
  qed
  ultimately show ?thesis using i by (simp add: show_i64_def)
qed

lemma show_i64_nonempty: "0 < length (show_i64 i)"
  by (simp add: show_i64_def)

lemma mod_reaches:
  fixes a j n :: nat
  assumes "j < n"
  shows "\<exists>k < n. (a + k) mod n = j"
proof (intro exI conjI)
  define m where "m = a mod n"
  have m: "m < n" using assms by (simp add: m_def)
  have "a + (j + n - m) = j + n + a div n * n"
    using m div_mult_mod_eq [of a n] unfolding m_def [symmetric] by linarith
  then have "(a + (j + n - m)) mod n = j" using assms by simp
  then show "(a + (j + n - m) mod n) mod n = j" by (simp add: mod_add_right_eq)
  show "(j + n - m) mod n < n" using assms by simp
qed

section \<open>Properties\<close>

text \<open>
  A message changes the store only when it is a well-formed data-sync envelope with a
  full or patch event; then the store holds that update's result and the status is Ready,
  or Stale when the patch reported a version conflict.
\<close>

theorem apply_message_effect:
  "(case apply_message x payload s t of
      (AppliedFull, s', t') \<Rightarrow>
        (\<exists>e. parse_envelope x payload = Some e \<and> env_message_type e = ''data-sync'' \<and>
           ds_event_type (env_data e) = ''full'' \<and> s' = populate x (env_data e)) \<and> t' = tracker_set Ready t
    | (AppliedPatch, s', t') \<Rightarrow>
        (\<exists>e. parse_envelope x payload = Some e \<and> env_message_type e = ''data-sync'' \<and>
           ds_event_type (env_data e) = ''patch'' \<and> s' = snd (patch x (env_data e) s) \<and>
           fst (patch x (env_data e) s) \<noteq> VersionConflict) \<and> t' = tracker_set Ready t
    | (ApplyConflict, s', t') \<Rightarrow>
        (\<exists>e. parse_envelope x payload = Some e \<and> env_message_type e = ''data-sync'' \<and>
           ds_event_type (env_data e) = ''patch'' \<and> s' = snd (patch x (env_data e) s) \<and>
           fst (patch x (env_data e) s) = VersionConflict) \<and> t' = tracker_set Stale t
    | (Ignored, s', t') \<Rightarrow> s' = s \<and> t' = t)"
  by (auto simp: apply_message_def Let_def split: option.splits prod.splits patch_result.splits)

text \<open>
  C39. The token round trip: from the token of an accepted secret, split at any position below
  1000, which is any position of a secret of at most 1000 characters, the server reads back the
  time and the secret without its trailing padding.
\<close>

theorem connection_token_roundtrip:
  assumes "secret_accepted secret" and "2 \<le> start" and "start < 1000"
    and "start < length (str_trim_end_matches (CHR ''='') secret)" and "is_i64 now"
  shows "\<exists>t. connection_token secret start now = Some t \<and>
    read_token t = (nat (max now 0), str_trim_end_matches (CHR ''='') secret)"
proof -
  define s where "s = str_trim_end_matches (CHR ''='') secret"
  define ts where "ts = max now 0"
  define len where "len = length (show_i64 ts)"
  define a b c where "a = encode_number start 3" and "b = encode_number len 2" and "c = encode_number (nat ts) len"
  have i: "is_i64 ts" "0 \<le> ts" using assms(5) by (auto simp: ts_def is_i64_def i64_min_def i64_max_def)
  note d = i64_digits [OF i] show_i64_nonempty [of ts]
  have a: "length a = 3" "decode_number a = start"
    using assms by (simp_all add: a_def length_encode_number decode_encode_number)
  have b: "length b = 2" "decode_number b = len"
    using d by (simp_all add: b_def len_def length_encode_number decode_encode_number)
  have c: "length c = len" "decode_number c = nat ts"
    using d by (simp_all add: c_def len_def length_encode_number decode_encode_number)
  have "connection_token secret start now = Some (a @ b @ take start s @ c @ drop start s)"
    using assms by (simp add: connection_token_def secret_accepted_def Let_def s_def ts_def len_def a_def b_def c_def)
  moreover have "read_token (a @ b @ take start s @ c @ drop start s) = (nat ts, s)"
    using a b c assms(4) by (simp add: read_token_def s_def)
  ultimately show ?thesis by (simp add: s_def ts_def)
qed

theorem connection_token_roundtrip_witness:
  "\<exists>t. connection_token ''abc='' 2 1000 = Some t \<and> read_token t = (1000, ''abc'')"
proof -
  have "str_trim_end_matches (CHR ''='') ''abc='' = ''abc''" by (simp add: str_trim_end_matches_def)
  then show ?thesis
    using connection_token_roundtrip [OF sample_secret_accepted, of 2 1000]
    by (simp add: is_i64_def i64_min_def i64_max_def)
qed

text \<open>
  Validated options always yield a streaming address: whatever the clock says and
  whichever start is drawn, no connection attempt fails for want of a token.
\<close>

theorem validated_options_connect:
  assumes "build x uc b = Inr opts" and "start < length (str_trim_end_matches (CHR ''='') (opt_env_secret opts))"
  shows "\<exists>u. streaming_url uc opts start now = Inr u"
proof -
  from assms(1) have "secret_accepted (opt_env_secret opts)" by (auto simp: build_Inr)
  with assms(2) show ?thesis
    by (simp add: streaming_url_def connection_token_def secret_accepted_def Let_def)
qed

theorem validated_options_connect_witness:
  "\<exists>opts u. build sample_crates sample_url_crate (options_builder_new ''abc='' :: unit fb_options_builder) = Inr opts \<and>
    streaming_url sample_url_crate opts 2 0 = Inr u"
proof -
  obtain opts where opts: "build sample_crates sample_url_crate (options_builder_new ''abc='' :: unit fb_options_builder) = Inr opts"
    by (rule sample_options)
  have "2 < length (str_trim_end_matches (CHR ''='') (opt_env_secret opts))"
    by (simp add: sample_built(1) [OF opts] str_trim_end_matches_def)
  from validated_options_connect [OF opts this] opts show ?thesis by blast
qed

lemma reconnect_delay_range:
  assumes "options_ok uc opts" and "80 \<le> jitter" and "jitter \<le> 120"
  shows "opt_reconnect_delays opts ! (unat attempt mod length (opt_reconnect_delays opts)) * 80 div 100
      \<le> reconnect_delay opts attempt jitter"
    and "reconnect_delay opts attempt jitter
      \<le> opt_reconnect_delays opts ! (unat attempt mod length (opt_reconnect_delays opts)) * 120 div 100"
proof -
  define ds where "ds = opt_reconnect_delays opts"
  define i where "i = unat attempt mod length ds"
  have ne: "ds \<noteq> []" using assms(1) by (auto simp: options_ok_def ds_def)
  then have i: "i < length ds" by (simp add: i_def)
  then have "ds ! i \<le> MAX_CONFIG_DURATION" using assms(1) by (simp add: options_ok_def ds_def)
  then have "ds ! i * jitter \<le> MAX_CONFIG_DURATION * 120" using assms(3) by (rule mult_le_mono)
  then have "ds ! i * jitter \<le> duration_max"
    by (simp add: MAX_CONFIG_DURATION_def from_hours_def from_secs_def duration_max_def)
  then have eq: "reconnect_delay opts attempt jitter = ds ! i * jitter div 100"
    using i ne by (auto simp: reconnect_delay_def Let_def slice_get_def duration_checked_mul_def
        duration_checked_div_def simp flip: ds_def i_def)
  show "opt_reconnect_delays opts ! (unat attempt mod length (opt_reconnect_delays opts)) * 80 div 100
      \<le> reconnect_delay opts attempt jitter"
    unfolding eq ds_def [symmetric] i_def [symmetric] using assms(2) by (intro div_le_mono mult_le_mono) auto
  show "reconnect_delay opts attempt jitter
      \<le> opt_reconnect_delays opts ! (unat attempt mod length (opt_reconnect_delays opts)) * 120 div 100"
    unfolding eq ds_def [symmetric] i_def [symmetric] using assms(3) by (intro div_le_mono mult_le_mono) auto
qed

text \<open>
  Reconnect delays cycle through the configured list; with a jitter of 80 to 120 percent
  each is within 20 percent of its entry, up to rounding to a nanosecond. Validated options
  never retry without pause: among any run of as many attempts as there are entries, one has
  a delay of at least 80 percent of a positive entry.
\<close>

theorem reconnect_backs_off:
  assumes "options_ok uc opts" and "\<And>k. 80 \<le> jitter k \<and> jitter k \<le> 120"
    and "first + length (opt_reconnect_delays opts) \<le> usize_max"
  shows "\<exists>k < length (opt_reconnect_delays opts). \<exists>d \<in> set (opt_reconnect_delays opts). 0 < d \<and>
    d * 80 div 100 \<le> reconnect_delay opts (word_of_nat (first + k)) (jitter k) \<and>
    reconnect_delay opts (word_of_nat (first + k)) (jitter k) \<le> d * 120 div 100"
proof -
  define ds where "ds = opt_reconnect_delays opts"
  obtain j where j: "j < length ds" "0 < ds ! j"
    using assms(1) by (auto simp: options_ok_def ds_def in_set_conv_nth)
  obtain k where k: "k < length ds" "(first + k) mod length ds = j" using mod_reaches [OF j(1)] by blast
  have "unat (word_of_nat (first + k) :: usize) = first + k"
    using k(1) assms(3) by (simp add: unat_of_nat usize_max_def ds_def del: of_nat_add)
  then have "ds ! (unat (word_of_nat (first + k) :: usize) mod length ds) = ds ! j" by (simp add: k(2))
  with reconnect_delay_range [OF assms(1), of "jitter k" "word_of_nat (first + k)"] assms(2) [of k] j k(1)
  show ?thesis by (auto simp flip: ds_def intro!: exI [of _ k] bexI [of _ "ds ! j"])
qed

theorem reconnect_backs_off_witness:
  "\<exists>opts :: (str, unit) fb_options. \<exists>k < length (opt_reconnect_delays opts). \<exists>d \<in> set (opt_reconnect_delays opts). 0 < d \<and>
    d * 80 div 100 \<le> reconnect_delay opts (word_of_nat k) 100 \<and>
    reconnect_delay opts (word_of_nat k) 100 \<le> d * 120 div 100"
proof -
  obtain opts :: "(str, unit) fb_options" where opts: "options_ok sample_url_crate opts"
    "opt_reconnect_delays opts = DEFAULT_RECONNECT_DELAYS" using sample_options sample_built(2) by blast
  then have "0 + length (opt_reconnect_delays opts) \<le> usize_max"
    by (simp add: DEFAULT_RECONNECT_DELAYS_def usize_max_def)
  from reconnect_backs_off [OF opts(1), of "\<lambda>k. 100" 0, OF _ this] show ?thesis by auto
qed

end
