(* ===== verification/Connection.thy ===== *)
theory Connection
  imports Protocol
begin

text \<open>
  \<^verbatim>\<open>src/data_sync/connection.rs\<close>: the synchronizer's task. It connects, asks for the data
  after the version it holds, applies what arrives, answers pings, and starts over after a
  pause until it is stopped or the server closes the connection for good. The model is a state
  machine over what the environment does: which branch of a \<^verbatim>\<open>select!\<close> wins, what the
  socket yields, how a write ends, what the clock and the random generator say.
\<close>

section \<open>Sending\<close>

datatype socket_send = Sent | SendStopped | SendFailed str

datatype write_outcome = Written | WriteError str | WriteTimedOut

text \<open>\<^verbatim>\<open>stop\<close>: the stop signal is there before the write ends; the \<^verbatim>\<open>select!\<close> is biased.\<close>

definition send_socket_message :: "bool \<Rightarrow> write_outcome \<Rightarrow> socket_send" where
  "send_socket_message stop w =
    (if stop then SendStopped
     else (case w of
             Written \<Rightarrow> Sent
           | WriteError e \<Rightarrow> SendFailed e
           | WriteTimedOut \<Rightarrow> SendFailed ''WebSocket write timed out''))"

text \<open>
  \<^verbatim>\<open>wait_for_stop\<close> on a watch channel: the value now, then the changes that arrive, where
  \<^const>\<open>None\<close> is the end of the channel. True when the wait returns.
\<close>

fun wait_for_stop :: "bool \<Rightarrow> bool option list \<Rightarrow> bool" where
  "wait_for_stop current changes =
    (if current then True
     else (case changes of
             [] \<Rightarrow> False
           | None # _ \<Rightarrow> True
           | Some v # changes' \<Rightarrow> wait_for_stop v changes'))"

declare wait_for_stop.simps [simp del]

definition graceful_work_budget :: "duration \<Rightarrow> duration" where
  "graceful_work_budget timeout = timeout - min (timeout div 4) (from_millis 100)"

datatype outgoing = OutJson json | OutText str | OutPong str | OutClose

definition data_sync_request :: "int \<Rightarrow> outgoing" where
  "data_sync_request version =
    OutJson (JObj [(''messageType'', JStr ''data-sync''),
                   (''data'', JObj [(''timestamp'', JNum (PosInt (nat (max version 0))))])])"

definition ping_message :: outgoing where
  "ping_message = OutText ''{\"messageType\":\"ping\",\"data\":{}}''"

section \<open>One connection\<close>

datatype connection_end = Stopped | Terminal "16 word" | Reconnect | Resync

definition reconnect_end :: "bool \<Rightarrow> connection_end" where
  "reconnect_end awaiting_full_sync = (if awaiting_full_sync then Resync else Reconnect)"

datatype message =
    TextMsg str
  | BinaryMsg str
  | PingMsg str
  | PongMsg str
  | FrameMsg
  | CloseMsg "16 word option"

datatype incoming = Received message | ReceiveError | EndOfStream

text \<open>A branch of the loop's \<^verbatim>\<open>select!\<close> with the end of the write its handler may make.\<close>

datatype conn_event =
    StopRequested
  | PingDue bool write_outcome
  | Incoming incoming bool write_outcome

text \<open>The state of a connection, with the messages sent and the results of those applied so far.\<close>

record 'r conn_state =
  cs_store :: "'r data_snapshot"
  cs_tracker :: status_tracker
  cs_awaiting :: bool
  cs_sent :: "outgoing list"
  cs_applied :: "apply_result list"

definition send_on :: "outgoing \<Rightarrow> bool \<Rightarrow> write_outcome \<Rightarrow> 'r conn_state \<Rightarrow> socket_send \<times> 'r conn_state" where
  "send_on m stop w c =
    (case send_socket_message stop w of
       Sent \<Rightarrow> (Sent, c\<lparr>cs_sent := cs_sent c @ [m]\<rparr>)
     | r \<Rightarrow> (r, c))"

definition send_data_sync :: "int \<Rightarrow> bool \<Rightarrow> write_outcome \<Rightarrow> 'r conn_state \<Rightarrow> socket_send \<times> 'r conn_state" where
  "send_data_sync version stop w c = send_on (data_sync_request version) stop w c"

definition handle_apply_result ::
  "apply_result \<Rightarrow> bool \<Rightarrow> write_outcome \<Rightarrow> 'r conn_state \<Rightarrow> connection_end option \<times> 'r conn_state" where
  "handle_apply_result result stop w c =
    (let c1 = (if cs_awaiting c \<and> result \<noteq> AppliedFull
               then c\<lparr>cs_tracker := tracker_set Stale (cs_tracker c)\<rparr> else c)
     in (case result of
           AppliedFull \<Rightarrow> (None, c1\<lparr>cs_awaiting := False\<rparr>)
         | ApplyConflict \<Rightarrow>
             if \<not> cs_awaiting c1 then
               (case send_data_sync 0 stop w c1 of
                  (Sent, c2) \<Rightarrow> (None, c2\<lparr>cs_awaiting := True\<rparr>)
                | (SendStopped, c2) \<Rightarrow> (Some Stopped, c2)
                | (SendFailed e, c2) \<Rightarrow> (Some Resync, c2))
             else (None, c1)
         | _ \<Rightarrow> (None, c1)))"

definition apply_payload :: "'r crates \<Rightarrow> str \<Rightarrow> 'r conn_state \<Rightarrow> apply_result \<times> 'r conn_state" where
  "apply_payload x payload c =
    (case apply_message x payload (cs_store c) (cs_tracker c) of
       (r, s, t) \<Rightarrow> (r, c\<lparr>cs_store := s, cs_tracker := t, cs_applied := cs_applied c @ [r]\<rparr>))"

definition receive_data ::
  "'r crates \<Rightarrow> ('u, 'o) fb_options \<Rightarrow> str \<Rightarrow> bool \<Rightarrow> write_outcome \<Rightarrow> 'r conn_state \<Rightarrow>
    connection_end option \<times> 'r conn_state" where
  "receive_data x opts payload stop w c =
    (if unat (opt_max_ws_message_size opts) < length payload
     then (Some (reconnect_end (cs_awaiting c)), c)
     else case apply_payload x payload c of (r, c') \<Rightarrow> handle_apply_result r stop w c')"

definition after_send :: "'r conn_state \<Rightarrow> socket_send \<times> 'r conn_state \<Rightarrow> connection_end option \<times> 'r conn_state" where
  "after_send c r =
    (case r of
       (Sent, c') \<Rightarrow> (None, c')
     | (SendStopped, c') \<Rightarrow> (Some Stopped, c')
     | (SendFailed e, c') \<Rightarrow> (Some (reconnect_end (cs_awaiting c)), c'))"

definition connection_step ::
  "'r crates \<Rightarrow> ('u, 'o) fb_options \<Rightarrow> conn_event \<Rightarrow> 'r conn_state \<Rightarrow> connection_end option \<times> 'r conn_state" where
  "connection_step x opts ev c =
    (case ev of
       StopRequested \<Rightarrow> (Some Stopped, c\<lparr>cs_sent := cs_sent c @ [OutClose]\<rparr>)
     | PingDue stop w \<Rightarrow> after_send c (send_on ping_message stop w c)
     | Incoming i stop w \<Rightarrow>
         (case i of
            Received (TextMsg text) \<Rightarrow> receive_data x opts text stop w c
          | Received (BinaryMsg bytes) \<Rightarrow> receive_data x opts bytes stop w c
          | Received (PingMsg payload) \<Rightarrow> after_send c (send_on (OutPong payload) stop w c)
          | Received (PongMsg _) \<Rightarrow> (None, c)
          | Received FrameMsg \<Rightarrow> (None, c)
          | Received (CloseMsg frame) \<Rightarrow>
              let code = (case frame of None \<Rightarrow> 1006 | Some code \<Rightarrow> code)
              in (Some (if code = 4003 then Terminal code else reconnect_end (cs_awaiting c)), c)
          | ReceiveError \<Rightarrow> (Some (reconnect_end (cs_awaiting c)), c)
          | EndOfStream \<Rightarrow> (Some (reconnect_end (cs_awaiting c)), c)))"

text \<open>The loop of \<^verbatim>\<open>run_connection\<close>; \<^const>\<open>None\<close> while the connection lives on.\<close>

fun run_connection ::
  "'r crates \<Rightarrow> ('u, 'o) fb_options \<Rightarrow> conn_event list \<Rightarrow> 'r conn_state \<Rightarrow> connection_end option \<times> 'r conn_state" where
  "run_connection x opts [] c = (None, c)"
| "run_connection x opts (ev # evs) c =
    (case connection_step x opts ev c of
       (Some e, c') \<Rightarrow> (Some e, c')
     | (None, c') \<Rightarrow> run_connection x opts evs c')"

section \<open>The loop over connections\<close>

datatype net_outcome = NetConnected | NetError | NetTimedOut

definition connect ::
  "'u url_crate \<Rightarrow> ('u, 'o) fb_options \<Rightarrow> nat \<Rightarrow> int \<Rightarrow> str option \<Rightarrow> str option \<Rightarrow> net_outcome \<Rightarrow> str + unit" where
  "connect uc opts start now request_error header_error net =
    (case streaming_url uc opts start now of
       Inl e \<Rightarrow> Inl e
     | Inr u \<Rightarrow>
         (case request_error of
            Some e \<Rightarrow> Inl e
          | None \<Rightarrow>
              (case header_error of
                 Some e \<Rightarrow> Inl e
               | None \<Rightarrow>
                   (case net of
                      NetConnected \<Rightarrow> Inr ()
                    | NetError \<Rightarrow> Inl ''connection failed''
                    | NetTimedOut \<Rightarrow> Inl ''connection timed out''))))"

text \<open>What the environment does during one round of the loop.\<close>

record loop_env =
  le_stop_at_top :: bool
  le_stop_connecting :: bool
  le_start :: nat
  le_now :: int
  le_request_error :: "str option"
  le_header_error :: "str option"
  le_net :: net_outcome
  le_send_stop :: bool
  le_send_write :: write_outcome
  le_events :: "conn_event list"
  le_elapsed :: duration
  le_jitter :: nat
  le_stop_sleeping :: bool

text \<open>
  The task's variables, with the messages sent, the results applied and the pauses so far.
\<close>

record 'r loop_state =
  ls_store :: "'r data_snapshot"
  ls_tracker :: status_tracker
  ls_retry :: usize
  ls_force_full :: bool
  ls_sent :: "outgoing list"
  ls_applied :: "apply_result list"
  ls_delays :: "duration list"

datatype loop_next = Continue | Finished | Suspended

definition set_stale_if_initialized :: "status_tracker \<Rightarrow> status_tracker" where
  "set_stale_if_initialized t = (if tracker_initialized t then tracker_set Stale t else t)"

definition break_loop :: "'r loop_state \<Rightarrow> loop_next \<times> 'r loop_state" where
  "break_loop l = (Finished, l\<lparr>ls_tracker := tracker_set Closed (ls_tracker l)\<rparr>)"

text \<open>The end of a round: mark the data stale, pause, go round or stop.\<close>

definition pause :: "('u, 'o) fb_options \<Rightarrow> loop_env \<Rightarrow> 'r loop_state \<Rightarrow> loop_next \<times> 'r loop_state" where
  "pause opts e l =
    (let delay = reconnect_delay opts (ls_retry l) (le_jitter e);
         l1 = l\<lparr>ls_tracker := set_stale_if_initialized (ls_tracker l),
                ls_retry := saturating_add (ls_retry l) 1,
                ls_delays := ls_delays l @ [delay]\<rparr>
     in if le_stop_sleeping e then break_loop l1 else (Continue, l1))"

text \<open>The connection is up and the data-sync request has been sent.\<close>

definition connected ::
  "'r crates \<Rightarrow> ('u, 'o) fb_options \<Rightarrow> loop_env \<Rightarrow> 'r conn_state \<Rightarrow> 'r loop_state \<Rightarrow> loop_next \<times> 'r loop_state" where
  "connected x opts e c l =
    (case run_connection x opts (le_events e) c of
       (r, c') \<Rightarrow>
         let l1 = l\<lparr>ls_store := cs_store c', ls_tracker := cs_tracker c', ls_sent := ls_sent l @ cs_sent c',
                      ls_applied := ls_applied l @ cs_applied c'\<rparr>
         in (case r of
               None \<Rightarrow> (Suspended, l1)
             | Some end' \<Rightarrow>
                 let l2 = (if tracker_status (ls_tracker l1) = Ready \<and> opt_keep_alive_interval opts \<le> le_elapsed e
                           then l1\<lparr>ls_retry := 0\<rparr> else l1)
                 in (case end' of
                       Stopped \<Rightarrow> break_loop l2
                     | Terminal code \<Rightarrow> (Finished, l2\<lparr>ls_tracker := tracker_set Closed (ls_tracker l2)\<rparr>)
                     | Reconnect \<Rightarrow> pause opts e (l2\<lparr>ls_force_full := False\<rparr>)
                     | Resync \<Rightarrow> pause opts e (l2\<lparr>ls_force_full := True\<rparr>))))"

definition loop_step ::
  "'r crates \<Rightarrow> 'u url_crate \<Rightarrow> ('u, 'o) fb_options \<Rightarrow> loop_env \<Rightarrow> 'r loop_state \<Rightarrow> loop_next \<times> 'r loop_state" where
  "loop_step x uc opts e l =
    (if le_stop_at_top e then break_loop l
     else
       let l1 = l\<lparr>ls_tracker := set_stale_if_initialized (ls_tracker l)\<rparr>
       in if le_stop_connecting e then break_loop l1
          else
            (case connect uc opts (le_start e) (le_now e) (le_request_error e) (le_header_error e) (le_net e) of
               Inl err \<Rightarrow> pause opts e l1
             | Inr _ \<Rightarrow>
                 let requested_version = (if ls_force_full l1 then 0 else sn_version (ls_store l1));
                     c = \<lparr>cs_store = ls_store l1, cs_tracker = ls_tracker l1, cs_awaiting = ls_force_full l1,
                          cs_sent = [], cs_applied = []\<rparr>
                 in (case send_data_sync requested_version (le_send_stop e) (le_send_write e) c of
                       (SendStopped, _) \<Rightarrow> break_loop l1
                     | (SendFailed err, _) \<Rightarrow> pause opts e l1
                     | (Sent, c') \<Rightarrow> connected x opts e c' l1)))"

fun run_sync_loop ::
  "'r crates \<Rightarrow> 'u url_crate \<Rightarrow> ('u, 'o) fb_options \<Rightarrow> loop_env list \<Rightarrow> 'r loop_state \<Rightarrow> loop_next \<times> 'r loop_state" where
  "run_sync_loop x uc opts [] l = (Continue, l)"
| "run_sync_loop x uc opts (e # es) l =
    (case loop_step x uc opts e l of
       (Continue, l') \<Rightarrow> run_sync_loop x uc opts es l'
     | (next', l') \<Rightarrow> (next', l'))"

definition loop_start :: "'r data_snapshot \<Rightarrow> status_tracker \<Rightarrow> 'r loop_state" where
  "loop_start s t =
    \<lparr>ls_store = s, ls_tracker = t, ls_retry = 0, ls_force_full = False, ls_sent = [], ls_applied = [],
     ls_delays = []\<rparr>"

section \<open>Unresolved conflicts\<close>

text \<open>
  After a history of applied messages a conflict is unresolved when no full data set came
  after it; \<open>a\<close> says whether one was unresolved at the start.
\<close>

definition unresolved :: "bool \<Rightarrow> apply_result list \<Rightarrow> bool" where
  "unresolved a rs = fold (\<lambda>r p. r = ApplyConflict \<or> p \<and> r \<noteq> AppliedFull) rs a"

lemma unresolved_simps [simp]:
  "unresolved a [] = a"
  "unresolved a (rs @ [r]) \<longleftrightarrow> r = ApplyConflict \<or> unresolved a rs \<and> r \<noteq> AppliedFull"
  by (simp_all add: unresolved_def)

definition conn_ok :: "bool \<Rightarrow> 'r conn_state \<Rightarrow> bool" where
  "conn_ok a c =
    (cs_awaiting c = unresolved a (cs_applied c) \<and>
     (cs_awaiting c \<longrightarrow> tracker_status (cs_tracker c) \<noteq> Ready))"

text \<open>What the way a connection ended says about its history.\<close>

fun end_ok :: "bool \<Rightarrow> connection_end option \<Rightarrow> 'r conn_state \<Rightarrow> bool" where
  "end_ok a None c = conn_ok a c"
| "end_ok a (Some Reconnect) c = (\<not> unresolved a (cs_applied c))"
| "end_ok a (Some Resync) c = (unresolved a (cs_applied c) \<and> tracker_status (cs_tracker c) \<noteq> Ready)"
| "end_ok a (Some e) c = (unresolved a (cs_applied c) \<longrightarrow> tracker_status (cs_tracker c) \<noteq> Ready)"

lemma end_ok_reconnect_end: "conn_ok a c \<Longrightarrow> end_ok a (Some (reconnect_end (cs_awaiting c))) c"
  by (auto simp: conn_ok_def reconnect_end_def)

lemma send_on_cases:
  obtains "send_on m stop w c = (Sent, c\<lparr>cs_sent := cs_sent c @ [m]\<rparr>)"
  | "send_on m stop w c = (SendStopped, c)"
  | e where "send_on m stop w c = (SendFailed e, c)"
  by (cases "send_socket_message stop w") (auto simp: send_on_def)

lemma after_send_ok:
  assumes "conn_ok a c" and "after_send c (send_on m stop w c) = (r, c')"
  shows "end_ok a r c'"
  using assms end_ok_reconnect_end [OF assms(1)]
  by (cases rule: send_on_cases [of m stop w c]) (auto simp: after_send_def conn_ok_def)

text \<open>What a message does to the status, by its result.\<close>

lemma apply_message_status:
  assumes "apply_message x payload s t = (r, s', t')"
  shows "t' = (case r of AppliedFull \<Rightarrow> tracker_set Ready t | AppliedPatch \<Rightarrow> tracker_set Ready t
    | ApplyConflict \<Rightarrow> tracker_set Stale t | Ignored \<Rightarrow> t)"
  using assms
  by (auto simp: apply_message_def Let_def split: option.splits if_splits prod.splits patch_result.splits)

lemma receive_data_ok:
  assumes "conn_ok a c" and "receive_data x opts payload stop w c = (r, c')"
  shows "end_ok a r c'"
proof (cases "unat (opt_max_ws_message_size opts) < length payload")
  case True
  with assms show ?thesis using end_ok_reconnect_end [OF assms(1)] by (auto simp: receive_data_def)
next
  case False
  obtain res s t where msg: "apply_message x payload (cs_store c) (cs_tracker c) = (res, s, t)"
    by (metis prod_cases3)
  define d where "d = c\<lparr>cs_store := s, cs_tracker := t, cs_applied := cs_applied c @ [res]\<rparr>"
  from False msg assms(2) have h: "handle_apply_result res stop w d = (r, c')"
    by (simp add: receive_data_def apply_payload_def d_def)
  note t = apply_message_status [OF msg]
  have aw: "cs_awaiting c = unresolved a (cs_applied c)" and
    rdy: "cs_awaiting c \<Longrightarrow> tracker_status (cs_tracker c) \<noteq> Ready"
    using assms(1) by (simp_all add: conn_ok_def)
  show ?thesis
  proof (cases "res = ApplyConflict \<and> \<not> cs_awaiting c")
    case True
    then have "tracker_status (cs_tracker d) = Stale" by (simp add: d_def t)
    with True h show ?thesis
      by (cases rule: send_on_cases [of "data_sync_request 0" stop w d])
        (auto simp: handle_apply_result_def send_data_sync_def d_def conn_ok_def)
  next
    case False
    with h aw rdy show ?thesis
      by (cases res) (auto simp: handle_apply_result_def d_def conn_ok_def t Let_def)
  qed
qed

lemma connection_step_ok:
  assumes "conn_ok a c" and "connection_step x opts ev c = (r, c')"
  shows "end_ok a r c'"
  using assms(2) assms(1) end_ok_reconnect_end [OF assms(1)] after_send_ok [OF assms(1)] receive_data_ok [OF assms(1)]
  by (auto simp: connection_step_def Let_def conn_ok_def split: conn_event.splits incoming.splits message.splits if_splits)

lemma run_connection_ok:
  assumes "conn_ok a c" and "run_connection x opts evs c = (r, c')"
  shows "end_ok a r c'"
  using assms
proof (induction evs arbitrary: c)
  case (Cons ev evs)
  obtain r1 c1 where step: "connection_step x opts ev c = (r1, c1)" by fastforce
  with connection_step_ok [OF Cons.prems(1)] have "end_ok a r1 c1" by blast
  with step Cons show ?case by (cases r1) auto
qed simp

section \<open>The store and the status over a connection\<close>

lemma apply_message_store_ok:
  assumes "snapshot_ok x s" and "apply_message x payload s t = (r, s', t')"
  shows "snapshot_ok x s'"
proof -
  have "snapshot_ok x q" if "patch x d s = (res, q)" for d res q
    using patch_ok [OF assms(1), of d] that by simp
  with assms populate_ok show ?thesis
    by (auto simp: apply_message_def Let_def split: option.splits if_splits prod.splits patch_result.splits)
qed

text \<open>Facts that every operation on a connection keeps: the store's invariant and having ever been ready.\<close>

definition conn_le :: "'r crates \<Rightarrow> 'r conn_state \<Rightarrow> 'r conn_state \<Rightarrow> bool" where
  "conn_le x c c' =
    ((snapshot_ok x (cs_store c) \<longrightarrow> snapshot_ok x (cs_store c')) \<and>
     (tracker_initialized (cs_tracker c) \<longrightarrow> tracker_initialized (cs_tracker c')) \<and>
     ((tracker_status (cs_tracker c) = Ready \<longrightarrow> tracker_initialized (cs_tracker c)) \<longrightarrow>
      (tracker_status (cs_tracker c') = Ready \<longrightarrow> tracker_initialized (cs_tracker c'))))"

lemma conn_le_refl [simp]: "conn_le x c c"
  by (simp add: conn_le_def)

lemma conn_le_trans: "conn_le x a b \<Longrightarrow> conn_le x b c \<Longrightarrow> conn_le x a c"
  by (auto simp: conn_le_def)

lemma conn_le_other [simp]:
  "conn_le x c (d\<lparr>cs_sent := m\<rparr>) = conn_le x c d" "conn_le x c (d\<lparr>cs_awaiting := w\<rparr>) = conn_le x c d"
  by (simp_all add: conn_le_def)

lemma send_on_le: "conn_le x c (snd (send_on m stop w c))"
  by (cases rule: send_on_cases [of m stop w c]) simp_all

lemma receive_data_le: "conn_le x c (snd (receive_data x opts payload stop w c))"
proof -
  obtain res s t where msg: "apply_message x payload (cs_store c) (cs_tracker c) = (res, s, t)"
    by (metis prod_cases3)
  define d where "d = c\<lparr>cs_store := s, cs_tracker := t, cs_applied := cs_applied c @ [res]\<rparr>"
  have d: "conn_le x c d"
    using apply_message_store_ok [OF _ msg] apply_message_status [OF msg]
    by (auto simp: conn_le_def d_def split: apply_result.splits)
  have st: "conn_le x d (d\<lparr>cs_tracker := tracker_set Stale (cs_tracker d)\<rparr>)"
    by (simp add: conn_le_def)
  have "conn_le x d (snd (handle_apply_result res stop w d))"
    using st by (cases rule: send_on_cases [of "data_sync_request 0" stop w d])
      (auto simp: handle_apply_result_def send_data_sync_def Let_def split: apply_result.splits)
  with d have "conn_le x c (snd (handle_apply_result res stop w d))" by (rule conn_le_trans)
  then show ?thesis by (simp add: receive_data_def apply_payload_def msg d_def)
qed

lemma connection_step_le: "conn_le x c (snd (connection_step x opts ev c))"
proof -
  have "conn_le x c (snd (after_send c (send_on m stop w c)))" for m stop w
    by (cases rule: send_on_cases [of m stop w c]) (simp_all add: after_send_def)
  then show ?thesis
    by (simp add: connection_step_def Let_def receive_data_le split: conn_event.splits incoming.splits message.splits)
qed

lemma run_connection_le: "conn_le x c (snd (run_connection x opts evs c))"
proof (induction evs arbitrary: c)
  case (Cons ev evs)
  obtain r c' where step: "connection_step x opts ev c = (r, c')" by fastforce
  then have "conn_le x c c'" using connection_step_le [of x c opts ev] by simp
  with Cons.IH [of c'] step show ?case by (cases r) (auto intro: conn_le_trans)
qed simp

section \<open>The invariant of the loop\<close>

lemma unresolved_append: "unresolved a (rs @ qs) = unresolved (unresolved a rs) qs"
  by (simp add: unresolved_def)

definition loop_ok :: "'r crates \<Rightarrow> 'r loop_state \<Rightarrow> bool" where
  "loop_ok x l =
    (ls_force_full l = unresolved False (ls_applied l) \<and> snapshot_ok x (ls_store l) \<and>
     (tracker_status (ls_tracker l) = Ready \<longrightarrow> tracker_initialized (ls_tracker l)))"

text \<open>What holds of the task's state when the loop goes on, has ended, or is in a connection.\<close>

definition next_ok :: "'r crates \<Rightarrow> loop_next \<Rightarrow> 'r loop_state \<Rightarrow> bool" where
  "next_ok x nx l =
    (snapshot_ok x (ls_store l) \<and>
     (unresolved False (ls_applied l) \<longrightarrow> tracker_status (ls_tracker l) \<noteq> Ready) \<and>
     (case nx of
        Continue \<Rightarrow> loop_ok x l \<and> tracker_status (ls_tracker l) \<noteq> Ready \<and>
          (tracker_initialized (ls_tracker l) \<longrightarrow> tracker_status (ls_tracker l) = Stale)
      | Finished \<Rightarrow> tracker_status (ls_tracker l) = Closed
      | Suspended \<Rightarrow> True))"

lemma set_stale_simps [simp]:
  "tracker_initialized (set_stale_if_initialized t) = tracker_initialized t"
  "tracker_initialized t \<Longrightarrow> tracker_status (set_stale_if_initialized t) = Stale"
  "\<not> tracker_initialized t \<Longrightarrow> set_stale_if_initialized t = t"
  by (simp_all add: set_stale_if_initialized_def)

lemma set_stale_not_ready:
  "(tracker_status t = Ready \<longrightarrow> tracker_initialized t) \<Longrightarrow> tracker_status (set_stale_if_initialized t) \<noteq> Ready"
  by (cases "tracker_initialized t") auto

lemma break_loop_ok: "loop_ok x l \<Longrightarrow> break_loop l = (nx, l') \<Longrightarrow> next_ok x nx l'"
  by (auto simp: break_loop_def next_ok_def loop_ok_def)

lemma pause_ok:
  assumes "loop_ok x l" and "pause opts e l = (nx, l')"
  shows "next_ok x nx l'"
proof -
  have nr: "tracker_status (set_stale_if_initialized (ls_tracker l)) \<noteq> Ready"
    by (rule set_stale_not_ready) (use assms(1) in \<open>simp add: loop_ok_def\<close>)
  define m where "m = l\<lparr>ls_tracker := set_stale_if_initialized (ls_tracker l),
    ls_retry := saturating_add (ls_retry l) 1, ls_delays := ls_delays l @ [reconnect_delay opts (ls_retry l) (le_jitter e)]\<rparr>"
  have m: "loop_ok x m" using assms(1) nr by (auto simp: loop_ok_def m_def)
  have "pause opts e l = (if le_stop_sleeping e then break_loop m else (Continue, m))"
    by (simp add: pause_def m_def)
  with assms(2) consider "break_loop m = (nx, l')" | "nx = Continue" "l' = m"
    by (cases "le_stop_sleeping e") simp_all
  then show ?thesis
  proof cases
    case 2
    have "tracker_status (ls_tracker m) \<noteq> Ready" using nr by (simp add: m_def)
    moreover have "tracker_initialized (ls_tracker m) \<longrightarrow> tracker_status (ls_tracker m) = Stale" by (simp add: m_def)
    moreover have "snapshot_ok x (ls_store m)" using m by (simp add: loop_ok_def)
    ultimately show ?thesis using 2 m by (simp add: next_ok_def)
  qed (rule break_loop_ok [OF m])
qed

lemma connected_ok:
  assumes "loop_ok x l" and "tracker_status (ls_tracker l) \<noteq> Ready"
    and "connected x opts e \<lparr>cs_store = ls_store l, cs_tracker = ls_tracker l, cs_awaiting = ls_force_full l,
      cs_sent = m, cs_applied = []\<rparr> l = (nx, l')"
  shows "next_ok x nx l'"
proof -
  define c where "c = \<lparr>cs_store = ls_store l, cs_tracker = ls_tracker l, cs_awaiting = ls_force_full l,
    cs_sent = m, cs_applied = []\<rparr>"
  obtain r c' where run: "run_connection x opts (le_events e) c = (r, c')" by fastforce
  have "conn_ok (ls_force_full l) c" using assms(2) by (simp add: conn_ok_def c_def)
  from run_connection_ok [OF this run] have e: "end_ok (ls_force_full l) r c'" .
  from run_connection_le [of x c opts "le_events e"] run have le: "conn_le x c c'" by simp
  then have st: "snapshot_ok x (cs_store c')"
      "tracker_status (cs_tracker c') = Ready \<longrightarrow> tracker_initialized (cs_tracker c')"
    using assms(1) by (simp_all add: conn_le_def c_def loop_ok_def)
  have un: "unresolved False (ls_applied l @ cs_applied c') = unresolved (ls_force_full l) (cs_applied c')"
    using assms(1) by (simp add: unresolved_append loop_ok_def)
  define q where "q force retry = l\<lparr>ls_store := cs_store c', ls_tracker := cs_tracker c',
    ls_sent := ls_sent l @ cs_sent c', ls_applied := ls_applied l @ cs_applied c',
    ls_retry := retry, ls_force_full := force\<rparr>" for force retry
  have q: "loop_ok x (q (unresolved (ls_force_full l) (cs_applied c')) retry)" for retry
    using st un by (simp add: loop_ok_def q_def)
  show ?thesis
  proof (cases r)
    case None
    with assms(3) e st un show ?thesis
      by (auto simp: connected_def run next_ok_def conn_ok_def simp flip: c_def)
  next
    case (Some ce)
    define retry where "retry = (if tracker_status (cs_tracker c') = Ready \<and>
      opt_keep_alive_interval opts \<le> le_elapsed e then 0 else ls_retry l)"
    have eq: "(case ce of
        Stopped \<Rightarrow> break_loop (q (ls_force_full l) retry)
      | Terminal code \<Rightarrow> break_loop (q (ls_force_full l) retry)
      | Reconnect \<Rightarrow> pause opts e (q False retry)
      | Resync \<Rightarrow> pause opts e (q True retry)) = (nx, l')"
      using assms(3) unfolding connected_def c_def [symmetric] run Some
      by (cases l) (auto simp: q_def retry_def Let_def break_loop_def split: connection_end.splits if_splits)
    have "next_ok x nx l'" if "break_loop (q (ls_force_full l) retry) = (nx, l')"
      using that st by (auto simp: break_loop_def next_ok_def q_def)
    with eq e q [of retry] show ?thesis by (cases ce) (auto simp: Some intro: pause_ok)
  qed
qed

lemma loop_step_ok:
  assumes "loop_ok x l" and "loop_step x uc opts e l = (nx, l')"
  shows "next_ok x nx l'"
proof -
  define l1 where "l1 = l\<lparr>ls_tracker := set_stale_if_initialized (ls_tracker l)\<rparr>"
  have nr: "tracker_status (ls_tracker l1) \<noteq> Ready"
    unfolding l1_def using assms(1) by (simp add: loop_ok_def set_stale_not_ready)
  with assms(1) have l1: "loop_ok x l1" by (auto simp: loop_ok_def l1_def)
  define c where "c = \<lparr>cs_store = ls_store l1, cs_tracker = ls_tracker l1, cs_awaiting = ls_force_full l1,
    cs_sent = [], cs_applied = []\<rparr>"
  from assms(2) consider "break_loop l = (nx, l')" | "break_loop l1 = (nx, l')" | "pause opts e l1 = (nx, l')"
    | v where "connected x opts e (c\<lparr>cs_sent := cs_sent c @ [v]\<rparr>) l1 = (nx, l')"
    unfolding loop_step_def l1_def [symmetric] c_def [symmetric] Let_def send_data_sync_def
    by (cases rule: send_on_cases [of "data_sync_request (if ls_force_full l1 then 0 else sn_version (ls_store l1))"
          "le_send_stop e" "le_send_write e" c])
      (auto split: if_splits sum.splits)
  then show ?thesis
  proof cases
    case (4 v)
    with l1 nr show ?thesis by (intro connected_ok [of x l1]) (simp_all add: c_def)
  qed (use assms(1) l1 in \<open>auto intro: break_loop_ok pause_ok\<close>)
qed

lemma run_sync_loop_ok:
  assumes "loop_ok x l" and "es \<noteq> []" and "run_sync_loop x uc opts es l = (nx, l')"
  shows "next_ok x nx l'"
  using assms
proof (induction es arbitrary: l)
  case (Cons e es)
  obtain nx1 l1 where step: "loop_step x uc opts e l = (nx1, l1)" by fastforce
  note ok = loop_step_ok [OF Cons.prems(1) step]
  show ?case
  proof (cases "nx1 = Continue \<and> es \<noteq> []")
    case True
    with ok have "loop_ok x l1" by (simp add: next_ok_def)
    with True Cons step show ?thesis by simp
  next
    case False
    with Cons.prems step ok show ?thesis by (cases nx1) auto
  qed
qed simp

lemma loop_start_ok: "snapshot_ok x s \<Longrightarrow> loop_ok x (loop_start s (tracker_new Starting False))"
  by (simp add: loop_ok_def loop_start_def)

section \<open>Requests and pauses of a round\<close>

lemma send_on_prefix: "prefix (cs_sent c) (cs_sent (snd (send_on m stop w c)))"
  by (cases rule: send_on_cases [of m stop w c]) simp_all

lemma connection_step_prefix:
  fixes c :: "'r conn_state"
  shows "prefix (cs_sent c) (cs_sent (snd (connection_step x opts ev c)))"
proof -
  have a: "prefix (cs_sent c) (cs_sent (snd (after_send c (send_on m stop w c))))" for m stop w
    by (cases rule: send_on_cases [of m stop w c]) (simp_all add: after_send_def)
  have "prefix (cs_sent d) (cs_sent (snd (handle_apply_result r stop w d)))" for r stop w and d :: "'r conn_state"
    by (cases rule: send_on_cases [of "data_sync_request 0" stop w d])
      (auto simp: handle_apply_result_def send_data_sync_def send_on_def Let_def
        split: apply_result.splits socket_send.splits prod.splits)
  moreover have "cs_sent (snd (apply_payload x payload c)) = cs_sent c" for payload
    by (simp add: apply_payload_def split: prod.splits)
  ultimately have h: "prefix (cs_sent c) (cs_sent (snd (handle_apply_result r stop w (snd (apply_payload x payload c)))))"
    for r stop w payload by metis
  have "prefix (cs_sent c) (cs_sent (snd (receive_data x opts payload stop w c)))" for payload stop w
    using h [of "fst (apply_payload x payload c)" stop w payload]
    by (simp add: receive_data_def case_prod_beta)
  with a show ?thesis
    by (simp add: connection_step_def Let_def split: conn_event.splits incoming.splits message.splits)
qed

lemma run_connection_prefix: "prefix (cs_sent c) (cs_sent (snd (run_connection x opts evs c)))"
proof (induction evs arbitrary: c)
  case (Cons ev evs)
  obtain r c' where step: "connection_step x opts ev c = (r, c')" by fastforce
  then have "prefix (cs_sent c) (cs_sent c')" using connection_step_prefix [of c x opts ev] by simp
  with Cons.IH [of c'] step show ?case by (cases r) (auto intro: prefix_order.trans)
qed simp

lemma break_pause_sent [simp]:
  "ls_sent (snd (break_loop l)) = ls_sent l" "ls_sent (snd (pause opts e l)) = ls_sent l"
  by (simp_all add: break_loop_def pause_def Let_def)

lemma connected_sent:
  "ls_sent (snd (connected x opts e c l)) = ls_sent l @ cs_sent (snd (run_connection x opts (le_events e) c))"
  by (cases "run_connection x opts (le_events e) c")
    (auto simp: connected_def Let_def break_pause_sent [simplified prod.case_eq_if] break_loop_def
      split: option.splits connection_end.splits)

text \<open>The session of a round in which nothing keeps it from opening.\<close>

lemma loop_step_opens:
  assumes "\<not> le_stop_at_top e" and "\<not> le_stop_connecting e" and "\<not> le_send_stop e" and "le_send_write e = Written"
    and "connect uc opts (le_start e) (le_now e) (le_request_error e) (le_header_error e) (le_net e) = Inr ()"
  shows "loop_step x uc opts e l = connected x opts e
    \<lparr>cs_store = ls_store l, cs_tracker = set_stale_if_initialized (ls_tracker l), cs_awaiting = ls_force_full l,
     cs_sent = [data_sync_request (if ls_force_full l then 0 else sn_version (ls_store l))], cs_applied = []\<rparr>
    (l\<lparr>ls_tracker := set_stale_if_initialized (ls_tracker l)\<rparr>)"
  using assms by (simp add: loop_step_def send_data_sync_def send_on_def send_socket_message_def Let_def)

lemma loop_step_sent:
  assumes "\<not> le_stop_at_top e" and "\<not> le_stop_connecting e" and "\<not> le_send_stop e" and "le_send_write e = Written"
    and "connect uc opts (le_start e) (le_now e) (le_request_error e) (le_header_error e) (le_net e) = Inr ()"
  shows "\<exists>rest. ls_sent (snd (loop_step x uc opts e l)) =
    ls_sent l @ data_sync_request (if ls_force_full l then 0 else sn_version (ls_store l)) # rest"
proof -
  define c where "c = \<lparr>cs_store = ls_store l, cs_tracker = set_stale_if_initialized (ls_tracker l), cs_awaiting = ls_force_full l,
    cs_sent = [data_sync_request (if ls_force_full l then 0 else sn_version (ls_store l))], cs_applied = []\<rparr>"
  have "prefix (cs_sent c) (cs_sent (snd (run_connection x opts (le_events e) c)))" by (rule run_connection_prefix)
  then show ?thesis
    unfolding loop_step_opens [OF assms] connected_sent c_def [symmetric] by (auto simp: c_def elim: prefixE)
qed

lemma loop_step_pause:
  fixes l l' :: "'r loop_state"
  assumes "loop_step x uc opts e l = (Continue, l')"
  shows "\<exists>retry. (retry = ls_retry l \<or> opt_keep_alive_interval opts \<le> le_elapsed e) \<and>
    ls_retry l' = saturating_add retry 1 \<and>
    ls_delays l' = ls_delays l @ [reconnect_delay opts retry (le_jitter e)]"
proof -
  define l1 where "l1 = l\<lparr>ls_tracker := set_stale_if_initialized (ls_tracker l)\<rparr>"
  have l1: "ls_retry l1 = ls_retry l" "ls_delays l1 = ls_delays l" by (simp_all add: l1_def)
  have p: "ls_retry q' = saturating_add (ls_retry q) 1 \<and>
      ls_delays q' = ls_delays q @ [reconnect_delay opts (ls_retry q) (le_jitter e)]"
    if "pause opts e q = (Continue, q')" for q q' :: "'r loop_state"
    using that by (auto simp: pause_def Let_def break_loop_def split: if_splits)
  have b: "break_loop q \<noteq> (Continue, l')" for q by (simp add: break_loop_def)
  from assms consider "pause opts e l1 = (Continue, l')" | c where "connected x opts e c l1 = (Continue, l')"
    unfolding loop_step_def l1_def [symmetric] by (auto simp: b Let_def split: if_splits sum.splits prod.splits socket_send.splits)
  then show ?thesis
  proof cases
    case (2 c)
    then obtain q where "pause opts e q = (Continue, l')" "ls_delays q = ls_delays l1"
      "ls_retry q = ls_retry l1 \<or> opt_keep_alive_interval opts \<le> le_elapsed e"
      by (auto simp: connected_def Let_def b split: prod.splits option.splits connection_end.splits if_splits)
    with p [of q l'] l1 show ?thesis by auto
  qed (use p [of l1 l'] l1 in auto)
qed

section \<open>Properties\<close>

definition sync_run ::
  "'r crates \<Rightarrow> 'u url_crate \<Rightarrow> ('u, 'o) fb_options \<Rightarrow> loop_env list \<Rightarrow> loop_next \<times> 'r loop_state" where
  "sync_run x uc opts es = run_sync_loop x uc opts es (loop_start store_new (tracker_new Starting False))"

lemma sync_run_ok: "es \<noteq> [] \<Longrightarrow> sync_run x uc opts es = (nx, l) \<Longrightarrow> next_ok x nx l"
  unfolding sync_run_def by (rule run_sync_loop_ok [OF loop_start_ok [OF store_new_ok]])

text \<open>
  C19. Data is never called ready while a version conflict is unresolved: at the end of any
  run of the synchronizer, whatever the environment did, a conflict that no full data set has
  followed leaves the status other than Ready, and the store still satisfies its invariant.
\<close>

theorem unresolved_conflict_is_never_ready:
  "snapshot_ok x (ls_store (snd (sync_run x uc opts es))) \<and>
    \<not> (unresolved False (ls_applied (snd (sync_run x uc opts es))) \<and>
       tracker_status (ls_tracker (snd (sync_run x uc opts es))) = Ready)"
proof (cases "es = []")
  case True
  then show ?thesis by (simp add: sync_run_def loop_start_def store_new_ok)
next
  case False
  then show ?thesis
    using sync_run_ok [OF False, of x uc opts "fst (sync_run x uc opts es)" "snd (sync_run x uc opts es)"]
    by (auto simp: next_ok_def)
qed

text \<open>
  Between two connections nothing is called ready, and data that was ever synchronized
  is called stale; once the task has ended the status is Closed.
\<close>

theorem status_between_connections:
  assumes "es \<noteq> []" and "sync_run x uc opts es = (nx, l)"
  shows "(case nx of
      Continue \<Rightarrow> tracker_status (ls_tracker l) = (if tracker_initialized (ls_tracker l) then Stale
        else tracker_status (ls_tracker l)) \<and> tracker_status (ls_tracker l) \<noteq> Ready
    | Finished \<Rightarrow> tracker_status (ls_tracker l) = Closed
    | Suspended \<Rightarrow> tracker_status (ls_tracker l) \<noteq> Ready \<or> \<not> unresolved False (ls_applied l))"
  using sync_run_ok [OF assms] by (auto simp: next_ok_def split: loop_next.splits)

lemma unhealthy_pauses:
  assumes "\<forall>e \<in> set es. le_elapsed e < opt_keep_alive_interval opts"
    and "run_sync_loop x uc opts es l = (Continue, l')" and "unat (ls_retry l) + length es \<le> usize_max"
  shows "ls_delays l' = ls_delays l @
    map (\<lambda>(i, e). reconnect_delay opts (ls_retry l + word_of_nat i) (le_jitter e)) (List.enumerate 0 es)"
  using assms
proof (induction es arbitrary: l)
  case (Cons e es)
  obtain nx l1 where step: "loop_step x uc opts e l = (nx, l1)" by fastforce
  with Cons.prems(2) have nx: "nx = Continue" by (cases nx) auto
  from loop_step_pause [OF step [unfolded nx]] Cons.prems(1)
  have l1: "ls_retry l1 = saturating_add (ls_retry l) 1"
    "ls_delays l1 = ls_delays l @ [reconnect_delay opts (ls_retry l) (le_jitter e)]"
    by auto
  have add: "saturating_add (ls_retry l) 1 = ls_retry l + 1"
    using Cons.prems(3) by (simp add: saturating_add_def)
  have fits: "unat (ls_retry l + 1) = unat (ls_retry l) + 1"
    using Cons.prems(3) by (subst unat_add_fits) auto
  have rest: "ls_delays l' = ls_delays l1 @
      map (\<lambda>(i, e). reconnect_delay opts (ls_retry l1 + word_of_nat i) (le_jitter e)) (List.enumerate 0 es)"
    using Cons.prems step nx by (intro Cons.IH) (auto simp: l1 add fits)
  have "map (\<lambda>(i, e). reconnect_delay opts (ls_retry l1 + word_of_nat i) (le_jitter e)) (List.enumerate 0 es) =
      map (\<lambda>(i, e). reconnect_delay opts (ls_retry l + word_of_nat i) (le_jitter e)) (List.enumerate 1 es)"
    by (rule nth_equalityI) (auto simp: nth_enumerate_eq l1 add algebra_simps)
  with rest show ?case by (simp add: l1)
qed simp

text \<open>
  C40. Sessions that do not outlive the keep-alive interval never reset the backoff: over any
  run of them the pauses are the configured ones of consecutive attempts.
\<close>

theorem unhealthy_sessions_back_off:
  assumes "\<forall>e \<in> set es. le_elapsed e < opt_keep_alive_interval opts" and "length es \<le> usize_max"
    and "sync_run x uc opts es = (Continue, l)"
  shows "ls_delays l = map (\<lambda>(i, e). reconnect_delay opts (word_of_nat i) (le_jitter e)) (List.enumerate 0 es)"
  using unhealthy_pauses [OF assms(1) assms(3) [unfolded sync_run_def]] assms(2) by (simp add: loop_start_def)

text \<open>
  A message larger than the configured limit is never applied: the connection ends and
  store and status stay as they are.
\<close>

theorem oversized_messages_are_dropped:
  assumes "unat (opt_max_ws_message_size opts) < length payload"
    and "m = TextMsg payload \<or> m = BinaryMsg payload"
  shows "connection_step x opts (Incoming (Received m) stop w) c = (Some (reconnect_end (cs_awaiting c)), c)"
  using assms by (auto simp: connection_step_def receive_data_def)

text \<open>
  The server can end synchronization for good with close code 4003, and with nothing
  else: the task then ends, and any other close, error or end of stream leads to another
  connection.
\<close>

theorem close_4003_is_terminal:
  "connection_step x opts (Incoming i stop w) c = (Some (Terminal code), c') \<longleftrightarrow>
    i = Received (CloseMsg (Some 4003)) \<and> code = 4003 \<and> c' = c"
  by (auto simp: connection_step_def receive_data_def handle_apply_result_def send_data_sync_def after_send_def
      reconnect_end_def Let_def split: incoming.splits message.splits option.splits if_splits prod.splits
      socket_send.splits apply_result.splits)

section \<open>Witnesses\<close>

definition failing_round :: loop_env where
  "failing_round =
    \<lparr>le_stop_at_top = False, le_stop_connecting = False, le_start = 2, le_now = 0, le_request_error = None,
     le_header_error = None, le_net = NetError, le_send_stop = False, le_send_write = Written, le_events = [],
     le_elapsed = 0, le_jitter = 100, le_stop_sleeping = False\<rparr>"

lemma connect_net_error: "\<exists>e. connect uc opts a b None None NetError = Inl e"
  by (simp add: connect_def split: sum.splits)

lemma failing_round_step: "fst (loop_step x uc opts failing_round l) = Continue"
  using connect_net_error [of uc opts 2 0] by (auto simp: loop_step_def failing_round_def pause_def Let_def)

lemma failing_rounds: "fst (sync_run x uc opts (replicate n failing_round)) = Continue"
proof -
  have "fst (run_sync_loop x uc opts (replicate n failing_round) l) = Continue" for l
  proof (induction n arbitrary: l)
    case (Suc n)
    then show ?case using failing_round_step [of x uc opts l]
      by (cases "loop_step x uc opts failing_round l") simp
  qed simp
  then show ?thesis by (simp add: sync_run_def)
qed

lemma failing_rounds_run: "\<exists>l. sync_run x uc opts (replicate n failing_round) = (Continue, l)"
  using failing_rounds [of x uc opts n] by (cases "sync_run x uc opts (replicate n failing_round)") auto

theorem status_between_connections_witness:
  "\<exists>(opts :: (str, unit) fb_options) l. sync_run sample_crates sample_url_crate opts [failing_round] = (Continue, l) \<and>
    tracker_status (ls_tracker l) \<noteq> Ready"
proof -
  obtain opts :: "(str, unit) fb_options" where "options_ok sample_url_crate opts"
    using sample_options by blast
  obtain l where l: "sync_run sample_crates sample_url_crate opts [failing_round] = (Continue, l)"
    using failing_rounds_run [of sample_crates sample_url_crate opts 1] by auto
  from status_between_connections [OF _ l] l show ?thesis by auto
qed

theorem unhealthy_sessions_back_off_witness:
  "\<exists>(opts :: (str, unit) fb_options) l.
    sync_run sample_crates sample_url_crate opts [failing_round, failing_round] = (Continue, l) \<and>
    ls_delays l = [reconnect_delay opts 0 100, reconnect_delay opts 1 100]"
proof -
  obtain opts :: "(str, unit) fb_options" where o: "options_ok sample_url_crate opts" using sample_options by blast
  obtain l where l: "sync_run sample_crates sample_url_crate opts [failing_round, failing_round] = (Continue, l)"
    using failing_rounds_run [of sample_crates sample_url_crate opts 2] by (auto simp: numeral_2_eq_2)
  have "0 < opt_keep_alive_interval opts" using o by (simp add: options_ok_def duration_ok_def)
  with unhealthy_sessions_back_off [OF _ _ l] have
    "ls_delays l = [reconnect_delay opts 0 100, reconnect_delay opts 1 100]"
    by (simp add: failing_round_def usize_max_def)
  with l show ?thesis by blast
qed

theorem oversized_messages_are_dropped_witness:
  "\<exists>(opts :: (str, unit) fb_options) c.
    connection_step sample_crates opts (Incoming (Received (TextMsg (replicate (Suc (unat (opt_max_ws_message_size opts)))
      (CHR ''x'')))) False Written) c = (Some (reconnect_end (cs_awaiting c)), c)"
proof -
  obtain opts :: "(str, unit) fb_options" where "options_ok sample_url_crate opts"
    using sample_options by blast
  have "unat (opt_max_ws_message_size opts) < length (replicate (Suc (unat (opt_max_ws_message_size opts))) (CHR ''x''))"
    by simp
  from oversized_messages_are_dropped [OF this] show ?thesis by blast
qed

end
