(* ===== verification/Worker.thy ===== *)
theory Worker
  imports Prelude
begin

text \<open>
  \<^verbatim>\<open>src/worker.rs\<close>: a background thread with a completion flag that its owner can wait
  for with a timeout. The flag is raised by a guard dropped when the thread's function returns
  or unwinds. What the scheduler does is an argument: whether the thread completes before the
  timeout, and whether joining it reports a panic.
\<close>

datatype worker_wait = WaitCompleted | WaitPanicked | WaitTimeout

record worker_thread =
  wt_completed :: bool
  wt_has_handle :: bool

text \<open>\<^verbatim>\<open>spawn\<close>: \<^const>\<open>Inl\<close> when the operating system refuses the thread.\<close>

definition worker_spawn :: "str option \<Rightarrow> str + worker_thread" where
  "worker_spawn spawn_error =
    (case spawn_error of
       Some e \<Rightarrow> Inl e
     | None \<Rightarrow> Inr \<lparr>wt_completed = False, wt_has_handle = True\<rparr>)"

text \<open>The drop of \<^verbatim>\<open>CompletionSignal\<close>.\<close>

definition completion_signal :: "worker_thread \<Rightarrow> worker_thread" where
  "completion_signal w = w\<lparr>wt_completed := True\<rparr>"

definition worker_wait :: "bool \<Rightarrow> bool \<Rightarrow> worker_thread \<Rightarrow> worker_wait \<times> worker_thread" where
  "worker_wait completes_in_time join_ok w =
    (let w1 = (if \<not> wt_completed w \<and> completes_in_time then completion_signal w else w)
     in if \<not> wt_completed w1 then (WaitTimeout, w1)
        else if \<not> wt_has_handle w1 then (WaitCompleted, w1)
        else (if join_ok then WaitCompleted else WaitPanicked, w1\<lparr>wt_has_handle := False\<rparr>))"

datatype worker_drop = DropNoHandle | DropJoined | DropPanicked | DropStillStopping

definition worker_drop :: "bool \<Rightarrow> bool \<Rightarrow> worker_thread \<Rightarrow> worker_drop" where
  "worker_drop finished join_ok w =
    (if \<not> wt_has_handle w then DropNoHandle
     else if finished then (if join_ok then DropJoined else DropPanicked)
     else DropStillStopping)"

lemma worker_wait_completed:
  "worker_wait f j w = (r, w') \<Longrightarrow> wt_completed w' = (r \<noteq> WaitTimeout) \<and> (wt_completed w \<longrightarrow> r \<noteq> WaitTimeout)"
  by (auto simp: worker_wait_def completion_signal_def Let_def split: if_splits)

text \<open>A thread is joined at most once, and its panic is reported at most once.\<close>

lemma worker_wait_twice:
  assumes "worker_wait f j w = (r, w')" and "r \<noteq> WaitTimeout"
  shows "worker_wait f' j' w' = (WaitCompleted, w')"
  using assms by (auto simp: worker_wait_def completion_signal_def Let_def split: if_splits)

end
