(* ===== verification/Data_Sync.thy ===== *)
theory Data_Sync
  imports Connection Worker
begin

text \<open>
  \<^verbatim>\<open>src/data_sync.rs\<close>: the handle of the synchronizer's thread, its start and its close.
  The status is shared with the thread; a guard in the thread sets it to Closed when the thread
  ends, however it ends.
\<close>

record synchronizer =
  sy_stop :: bool
  sy_worker :: worker_thread
  sy_tracker :: status_tracker
  sy_close_timeout :: duration
  sy_closed :: bool
  sy_close_complete :: bool

text \<open>The thread's function: the runtime may fail to start, the task may end or unwind.\<close>

definition sync_worker_body :: "bool \<Rightarrow> (status_tracker \<Rightarrow> status_tracker) \<Rightarrow> status_tracker \<Rightarrow> status_tracker" where
  "sync_worker_body runtime_ok task t =
    (let t1 = (if runtime_ok then task t else tracker_set Closed t) in tracker_set Closed t1)"

definition synchronizer_start ::
  "('u, 'o) fb_options \<Rightarrow> str option \<Rightarrow> status_tracker \<Rightarrow> synchronizer option \<times> status_tracker" where
  "synchronizer_start opts spawn_error t =
    (case worker_spawn spawn_error of
       Inr w \<Rightarrow>
         (Some \<lparr>sy_stop = False, sy_worker = w, sy_tracker = t, sy_close_timeout = opt_close_timeout opts,
            sy_closed = False, sy_close_complete = False\<rparr>, t)
     | Inl e \<Rightarrow> (None, tracker_set Closed t))"

definition synchronizer_wait :: "bool \<Rightarrow> bool \<Rightarrow> synchronizer \<Rightarrow> synchronizer" where
  "synchronizer_wait completes join_ok s =
    s\<lparr>sy_worker := snd (worker_wait completes join_ok (sy_worker s)),
      sy_tracker := tracker_set Closed (sy_tracker s)\<rparr>"

definition synchronizer_close :: "bool \<Rightarrow> bool \<Rightarrow> synchronizer \<Rightarrow> synchronizer" where
  "synchronizer_close completes join_ok s =
    (if sy_closed s then
       (if \<not> sy_close_complete s then synchronizer_wait completes join_ok s else s)
     else
       (let s1 = s\<lparr>sy_closed := True, sy_stop := True\<rparr>;
            s2 = synchronizer_wait completes join_ok s1
        in s2\<lparr>sy_close_complete := True\<rparr>))"

definition synchronizer_ok :: "synchronizer \<Rightarrow> bool" where
  "synchronizer_ok s =
    ((sy_closed s \<longrightarrow> sy_stop s) \<and> (sy_close_complete s \<longrightarrow> sy_closed s \<and> tracker_status (sy_tracker s) = Closed))"

lemma synchronizer_start_ok: "synchronizer_start opts err t = (Some s, t') \<Longrightarrow> synchronizer_ok s"
  by (auto simp: synchronizer_start_def synchronizer_ok_def split: sum.splits)

text \<open>
  Closing is final and idempotent: after a close the stop signal is given and the status
  is Closed, the client's record of having been initialized is kept, and closing again changes
  nothing.
\<close>

theorem close_is_final:
  assumes "synchronizer_ok s"
  shows "sy_stop (synchronizer_close f j s) \<and> tracker_status (sy_tracker (synchronizer_close f j s)) = Closed \<and>
    tracker_initialized (sy_tracker (synchronizer_close f j s)) = tracker_initialized (sy_tracker s) \<and>
    synchronizer_ok (synchronizer_close f j s) \<and>
    synchronizer_close f' j' (synchronizer_close f j (s\<lparr>sy_closed := False\<rparr>)) = synchronizer_close f j (s\<lparr>sy_closed := False\<rparr>)"
  using assms by (auto simp: synchronizer_close_def synchronizer_wait_def synchronizer_ok_def Let_def)

theorem close_is_final_witness:
  "tracker_status (sy_tracker (synchronizer_close False False
    \<lparr>sy_stop = False, sy_worker = \<lparr>wt_completed = False, wt_has_handle = True\<rparr>, sy_tracker = tracker_new Ready True,
     sy_close_timeout = 1, sy_closed = False, sy_close_complete = False\<rparr>)) = Closed"
  by (rule close_is_final [THEN conjunct2, THEN conjunct1]) (simp add: synchronizer_ok_def)

end
