(* ===== verification/Payload.thy ===== *)
theory Payload
  imports Options
begin

text \<open>
  \<^verbatim>\<open>src/events/payload.rs\<close>: the captured evaluation, the two kinds of analytics payloads,
  their JSON form, their timestamps, and the size that is charged against the memory budget.
  The sizes of the compiler's layouts are the functions of a record; a
  \<^verbatim>\<open>SystemTime\<close> is its distance from the Unix epoch in nanoseconds.
\<close>

section \<open>Captured evaluations\<close>

type_synonym system_time = int

record fb_evaluation_event =
  ev_flag_key :: str
  ev_variation_id :: str
  ev_variation_value :: str
  ev_timestamp :: system_time
  ev_insights_enabled :: bool

definition evaluation_event_at :: "str \<Rightarrow> str \<Rightarrow> str \<Rightarrow> system_time \<Rightarrow> bool \<Rightarrow> fb_evaluation_event" where
  "evaluation_event_at flag_key variation_id variation_value timestamp insights_enabled =
    \<lparr>ev_flag_key = flag_key, ev_variation_id = variation_id, ev_variation_value = variation_value,
     ev_timestamp = timestamp, ev_insights_enabled = insights_enabled\<rparr>"

definition evaluation_event_new :: "str \<Rightarrow> str \<Rightarrow> str \<Rightarrow> bool \<Rightarrow> system_time \<Rightarrow> fb_evaluation_event" where
  "evaluation_event_new flag_key variation_id variation_value insights_enabled now =
    evaluation_event_at flag_key variation_id variation_value now insights_enabled"

definition evaluation_event_debug :: "fb_evaluation_event \<Rightarrow> (system_time \<Rightarrow> str) \<Rightarrow> debug_value" where
  "evaluation_event_debug e show_time =
    DStruct ''FbEvaluationEvent''
      [(''flag_key'', DStr (ev_flag_key e)), (''variation_id'', DStr (ev_variation_id e)),
       (''variation_value'', DStr ''[REDACTED]''), (''timestamp'', DRaw (show_time (ev_timestamp e))),
       (''insights_enabled'', DBool (ev_insights_enabled e))]"

section \<open>Payloads\<close>

record customized_property =
  cp_name :: str
  cp_value :: str

record event_user =
  eu_key_id :: str
  eu_name :: str
  eu_properties :: "customized_property list"

record event_variation =
  evv_id :: str
  evv_value :: str

record evaluation_variation =
  evn_flag_key :: str
  evn_variation :: event_variation
  evn_timestamp :: int

record evaluation_payload =
  ep_user :: event_user
  ep_variations :: "evaluation_variation list"

record metric =
  mt_app_type :: str
  mt_route :: str
  mt_event_type :: str
  mt_event_name :: str
  mt_numeric_value :: f64
  mt_timestamp :: int

record metric_payload =
  mp_user :: event_user
  mp_metrics :: "metric list"

datatype payload_event = Evaluation evaluation_payload | MetricEvent metric_payload

definition event_user_from :: "fb_user \<Rightarrow> event_user" where
  "event_user_from u =
    \<lparr>eu_key_id = u_key u, eu_name = u_name u,
     eu_properties = map (\<lambda>(n, v). \<lparr>cp_name = n, cp_value = v\<rparr>) (u_custom u)\<rparr>"

definition as_millis :: "nat \<Rightarrow> nat" where
  "as_millis nanos = nanos div 10 ^ 6"

definition i64_try_from :: "nat \<Rightarrow> int" where
  "i64_try_from n = (if int n \<le> i64_max then int n else i64_max)"

definition unix_millis :: "system_time \<Rightarrow> int" where
  "unix_millis t =
    (if 0 \<le> t then i64_try_from (as_millis (nat t)) else - i64_try_from (as_millis (nat (- t))))"

definition payload_evaluation_at :: "fb_user \<Rightarrow> str \<Rightarrow> str \<Rightarrow> str \<Rightarrow> system_time \<Rightarrow> payload_event" where
  "payload_evaluation_at u flag_key variation_id variation_value timestamp =
    Evaluation
      \<lparr>ep_user = event_user_from u,
       ep_variations =
         [\<lparr>evn_flag_key = flag_key,
           evn_variation = \<lparr>evv_id = variation_id, evv_value = variation_value\<rparr>,
           evn_timestamp = unix_millis timestamp\<rparr>]\<rparr>"

definition payload_metric :: "fb_user \<Rightarrow> str \<Rightarrow> f64 \<Rightarrow> int \<Rightarrow> payload_event" where
  "payload_metric u event_name numeric_value now_millis =
    MetricEvent
      \<lparr>mp_user = event_user_from u,
       mp_metrics =
         [\<lparr>mt_app_type = ''rust-server-side'', mt_route = ''index/metric'', mt_event_type = ''CustomEvent'',
           mt_event_name = event_name, mt_numeric_value = numeric_value, mt_timestamp = now_millis\<rparr>]\<rparr>"

section \<open>JSON\<close>

definition json_i64 :: "int \<Rightarrow> json" where
  "json_i64 i = JNum (if 0 \<le> i then PosInt (nat i) else NegInt i)"

text \<open>serde writes a number that is not finite as \<^verbatim>\<open>null\<close>.\<close>

definition json_f64 :: "f64 \<Rightarrow> json" where
  "json_f64 v = (if f64_is_finite v then JNum (Float v) else JNull)"

definition json_property :: "customized_property \<Rightarrow> json" where
  "json_property p = JObj [(''name'', JStr (cp_name p)), (''value'', JStr (cp_value p))]"

definition json_event_user :: "event_user \<Rightarrow> json" where
  "json_event_user u =
    JObj [(''keyId'', JStr (eu_key_id u)), (''name'', JStr (eu_name u)),
      (''customizedProperties'', JArr (map json_property (eu_properties u)))]"

definition json_event_variation :: "event_variation \<Rightarrow> json" where
  "json_event_variation v = JObj [(''id'', JStr (evv_id v)), (''value'', JStr (evv_value v))]"

definition json_evaluation_variation :: "evaluation_variation \<Rightarrow> json" where
  "json_evaluation_variation v =
    JObj [(''featureFlagKey'', JStr (evn_flag_key v)), (''variation'', json_event_variation (evn_variation v)),
      (''timestamp'', json_i64 (evn_timestamp v))]"

definition json_metric :: "metric \<Rightarrow> json" where
  "json_metric m =
    JObj [(''appType'', JStr (mt_app_type m)), (''route'', JStr (mt_route m)), (''type'', JStr (mt_event_type m)),
      (''eventName'', JStr (mt_event_name m)), (''numericValue'', json_f64 (mt_numeric_value m)),
      (''timestamp'', json_i64 (mt_timestamp m))]"

fun json_payload :: "payload_event \<Rightarrow> json" where
  "json_payload (Evaluation p) =
    JObj [(''user'', json_event_user (ep_user p)), (''variations'', JArr (map json_evaluation_variation (ep_variations p)))]"
| "json_payload (MetricEvent p) =
    JObj [(''user'', json_event_user (mp_user p)), (''metrics'', JArr (map json_metric (mp_metrics p)))]"

section \<open>Sizes\<close>

record layout =
  size_of_payload_event :: usize
  size_of_evaluation_variation :: usize
  size_of_metric :: usize
  size_of_customized_property :: usize
  size_of_event_admission :: usize

abbreviation sat_sum :: "usize list \<Rightarrow> usize" where
  "sat_sum ns \<equiv> foldl saturating_add 0 ns"

definition estimated_user_size :: "layout \<Rightarrow> fb_user \<Rightarrow> usize" where
  "estimated_user_size ly u =
    saturating_add
      (saturating_add
        (saturating_add (usize_len (u_key u)) (usize_len (u_name u)))
        (saturating_mul (usize_len (u_custom u)) (size_of_customized_property ly)))
      (sat_sum (map (\<lambda>(n, v). saturating_add (usize_len n) (usize_len v)) (u_custom u)))"

definition estimated_evaluation_size :: "layout \<Rightarrow> fb_user \<Rightarrow> str \<Rightarrow> str \<Rightarrow> str \<Rightarrow> usize" where
  "estimated_evaluation_size ly u flag_key variation_id variation_value =
    foldl saturating_add (estimated_user_size ly u)
      [size_of_payload_event ly, size_of_evaluation_variation ly, usize_len flag_key, usize_len variation_id,
       usize_len variation_value]"

definition estimated_metric_size :: "layout \<Rightarrow> fb_user \<Rightarrow> str \<Rightarrow> usize" where
  "estimated_metric_size ly u event_name =
    foldl saturating_add (estimated_user_size ly u)
      [size_of_payload_event ly, size_of_metric ly, usize_len event_name]"

text \<open>
  What a payload retains: the capacity of a string made by \<^verbatim>\<open>to_owned\<close> or
  \<^verbatim>\<open>clone\<close>, and of a vector collected or built with \<^verbatim>\<open>vec!\<close>, is its length.
\<close>

definition retained_user_size :: "layout \<Rightarrow> event_user \<Rightarrow> usize" where
  "retained_user_size ly u =
    saturating_add
      (saturating_add
        (saturating_add (usize_len (eu_key_id u)) (usize_len (eu_name u)))
        (saturating_mul (usize_len (eu_properties u)) (size_of_customized_property ly)))
      (sat_sum (map (\<lambda>p. saturating_add (usize_len (cp_name p)) (usize_len (cp_value p))) (eu_properties u)))"

fun retained_size :: "layout \<Rightarrow> payload_event \<Rightarrow> usize" where
  "retained_size ly (Evaluation p) =
    saturating_add
      (saturating_add
        (saturating_add (retained_user_size ly (ep_user p)) (size_of_payload_event ly))
        (saturating_mul (usize_len (ep_variations p)) (size_of_evaluation_variation ly)))
      (sat_sum (map
        (\<lambda>v. saturating_add (saturating_add (usize_len (evn_flag_key v)) (usize_len (evv_id (evn_variation v))))
           (usize_len (evv_value (evn_variation v))))
        (ep_variations p)))"
| "retained_size ly (MetricEvent p) =
    saturating_add
      (saturating_add
        (saturating_add (retained_user_size ly (mp_user p)) (size_of_payload_event ly))
        (saturating_mul (usize_len (mp_metrics p)) (size_of_metric ly)))
      (sat_sum (map (\<lambda>m. usize_len (mt_event_name m)) (mp_metrics p)))"

section \<open>Lemmas\<close>

lemma saturating_add_0 [simp]: "saturating_add 0 a = a" "saturating_add a 0 = a"
  by (simp_all add: saturating_add_def)

lemma saturating_mul_1 [simp]: "saturating_mul 1 a = a"
  by (simp add: saturating_mul_def)

lemma saturating_add_assoc: "saturating_add (saturating_add a b) c = saturating_add a (saturating_add b c)"
  by (simp add: word_unat_eq_iff unat_saturating_add min_def)

lemma usize_len_1 [simp]: "usize_len [x] = 1"
  by (simp add: usize_len_def)

lemma estimated_user_size_retained: "estimated_user_size ly u = retained_user_size ly (event_user_from u)"
  by (simp add: estimated_user_size_def retained_user_size_def event_user_from_def usize_len_def comp_def split_def)

lemma i64_try_from_range: "0 \<le> i64_try_from n \<and> i64_try_from n \<le> i64_max"
  by (simp add: i64_try_from_def i64_max_def)

lemma i64_try_from_mono: "m \<le> n \<Longrightarrow> i64_try_from m \<le> i64_try_from n"
  by (simp add: i64_try_from_def)

section \<open>Properties\<close>

text \<open>
  The size charged for an event before it is built is exactly the size of the payload
  that is then built, for every layout and whatever the arithmetic saturates at.
\<close>

theorem charged_size_is_retained_size:
  "estimated_evaluation_size ly u flag_key variation_id variation_value =
     retained_size ly (payload_evaluation_at u flag_key variation_id variation_value timestamp) \<and>
   estimated_metric_size ly u event_name = retained_size ly (payload_metric u event_name v now)"
  by (simp add: estimated_evaluation_size_def estimated_metric_size_def payload_evaluation_at_def payload_metric_def
      estimated_user_size_retained saturating_add_assoc)

text \<open>
  The timestamp of an event never overflows and never decreases when time goes forward,
  before the epoch, across it, and where it is clamped to the range of an \<^verbatim>\<open>i64\<close>.
\<close>

theorem unix_millis_monotone:
  assumes "t \<le> t'"
  shows "is_i64 (unix_millis t) \<and> unix_millis t \<le> unix_millis t'"
proof -
  note r = i64_try_from_range [of "as_millis (nat t)"] i64_try_from_range [of "as_millis (nat (- t))"]
    i64_try_from_range [of "as_millis (nat t')"]
  have "as_millis (nat t) \<le> as_millis (nat t')" "as_millis (nat (- t')) \<le> as_millis (nat (- t))"
    using assms by (simp_all add: as_millis_def div_le_mono nat_mono)
  then have "i64_try_from (as_millis (nat t)) \<le> i64_try_from (as_millis (nat t'))"
    "i64_try_from (as_millis (nat (- t'))) \<le> i64_try_from (as_millis (nat (- t)))"
    by (auto intro: i64_try_from_mono)
  with assms r show ?thesis by (auto simp: unix_millis_def is_i64_def i64_min_def i64_max_def)
qed

theorem unix_millis_monotone_witness: "is_i64 (unix_millis (- 1)) \<and> unix_millis (- 1) \<le> unix_millis 5"
  by (rule unix_millis_monotone) simp

end
