(* ===== verification/Capacity.thy ===== *)
theory Capacity
  imports Prelude "HOL-Library.Multiset"
begin

text \<open>
  The capacity accounting of \<^verbatim>\<open>src/events.rs\<close>: two atomic counters, of queued events and
  of retained bytes, that any number of threads reserve from with a compare-exchange loop and
  release to when an event leaves the queue or is dropped. The atomic operations are the steps
  of a transition system, so every interleaving of the threads is a path of it.
\<close>

section \<open>The operations\<close>

record event_capacity =
  cap_max_queued_events :: usize
  cap_max_retained_bytes :: usize
  cap_queued_events :: usize
  cap_retained_bytes :: usize

definition capacity_new :: "usize \<Rightarrow> usize \<Rightarrow> event_capacity" where
  "capacity_new max_queued_events max_retained_bytes =
    \<lparr>cap_max_queued_events = max_queued_events, cap_max_retained_bytes = max_retained_bytes,
     cap_queued_events = 0, cap_retained_bytes = 0\<rparr>"

text \<open>One turn of the loop: the value to exchange \<open>current\<close> for, or a refusal.\<close>

definition counter_next :: "usize \<Rightarrow> usize \<Rightarrow> usize \<Rightarrow> usize option" where
  "counter_next maximum amount current =
    (case checked_add current amount of
       None \<Rightarrow> None
     | Some n \<Rightarrow> if maximum < n then None else Some n)"

text \<open>
  The loop, given what each compare-exchange meets: it swaps, or it yields the value observed.
  The result is \<^const>\<open>None\<close> while no exchange has ended the loop, and otherwise what the
  counter was exchanged for, or a refusal.
\<close>

datatype cas = Swapped | Observed usize

fun try_reserve_counter :: "usize \<Rightarrow> usize \<Rightarrow> usize \<Rightarrow> cas list \<Rightarrow> (usize \<times> usize) option option" where
  "try_reserve_counter maximum amount current exchanges =
    (case counter_next maximum amount current of
       None \<Rightarrow> Some None
     | Some n \<Rightarrow>
         (case exchanges of
            [] \<Rightarrow> None
          | Swapped # _ \<Rightarrow> Some (Some (current, n))
          | Observed v # exchanges' \<Rightarrow> try_reserve_counter maximum amount v exchanges'))"

declare try_reserve_counter.simps [simp del]

record event_admission =
  adm_retained_bytes :: usize
  adm_occupies_queue_slot :: bool

text \<open>The operations when no other thread comes between.\<close>

definition try_reserve :: "usize \<Rightarrow> event_capacity \<Rightarrow> event_admission option \<times> event_capacity" where
  "try_reserve bytes c =
    (case counter_next (cap_max_queued_events c) 1 (cap_queued_events c) of
       None \<Rightarrow> (None, c)
     | Some queued \<Rightarrow>
         let c1 = c\<lparr>cap_queued_events := queued\<rparr>
         in (case counter_next (cap_max_retained_bytes c1) bytes (cap_retained_bytes c1) of
               None \<Rightarrow> (None, c1\<lparr>cap_queued_events := cap_queued_events c1 - 1\<rparr>)
             | Some retained \<Rightarrow>
                 (Some \<lparr>adm_retained_bytes = bytes, adm_occupies_queue_slot = True\<rparr>,
                  c1\<lparr>cap_retained_bytes := retained\<rparr>)))"

definition mark_dequeued :: "event_admission \<Rightarrow> event_capacity \<Rightarrow> event_admission \<times> event_capacity" where
  "mark_dequeued a c =
    (if adm_occupies_queue_slot a
     then (a\<lparr>adm_occupies_queue_slot := False\<rparr>, c\<lparr>cap_queued_events := cap_queued_events c - 1\<rparr>)
     else (a, c))"

definition admission_drop :: "event_admission \<Rightarrow> event_capacity \<Rightarrow> event_capacity" where
  "admission_drop a c =
    (let c1 = (if adm_occupies_queue_slot a then c\<lparr>cap_queued_events := cap_queued_events c - 1\<rparr> else c)
     in c1\<lparr>cap_retained_bytes := cap_retained_bytes c1 - adm_retained_bytes a\<rparr>)"

section \<open>Bounded counters\<close>

text \<open>
  What the accounting relies on: reserving adds to the counter within its bound, and releasing
  what was reserved takes it away again, without ever passing zero.
\<close>

locale bounded_counter =
  fixes reserve :: "'n \<Rightarrow> 'n \<Rightarrow> 'n \<Rightarrow> 'n option"
    and release :: "'n \<Rightarrow> 'n \<Rightarrow> 'n"
    and zero :: 'n
    and amount_of :: "'n \<Rightarrow> nat"
  assumes reserve_Some: "reserve m a c = Some d \<Longrightarrow> amount_of d = amount_of c + amount_of a \<and> amount_of d \<le> amount_of m"
    and reserve_None: "reserve m a c = None \<Longrightarrow> amount_of m < amount_of c + amount_of a"
    and release_fits: "amount_of a \<le> amount_of c \<Longrightarrow> amount_of (release a c) = amount_of c - amount_of a"
    and zero_amount: "amount_of zero = 0"
begin

text \<open>A counter accounts for the reservations that are held.\<close>

definition accounts :: "'n \<Rightarrow> 'n multiset \<Rightarrow> bool" where
  "accounts c held = (amount_of c = \<Sum>\<^sub># (image_mset amount_of held))"

lemma accounts_zero: "accounts zero {#}"
  by (simp add: accounts_def zero_amount)

lemma accounts_reserve:
  "accounts c held \<Longrightarrow> reserve m a c = Some d \<Longrightarrow> accounts d (add_mset a held) \<and> amount_of d \<le> amount_of m"
  using reserve_Some [of m a c d] by (simp add: accounts_def)

lemma accounts_release:
  "accounts c (add_mset a held) \<Longrightarrow> accounts (release a c) held \<and> amount_of (release a c) \<le> amount_of c"
  using release_fits [of a c] by (simp add: accounts_def)

end

interpretation word_counter: bounded_counter counter_next "\<lambda>a c. c - a" 0 unat
proof unfold_locales
  fix m a c d :: usize
  show "counter_next m a c = Some d \<Longrightarrow> unat d = unat c + unat a \<and> unat d \<le> unat m"
    by (auto simp: counter_next_def checked_add_Some_iff not_less word_le_nat_alt split: option.splits if_splits)
  show "counter_next m a c = None \<Longrightarrow> unat m < unat c + unat a"
    using unat_le_usize_max [of m]
    by (auto simp: counter_next_def checked_add_Some_iff checked_add_None_iff word_less_nat_alt
        split: option.splits if_splits simp del: unat_le_usize_max)
  show "unat a \<le> unat c \<Longrightarrow> unat (c - a) = unat c - unat a"
    by (rule unat_sub_fits)
qed simp

section \<open>All interleavings\<close>

text \<open>
  A reservation in flight: its queue slot is taken and its bytes are still to be reserved, or
  it is an admission. \<^verbatim>\<open>held_slots\<close> and \<^verbatim>\<open>held_bytes\<close> are the amounts they hold of either counter.
\<close>

datatype reservation = SlotTaken usize | Admitted event_admission

definition held_slots :: "reservation multiset \<Rightarrow> usize multiset" where
  "held_slots R = image_mset (\<lambda>r. 1)
    (filter_mset (\<lambda>r. case r of SlotTaken b \<Rightarrow> True | Admitted a \<Rightarrow> adm_occupies_queue_slot a) R)"

definition bytes_of :: "reservation \<Rightarrow> usize" where
  "bytes_of r = (case r of SlotTaken b \<Rightarrow> 0 | Admitted a \<Rightarrow> adm_retained_bytes a)"

definition held_bytes :: "reservation multiset \<Rightarrow> usize multiset" where
  "held_bytes R = image_mset bytes_of R"

text \<open>
  The atomic operations of \<^verbatim>\<open>try_reserve\<close>, \<^verbatim>\<open>mark_dequeued\<close> and the drop of an
  admission; the drop of one that still occupies its slot is a dequeue followed by a release.
\<close>

inductive capacity_step ::
  "event_capacity \<times> reservation multiset \<Rightarrow> event_capacity \<times> reservation multiset \<Rightarrow> bool" where
  take_slot: "counter_next (cap_max_queued_events c) 1 (cap_queued_events c) = Some queued \<Longrightarrow>
    capacity_step (c, R) (c\<lparr>cap_queued_events := queued\<rparr>, add_mset (SlotTaken b) R)"
| take_bytes: "counter_next (cap_max_retained_bytes c) b (cap_retained_bytes c) = Some retained \<Longrightarrow>
    capacity_step (c, add_mset (SlotTaken b) R)
      (c\<lparr>cap_retained_bytes := retained\<rparr>,
       add_mset (Admitted \<lparr>adm_retained_bytes = b, adm_occupies_queue_slot = True\<rparr>) R)"
| roll_back: "capacity_step (c, add_mset (SlotTaken b) R) (c\<lparr>cap_queued_events := cap_queued_events c - 1\<rparr>, R)"
| dequeue: "adm_occupies_queue_slot a \<Longrightarrow>
    capacity_step (c, add_mset (Admitted a) R)
      (c\<lparr>cap_queued_events := cap_queued_events c - 1\<rparr>, add_mset (Admitted (a\<lparr>adm_occupies_queue_slot := False\<rparr>)) R)"
| release: "\<not> adm_occupies_queue_slot a \<Longrightarrow>
    capacity_step (c, add_mset (Admitted a) R)
      (c\<lparr>cap_retained_bytes := cap_retained_bytes c - adm_retained_bytes a\<rparr>, R)"

inductive_cases capacity_stepE: "capacity_step s s'"

abbreviation capacity_steps where
  "capacity_steps \<equiv> capacity_step\<^sup>*\<^sup>*"

definition capacity_ok :: "event_capacity \<Rightarrow> reservation multiset \<Rightarrow> bool" where
  "capacity_ok c R =
    (word_counter.accounts (cap_queued_events c) (held_slots R) \<and> word_counter.accounts (cap_retained_bytes c) (held_bytes R) \<and>
     cap_queued_events c \<le> cap_max_queued_events c \<and> cap_retained_bytes c \<le> cap_max_retained_bytes c)"

lemma held_slots_simps [simp]:
  "held_slots {#} = {#}" "held_slots (add_mset (SlotTaken b) R) = add_mset 1 (held_slots R)"
  "held_slots (add_mset (Admitted a) R) = (if adm_occupies_queue_slot a then add_mset 1 (held_slots R) else held_slots R)"
  by (simp_all add: held_slots_def)

lemma held_bytes_simps [simp]:
  "held_bytes {#} = {#}" "held_bytes (add_mset (SlotTaken b) R) = add_mset 0 (held_bytes R)"
  "held_bytes (add_mset (Admitted a) R) = add_mset (adm_retained_bytes a) (held_bytes R)"
  by (simp_all add: held_bytes_def bytes_of_def)

lemma accounts_zero_bytes [simp]:
  "word_counter.accounts c (add_mset 0 held) = word_counter.accounts c held"
  by (simp add: word_counter.accounts_def)

lemma capacity_new_ok: "capacity_ok (capacity_new m b) {#}"
  by (simp add: capacity_ok_def capacity_new_def word_counter.accounts_def)

lemma capacity_step_ok: "capacity_step s s' \<Longrightarrow> (case s of (c, R) \<Rightarrow> capacity_ok c R) \<Longrightarrow>
    (case s' of (c, R) \<Rightarrow> capacity_ok c R \<and> cap_max_queued_events c = cap_max_queued_events (fst s) \<and>
      cap_max_retained_bytes c = cap_max_retained_bytes (fst s))"
proof (induction rule: capacity_step.induct)
  case (take_slot c queued R b)
  with word_counter.accounts_reserve [of "cap_queued_events c" "held_slots R" "cap_max_queued_events c" 1 queued]
  show ?case by (simp add: capacity_ok_def word_le_nat_alt)
next
  case (take_bytes c b retained R)
  with word_counter.accounts_reserve [of "cap_retained_bytes c" "held_bytes R" "cap_max_retained_bytes c" b retained]
  show ?case by (simp add: capacity_ok_def word_le_nat_alt)
next
  case (roll_back c b R)
  with word_counter.accounts_release [of "cap_queued_events c" 1 "held_slots R"]
  show ?case by (auto simp: capacity_ok_def word_le_nat_alt)
next
  case (dequeue a c R)
  with word_counter.accounts_release [of "cap_queued_events c" 1 "held_slots R"]
  show ?case by (auto simp: capacity_ok_def word_le_nat_alt)
next
  case (release a c R)
  with word_counter.accounts_release [of "cap_retained_bytes c" "adm_retained_bytes a" "held_bytes R"]
  show ?case by (auto simp: capacity_ok_def word_le_nat_alt)
qed

lemma capacity_steps_ok:
  assumes "capacity_steps (c, R) (c', R')" and "capacity_ok c R"
  shows "capacity_ok c' R' \<and> cap_max_queued_events c' = cap_max_queued_events c \<and>
    cap_max_retained_bytes c' = cap_max_retained_bytes c"
  using assms
proof (induction "(c', R')" arbitrary: c' R' rule: rtranclp_induct)
  case (step s)
  obtain d Q where s: "s = (d, Q)" by fastforce
  with step show ?case using capacity_step_ok [of s "(c', R')"] by auto
qed simp

section \<open>The sequential operations are paths\<close>

lemma try_reserve_steps:
  "capacity_steps (c, R) (snd (try_reserve b c),
    case fst (try_reserve b c) of None \<Rightarrow> R | Some a \<Rightarrow> add_mset (Admitted a) R)"
proof (cases "counter_next (cap_max_queued_events c) 1 (cap_queued_events c)")
  case (Some queued)
  define c1 where "c1 = c\<lparr>cap_queued_events := queued\<rparr>"
  have 1: "capacity_step (c, R) (c1, add_mset (SlotTaken b) R)"
    unfolding c1_def using Some by (rule take_slot)
  show ?thesis
  proof (cases "counter_next (cap_max_retained_bytes c1) b (cap_retained_bytes c1)")
    case None
    have "capacity_step (c1, add_mset (SlotTaken b) R) (c1\<lparr>cap_queued_events := cap_queued_events c1 - 1\<rparr>, R)"
      by (rule roll_back)
    with 1 have "capacity_steps (c, R) (c1\<lparr>cap_queued_events := cap_queued_events c1 - 1\<rparr>, R)"
      by (meson converse_rtranclp_into_rtranclp r_into_rtranclp)
    with None Some show ?thesis by (simp add: try_reserve_def Let_def flip: c1_def)
  next
    case (Some retained)
    with take_bytes [OF this, of R] 1
    have "capacity_steps (c, R) (c1\<lparr>cap_retained_bytes := retained\<rparr>,
        add_mset (Admitted \<lparr>adm_retained_bytes = b, adm_occupies_queue_slot = True\<rparr>) R)"
      by (meson converse_rtranclp_into_rtranclp r_into_rtranclp)
    with Some \<open>counter_next (cap_max_queued_events c) 1 (cap_queued_events c) = Some queued\<close>
    show ?thesis by (simp add: try_reserve_def Let_def flip: c1_def)
  qed
qed (simp add: try_reserve_def)

lemma mark_dequeued_steps:
  "capacity_steps (c, add_mset (Admitted a) R) (snd (mark_dequeued a c), add_mset (Admitted (fst (mark_dequeued a c))) R)"
  using dequeue [of a c R] by (auto simp: mark_dequeued_def)

lemma admission_drop_steps: "capacity_steps (c, add_mset (Admitted a) R) (admission_drop a c, R)"
proof (cases "adm_occupies_queue_slot a")
  case True
  have "capacity_step (c\<lparr>cap_queued_events := cap_queued_events c - 1\<rparr>,
      add_mset (Admitted (a\<lparr>adm_occupies_queue_slot := False\<rparr>)) R) (admission_drop a c, R)"
    using release [of "a\<lparr>adm_occupies_queue_slot := False\<rparr>" "c\<lparr>cap_queued_events := cap_queued_events c - 1\<rparr>" R] True
    by (simp add: admission_drop_def)
  with dequeue [OF True, of c R] show ?thesis by (meson converse_rtranclp_into_rtranclp r_into_rtranclp)
next
  case False
  with release [OF this, of c R] show ?thesis by (auto simp: admission_drop_def)
qed

lemma sum_slots: "\<Sum>\<^sub># (image_mset unat (held_slots R)) = size (held_slots R)"
proof (induction R)
  case (add r R)
  then show ?case by (cases r) simp_all
qed simp

section \<open>Properties\<close>

lemma capacity_is_exact:
  assumes "capacity_steps (capacity_new m b, {#}) (c, R)"
  shows "unat (cap_queued_events c) = size (held_slots R) \<and> cap_queued_events c \<le> m \<and>
    unat (cap_retained_bytes c) = \<Sum>\<^sub># (image_mset unat (held_bytes R)) \<and> cap_retained_bytes c \<le> b"
proof -
  from capacity_steps_ok [OF assms capacity_new_ok]
  have ok: "capacity_ok c R" "cap_max_queued_events c = m" "cap_max_retained_bytes c = b"
    by (simp_all add: capacity_new_def)
  then show ?thesis by (simp add: capacity_ok_def word_counter.accounts_def sum_slots)
qed

text \<open>A value of a counter at which there is room for the amount.\<close>

definition room :: "usize \<Rightarrow> usize \<Rightarrow> usize \<Rightarrow> bool" where
  "room maximum amount v = (unat v + unat amount \<le> unat maximum)"

lemma counter_next_room: "counter_next maximum amount v = (if room maximum amount v then Some (v + amount) else None)"
  "room maximum amount v \<Longrightarrow> unat (v + amount) = unat v + unat amount"
proof -
  have top: "unat maximum \<le> usize_max" using unsigned_less [of maximum, where 'a = nat] by (simp add: usize_max_def)
  have fits: "unat v + unat amount \<le> usize_max" if "room maximum amount v"
    using order_trans [OF that [unfolded room_def] top] .
  then show "room maximum amount v \<Longrightarrow> unat (v + amount) = unat v + unat amount" by (simp add: unat_add_fits)
  with fits show "counter_next maximum amount v = (if room maximum amount v then Some (v + amount) else None)"
    by (cases "unat v + unat amount \<le> usize_max")
      (auto simp: counter_next_def checked_add_def word_less_nat_alt unat_add_fits room_def)
qed

lemma reserve_loop_turn:
  "try_reserve_counter maximum amount current [] = (if room maximum amount current then None else Some None)"
  "try_reserve_counter maximum amount current (Swapped # es) =
    (if room maximum amount current then Some (Some (current, current + amount)) else Some None)"
  "try_reserve_counter maximum amount current (Observed v # es) =
    (if room maximum amount current then try_reserve_counter maximum amount v es else Some None)"
  by (simp_all add: try_reserve_counter.simps [of _ _ current] counter_next_room)

lemma reserve_loop_swaps:
  "try_reserve_counter maximum amount current exchanges = Some (Some (seen, n)) \<longleftrightarrow>
    (\<exists>vs rest. exchanges = map Observed vs @ Swapped # rest \<and> (\<forall>v \<in> set (current # vs). room maximum amount v) \<and>
      seen = last (current # vs) \<and> unat n = unat seen + unat amount)"
proof (induction exchanges arbitrary: current)
  case (Cons e es)
  show ?case
  proof (cases e)
    case Swapped
    then show ?thesis
      by (auto simp: reserve_loop_turn counter_next_room(2) word_unat_eq_iff Cons_eq_append_conv Cons_eq_map_conv)
  next
    case (Observed v)
    have "(\<exists>vs rest. Observed v # es = map Observed vs @ Swapped # rest \<and> (\<forall>w \<in> set (current # vs). room maximum amount w) \<and>
        seen = last (current # vs) \<and> unat n = unat seen + unat amount) \<longleftrightarrow>
      room maximum amount current \<and>
      (\<exists>vs rest. es = map Observed vs @ Swapped # rest \<and> (\<forall>w \<in> set (v # vs). room maximum amount w) \<and>
        seen = last (v # vs) \<and> unat n = unat seen + unat amount)" (is "?L \<longleftrightarrow> ?R")
    proof
      assume ?L
      then obtain vs rest where vs: "Observed v # es = map Observed vs @ Swapped # rest"
        "\<forall>w \<in> set (current # vs). room maximum amount w" "seen = last (current # vs)" "unat n = unat seen + unat amount"
        by blast
      then obtain ws where "vs = v # ws" by (cases vs) auto
      with vs show ?R by auto
    next
      assume ?R
      then obtain vs rest where "es = map Observed vs @ Swapped # rest" "\<forall>w \<in> set (v # vs). room maximum amount w"
        "seen = last (v # vs)" "unat n = unat seen + unat amount" "room maximum amount current" by blast
      then show ?L by (intro exI [of _ "v # vs"] exI [of _ rest]) simp
    qed
    with Cons.IH [of v] Observed show ?thesis by (simp add: reserve_loop_turn)
  qed
qed (simp add: reserve_loop_turn)

lemma reserve_loop_refuses:
  "try_reserve_counter maximum amount current exchanges = Some None \<longleftrightarrow>
    (\<exists>vs rest. exchanges = map Observed vs @ rest \<and> (\<forall>v \<in> set (butlast (current # vs)). room maximum amount v) \<and>
      \<not> room maximum amount (last (current # vs)))"
proof (induction exchanges arbitrary: current)
  case (Cons e es)
  show ?case
  proof (cases "room maximum amount current")
    case False
    then have "try_reserve_counter maximum amount current (e # es) = Some None"
      by (cases e) (simp_all add: reserve_loop_turn)
    moreover have "\<exists>vs rest. e # es = map Observed vs @ rest \<and> (\<forall>v \<in> set (butlast (current # vs)). room maximum amount v) \<and>
        \<not> room maximum amount (last (current # vs))"
      using False by (intro exI [of _ "[]"] exI [of _ "e # es"]) simp
    ultimately show ?thesis by blast
  next
    case True
    have one: "(\<exists>rest. e # es = map Observed vs @ rest) \<and> (\<forall>v \<in> set (butlast (current # vs)). room maximum amount v) \<and>
        \<not> room maximum amount (last (current # vs)) \<longleftrightarrow>
      (\<exists>v ws. vs = v # ws \<and> e = Observed v \<and> (\<exists>rest. es = map Observed ws @ rest) \<and>
        (\<forall>w \<in> set (butlast (v # ws)). room maximum amount w) \<and> \<not> room maximum amount (last (v # ws)))" for vs
      using True by (cases vs) auto
    show ?thesis
    proof (cases e)
      case Swapped
      with True one show ?thesis by (auto simp: reserve_loop_turn)
    next
      case (Observed v)
      with True one Cons.IH [of v] show ?thesis by (simp add: reserve_loop_turn)
    qed
  qed
qed (simp add: reserve_loop_turn)

text \<open>
  C35. The compare-exchange loop reserves exactly under contention: it ends with a reservation
  just when an exchange succeeds before any value it has seen leaves no room, and it then has
  exchanged the last value seen for that value plus the amount, with no wrap-around and within
  the bound; it refuses just when the last value it has seen leaves no room.
\<close>

theorem reserve_loop_exact:
  "(try_reserve_counter maximum amount current exchanges = Some (Some (seen, n)) \<longleftrightarrow>
      (\<exists>vs rest. exchanges = map Observed vs @ Swapped # rest \<and> (\<forall>v \<in> set (current # vs). room maximum amount v) \<and>
        seen = last (current # vs) \<and> unat n = unat seen + unat amount)) \<and>
    (try_reserve_counter maximum amount current exchanges = Some None \<longleftrightarrow>
      (\<exists>vs rest. exchanges = map Observed vs @ rest \<and> (\<forall>v \<in> set (butlast (current # vs)). room maximum amount v) \<and>
        \<not> room maximum amount (last (current # vs))))"
  by (rule conjI [OF reserve_loop_swaps reserve_loop_refuses])

text \<open>
  Another thread takes bytes back between the load and the first exchange; the second succeeds.
\<close>

theorem reserve_loop_exact_witness:
  "try_reserve_counter 10 4 6 [Observed 3, Swapped, Observed 9] = Some (Some (3, 7)) \<and>
    try_reserve_counter 10 4 6 [Observed 7, Swapped] = Some None"
proof
  have "\<exists>vs rest. [Observed 3, Swapped, Observed 9] = map Observed vs @ Swapped # rest \<and>
      (\<forall>v \<in> set (6 # vs). room 10 4 v) \<and> (3 :: usize) = last (6 # vs) \<and> unat (7 :: usize) = unat (3 :: usize) + unat (4 :: usize)"
    by (intro exI [of _ "[3]"] exI [of _ "[Observed 9]"]) (simp add: room_def)
  then show "try_reserve_counter 10 4 6 [Observed 3, Swapped, Observed 9] = Some (Some (3, 7))"
    by (simp only: reserve_loop_exact)
  have "\<exists>vs rest. [Observed 7, Swapped] = map Observed vs @ rest \<and>
      (\<forall>v \<in> set (butlast (6 # vs)). room 10 4 v) \<and> \<not> room 10 4 (last (6 # vs))"
    by (intro exI [of _ "[7]"] exI [of _ "[Swapped]"]) (simp add: room_def)
  then show "try_reserve_counter 10 4 6 [Observed 7, Swapped] = Some None"
    by (simp only: reserve_loop_exact)
qed

end
