(* ===== verification/Event_Worker.thy ===== *)
theory Event_Worker
  imports Payload Capacity
begin

text \<open>
  \<^verbatim>\<open>src/events/worker.rs\<close>: the thread that batches analytics events and posts them. What
  it meets is an argument: how each request ends, when it is told to abort, which branch of a
  \<^verbatim>\<open>select!\<close> is taken. The worker's state carries, besides the fields of the code, the
  payloads taken and acknowledged since the last flush message and the answers given so far,
  which the properties speak about and no operation reads.
\<close>

section \<open>Configuration\<close>

record 'u event_worker_config =
  wc_endpoint :: 'u
  wc_env_secret :: str
  wc_auto_flush_interval :: duration
  wc_request_timeout :: duration
  wc_max_events_per_request :: usize
  wc_max_attempts :: usize
  wc_retry_interval :: duration

definition event_endpoint :: "'u url_crate \<Rightarrow> 'u \<Rightarrow> 'u" where
  "event_endpoint uc base =
    (let base_path = str_trim_end_matches (CHR ''/'') (url_path uc base)
     in url_set_fragment uc None (url_set_query uc None
         (url_set_path uc (base_path @ ''/api/public/insight/track'') base)))"

definition worker_config_from_options :: "'u url_crate \<Rightarrow> ('u, 'o) fb_options \<Rightarrow> 'u event_worker_config" where
  "worker_config_from_options uc opts =
    \<lparr>wc_endpoint = event_endpoint uc (opt_event_url opts), wc_env_secret = opt_env_secret opts,
     wc_auto_flush_interval = opt_auto_flush_interval opts,
     wc_request_timeout = opt_event_request_timeout opts,
     wc_max_events_per_request = opt_max_events_per_request opts,
     wc_max_attempts = opt_max_send_event_attempts opts,
     wc_retry_interval = opt_send_event_retry_interval opts\<rparr>"

text \<open>The HTTP client; \<^verbatim>\<open>header_ok\<close> is \<^verbatim>\<open>HeaderValue::from_bytes(..).is_ok()\<close>.\<close>

record http_client =
  hc_connect_timeout :: duration
  hc_timeout :: duration
  hc_default_headers :: "(str \<times> str) list"

definition build_http_client ::
  "(str \<Rightarrow> bool) \<Rightarrow> bool \<Rightarrow> 'u event_worker_config \<Rightarrow> http_client option" where
  "build_http_client header_ok client_ok cfg =
    (if \<not> header_ok (wc_env_secret cfg) then None
     else if \<not> header_ok user_agent then None
     else if client_ok then
       Some \<lparr>hc_connect_timeout = min (wc_request_timeout cfg) (from_secs 1), hc_timeout = wc_request_timeout cfg,
         hc_default_headers =
           [(''authorization'', wc_env_secret cfg), (''user-agent'', user_agent),
            (''content-type'', ''application/json; charset=utf-8'')]\<rparr>
     else None)"

section \<open>Sending a batch\<close>

definition is_success :: "nat \<Rightarrow> bool" where
  "is_success status = (200 \<le> status \<and> status < 300)"

definition is_client_error :: "nat \<Rightarrow> bool" where
  "is_client_error status = (400 \<le> status \<and> status < 500)"

definition is_recoverable :: "nat \<Rightarrow> bool" where
  "is_recoverable status =
    (if is_client_error status then status = 400 \<or> status = 408 \<or> status = 429 else True)"

datatype delivery = Succeeded | Failed | Fatal | Cancelled

text \<open>
  The kind of a request error that is logged, from what reqwest says of it.
\<close>

definition request_error_kind :: "bool \<Rightarrow> bool \<Rightarrow> bool \<Rightarrow> str" where
  "request_error_kind is_timeout is_connect is_body =
    (if is_timeout then ''timeout''
     else if is_connect then ''connection error''
     else if is_body then ''request body error''
     else ''transport error'')"

text \<open>
  Waiting for the abort signal on a watch channel: the value now, then the changes that arrive,
  \<^const>\<open>None\<close> for the end of the channel; true when the wait returns.
\<close>

fun wait_for_abort :: "bool \<Rightarrow> bool option list \<Rightarrow> bool" where
  "wait_for_abort True changes = True"
| "wait_for_abort False [] = False"
| "wait_for_abort False (None # changes) = True"
| "wait_for_abort False (Some v # changes) = wait_for_abort v changes"

lemma wait_for_abort_iff: "wait_for_abort v changes \<longleftrightarrow> v \<or> None \<in> set changes \<or> Some True \<in> set changes"
  by (induction v changes rule: wait_for_abort.induct) auto

datatype http_result = HttpStatus nat | TransportError

text \<open>
  One attempt: whether the abort signal interrupts the pause before it or the request, that
  is, whether \<^const>\<open>wait_for_abort\<close> returns first.
\<close>

record attempt_env =
  ae_abort_pausing :: bool
  ae_abort_sending :: bool
  ae_response :: http_result

text \<open>The loop over the attempts, with the number of requests it starts.\<close>

fun send_from :: "nat \<Rightarrow> nat \<Rightarrow> (nat \<Rightarrow> attempt_env) \<Rightarrow> delivery \<times> nat" where
  "send_from 0 attempt env = (Failed, 0)"
| "send_from (Suc left) attempt env =
    (if 0 < attempt \<and> ae_abort_pausing (env attempt) then (Cancelled, 0)
     else if ae_abort_sending (env attempt) then (Cancelled, 1)
     else
       (case ae_response (env attempt) of
          HttpStatus status \<Rightarrow>
            if is_success status then (Succeeded, 1)
            else if \<not> is_recoverable status then (Fatal, 1)
            else (case send_from left (Suc attempt) env of (d, n) \<Rightarrow> (d, Suc n))
        | TransportError \<Rightarrow> (case send_from left (Suc attempt) env of (d, n) \<Rightarrow> (d, Suc n))))"

definition send :: "http_client option \<Rightarrow> usize \<Rightarrow> (nat \<Rightarrow> attempt_env) \<Rightarrow> delivery \<times> nat" where
  "send client max_attempts env =
    (case client of None \<Rightarrow> (Fatal, 0) | Some _ \<Rightarrow> send_from (unat max_attempts) 0 env)"

section \<open>The worker\<close>

record pending_event =
  pe_payload :: payload_event
  pe_admission :: event_admission

datatype event_message = PayloadMsg pending_event | FlushMsg bool

record flush_outcome =
  fo_delivered :: bool
  fo_keep_running :: bool

definition outcome_delivered :: flush_outcome where
  "outcome_delivered = \<lparr>fo_delivered = True, fo_keep_running = True\<rparr>"

definition outcome_failed :: flush_outcome where
  "outcome_failed = \<lparr>fo_delivered = False, fo_keep_running = True\<rparr>"

definition outcome_cancelled :: flush_outcome where
  "outcome_cancelled = \<lparr>fo_delivered = False, fo_keep_running = False\<rparr>"

record 'u event_worker =
  ew_config :: "'u event_worker_config"
  ew_client :: "http_client option"
  ew_buffer :: "pending_event list"
  ew_delivery_stopped :: bool
  ew_shared_stopped :: bool
  ew_unreported_failure :: bool
  ew_taken :: "payload_event list"
  ew_acked :: "payload_event list"
  ew_reports :: "(bool \<times> payload_event list \<times> payload_event list) list"

definition event_worker_new :: "'u event_worker_config \<Rightarrow> http_client option \<Rightarrow> bool \<Rightarrow> 'u event_worker" where
  "event_worker_new cfg client shared_stopped =
    \<lparr>ew_config = cfg, ew_client = client, ew_buffer = [], ew_delivery_stopped = False,
     ew_shared_stopped = shared_stopped, ew_unreported_failure = False, ew_taken = [], ew_acked = [], ew_reports = []\<rparr>"

text \<open>What delivering a batch meets: per chunk, whether it serializes, and the attempts.\<close>

type_synonym deliver_env = "nat \<Rightarrow> bool \<times> (nat \<Rightarrow> attempt_env)"

text \<open>
  The size \<^verbatim>\<open>serialize_events\<close> reserves, and its outcome; \<^verbatim>\<open>ok\<close> is what
  \<^verbatim>\<open>serde_json::to_writer\<close> reports.
\<close>

definition serialized_capacity :: "pending_event list \<Rightarrow> usize" where
  "serialized_capacity events =
    foldl (\<lambda>size e. saturating_add size (adm_retained_bytes (pe_admission e))) 2 events"

definition serialize_events :: "bool \<Rightarrow> pending_event list \<Rightarrow> json option" where
  "serialize_events ok events = (if ok then Some (JArr (map (\<lambda>e. json_payload (pe_payload e)) events)) else None)"

fun deliver_chunks ::
  "pending_event list list \<Rightarrow> nat \<Rightarrow> deliver_env \<Rightarrow> bool \<Rightarrow> 'u event_worker \<Rightarrow> flush_outcome \<times> 'u event_worker" where
  "deliver_chunks [] i env delivered w = (\<lparr>fo_delivered = delivered, fo_keep_running = True\<rparr>, w)"
| "deliver_chunks (chunk # rest) i env delivered w =
    (case serialize_events (fst (env i)) chunk of
       None \<Rightarrow> deliver_chunks rest (Suc i) env False w
     | Some payload \<Rightarrow>
         (case fst (send (ew_client w) (wc_max_attempts (ew_config w)) (snd (env i))) of
            Fatal \<Rightarrow>
              (\<lparr>fo_delivered = False, fo_keep_running = True\<rparr>,
               w\<lparr>ew_delivery_stopped := True, ew_shared_stopped := True\<rparr>)
          | Cancelled \<Rightarrow> (outcome_cancelled, w)
          | Failed \<Rightarrow> deliver_chunks rest (Suc i) env False w
          | Succeeded \<Rightarrow>
              deliver_chunks rest (Suc i) env delivered (w\<lparr>ew_acked := ew_acked w @ map pe_payload chunk\<rparr>)))"

text \<open>\<^verbatim>\<open>chunks\<close> panics for a size of zero, which validated options exclude.\<close>

definition deliver_events :: "pending_event list \<Rightarrow> deliver_env \<Rightarrow> 'u event_worker \<Rightarrow> flush_outcome \<times> 'u event_worker" where
  "deliver_events events env w =
    deliver_chunks (chunks_of (unat (wc_max_events_per_request (ew_config w))) events) 0 env True w"

definition drop_events :: "pending_event list \<Rightarrow> event_capacity \<Rightarrow> event_capacity" where
  "drop_events events c = fold (\<lambda>e. admission_drop (pe_admission e)) events c"

definition flush ::
  "deliver_env \<Rightarrow> 'u event_worker \<times> event_capacity \<Rightarrow> flush_outcome \<times> 'u event_worker \<times> event_capacity" where
  "flush env s =
    (case s of (w, c) \<Rightarrow>
       if ew_delivery_stopped w
       then (outcome_failed, w\<lparr>ew_buffer := []\<rparr>, drop_events (ew_buffer w) c)
       else if ew_buffer w = [] then (outcome_delivered, w, c)
       else
         (case deliver_events (ew_buffer w) env w of
            (outcome, w') \<Rightarrow> (outcome, w'\<lparr>ew_buffer := []\<rparr>, drop_events (ew_buffer w) c)))"

definition remember_delivery_failure :: "flush_outcome \<Rightarrow> 'u event_worker \<Rightarrow> 'u event_worker" where
  "remember_delivery_failure outcome w =
    (if \<not> fo_delivered outcome then w\<lparr>ew_unreported_failure := True\<rparr> else w)"

text \<open>\<^verbatim>\<open>process\<close>: whether to keep running, and the answer sent to a waiting flush.\<close>

definition process ::
  "event_message \<Rightarrow> deliver_env \<Rightarrow> 'u event_worker \<times> event_capacity \<Rightarrow>
    bool \<times> bool option \<times> 'u event_worker \<times> event_capacity" where
  "process msg env s =
    (case s of (w, c) \<Rightarrow>
       (case msg of
          PayloadMsg e \<Rightarrow>
            (case mark_dequeued (pe_admission e) c of
               (a, c1) \<Rightarrow>
                 let e1 = e\<lparr>pe_admission := a\<rparr>;
                     w0 = w\<lparr>ew_taken := ew_taken w @ [pe_payload e]\<rparr>
                 in if \<not> ew_delivery_stopped w0 then
                      let w1 = w0\<lparr>ew_buffer := ew_buffer w0 @ [e1]\<rparr>
                      in if unat (wc_max_events_per_request (ew_config w1)) \<le> length (ew_buffer w1) then
                           (case flush env (w1, c1) of
                              (outcome, w2, c2) \<Rightarrow>
                                (fo_keep_running outcome, None, remember_delivery_failure outcome w2, c2))
                         else (True, None, w1, c1)
                    else (True, None, w0, admission_drop a c1))
        | FlushMsg has_reply \<Rightarrow>
            (case flush env (w, c) of
               (outcome, w1, c1) \<Rightarrow>
                 let delivered = fo_delivered outcome \<and> \<not> ew_unreported_failure w1;
                     w2 = w1\<lparr>ew_unreported_failure := False,
                       ew_reports := ew_reports w1 @ [(delivered, ew_taken w1, ew_acked w1)],
                       ew_taken := [], ew_acked := []\<rparr>
                 in (fo_keep_running outcome, if has_reply then Some delivered else None, w2, c1))))"

section \<open>The thread\<close>

datatype shutdown = Graceful | Abort

datatype try_shutdown = TryMessage shutdown | TryDisconnected | TryEmpty

text \<open>
  The branch a \<^verbatim>\<open>select!\<close> takes. The default branch, after the automatic flush interval,
  exists only while the worker is not closing.
\<close>

datatype selected =
    SelShutdown "shutdown option"
  | SelMessage event_message deliver_env
  | SelReceiverClosed deliver_env
  | SelDefault deliver_env

definition flush_wait :: "duration \<Rightarrow> duration \<Rightarrow> duration" where
  "flush_wait auto_flush_interval elapsed = auto_flush_interval - elapsed"

datatype worker_next = WorkerGoesOn bool | WorkerEnds

text \<open>One round of the loop, from \<^verbatim>\<open>closing\<close> to what follows.\<close>

definition worker_round ::
  "try_shutdown \<Rightarrow> selected \<Rightarrow> bool \<Rightarrow> 'u event_worker \<times> event_capacity \<Rightarrow>
    worker_next \<times> 'u event_worker \<times> event_capacity" where
  "worker_round t sel closing s =
    (case t of
       TryMessage Abort \<Rightarrow> (WorkerEnds, s)
     | TryDisconnected \<Rightarrow> (WorkerEnds, s)
     | _ \<Rightarrow>
         let closing' = (closing \<or> t = TryMessage Graceful)
         in (case sel of
               SelShutdown (Some Graceful) \<Rightarrow> (WorkerGoesOn True, s)
             | SelShutdown _ \<Rightarrow> (WorkerEnds, s)
             | SelMessage msg env \<Rightarrow>
                 (case process msg env s of
                    (keep, _, s') \<Rightarrow> (if keep then WorkerGoesOn closing' else WorkerEnds, s'))
             | SelReceiverClosed env \<Rightarrow> (WorkerEnds, snd (flush env s))
             | SelDefault env \<Rightarrow>
                 if closing' then (WorkerGoesOn closing', s)
                 else
                   (case flush env s of
                      (outcome, w', c') \<Rightarrow>
                        (if fo_keep_running outcome then WorkerGoesOn closing' else WorkerEnds,
                         remember_delivery_failure outcome w', c'))))"

fun worker_run ::
  "(try_shutdown \<times> selected) list \<Rightarrow> bool \<Rightarrow> 'u event_worker \<times> event_capacity \<Rightarrow>
    worker_next \<times> 'u event_worker \<times> event_capacity" where
  "worker_run [] closing s = (WorkerGoesOn closing, s)"
| "worker_run ((t, sel) # rounds) closing s =
    (case worker_round t sel closing s of
       (WorkerGoesOn closing', s') \<Rightarrow> worker_run rounds closing' s'
     | (WorkerEnds, s') \<Rightarrow> (WorkerEnds, s'))"

section \<open>Attempts\<close>

lemma send_from_bound: "snd (send_from left attempt env) \<le> left"
proof (induction left attempt env rule: send_from.induct)
  case (2 left attempt env)
  then show ?case by (auto split: http_result.splits prod.splits)
qed simp

text \<open>What in one attempt accounts for the result of sending.\<close>

fun caused :: "delivery \<Rightarrow> attempt_env \<Rightarrow> bool" where
  "caused Succeeded a = (\<exists>status. ae_response a = HttpStatus status \<and> is_success status)"
| "caused Fatal a =
    (\<exists>status. ae_response a = HttpStatus status \<and> is_client_error status \<and> status \<notin> {400, 408, 429})"
| "caused Cancelled a = (ae_abort_pausing a \<or> ae_abort_sending a)"
| "caused Failed a = False"

lemma not_recoverable: "\<not> is_recoverable status \<Longrightarrow> is_client_error status \<and> status \<notin> {400, 408, 429}"
  by (auto simp: is_recoverable_def split: if_splits)

lemma send_from_outcome:
  "send_from left attempt env = (Failed, left) \<or>
    (\<exists>k < left. caused (fst (send_from left attempt env)) (env (attempt + k)))"
proof (induction left arbitrary: attempt)
  case (Suc left)
  have now: "caused d (env attempt) \<Longrightarrow> \<exists>k < Suc left. caused d (env (attempt + k))" for d
    by (rule exI [of _ 0]) simp
  show ?case
  proof (cases "send_from (Suc left) attempt env =
      (fst (send_from left (Suc attempt) env), Suc (snd (send_from left (Suc attempt) env)))")
    case True
    from Suc.IH [of "Suc attempt"] show ?thesis
    proof
      assume "send_from left (Suc attempt) env = (Failed, left)"
      with True show ?thesis by (simp del: send_from.simps)
    next
      assume "\<exists>k < left. caused (fst (send_from left (Suc attempt) env)) (env (Suc attempt + k))"
      then show ?thesis unfolding True by (metis Suc_mono add_Suc_shift fst_conv)
    qed
  next
    case False
    then have "caused (fst (send_from (Suc left) attempt env)) (env attempt)"
      by (auto simp: case_prod_beta split: http_result.splits if_splits dest: not_recoverable)
    then show ?thesis by (intro disjI2 now)
  qed
qed simp

section \<open>Batches\<close>

lemma deliver_chunks_effect:
  assumes "deliver_chunks cs i env d w = (outcome, w')"
  shows "ew_config w' = ew_config w \<and> ew_client w' = ew_client w \<and> ew_taken w' = ew_taken w \<and>
    ew_reports w' = ew_reports w \<and> ew_unreported_failure w' = ew_unreported_failure w \<and>
    (ew_delivery_stopped w \<longrightarrow> ew_delivery_stopped w') \<and>
    (fo_delivered outcome \<longrightarrow> d \<and> fo_keep_running outcome \<and> ew_acked w' = ew_acked w @ map pe_payload (concat cs) \<and>
      ew_delivery_stopped w' = ew_delivery_stopped w)"
  using assms
proof (induction cs arbitrary: i d w)
  case (Cons chunk cs)
  show ?case
  proof (cases "fst (env i) \<and> fst (send (ew_client w) (wc_max_attempts (ew_config w)) (snd (env i))) = Succeeded")
    case True
    with Cons.prems have "deliver_chunks cs (Suc i) env d (w\<lparr>ew_acked := ew_acked w @ map pe_payload chunk\<rparr>) = (outcome, w')"
      by (simp add: serialize_events_def)
    from Cons.IH [OF this] show ?thesis by simp
  next
    case False
    with Cons show ?thesis
      by (auto simp: serialize_events_def outcome_cancelled_def split: if_splits delivery.splits)
  qed
qed auto

definition batch_size :: "'u event_worker \<Rightarrow> nat" where
  "batch_size w = unat (wc_max_events_per_request (ew_config w))"

text \<open>The worker with an event in its buffer, and after it has answered a flush.\<close>

definition buffering :: "pending_event \<Rightarrow> event_admission \<Rightarrow> 'u event_worker \<Rightarrow> 'u event_worker" where
  "buffering e a w =
    w\<lparr>ew_taken := ew_taken w @ [pe_payload e], ew_buffer := ew_buffer w @ [e\<lparr>pe_admission := a\<rparr>]\<rparr>"

definition answered :: "flush_outcome \<Rightarrow> 'u event_worker \<Rightarrow> 'u event_worker" where
  "answered outcome w =
    w\<lparr>ew_unreported_failure := False,
      ew_reports := ew_reports w @ [(fo_delivered outcome \<and> \<not> ew_unreported_failure w, ew_taken w, ew_acked w)],
      ew_taken := [], ew_acked := []\<rparr>"

definition acked_all :: "'u event_worker \<Rightarrow> bool" where
  "acked_all w =
    (\<not> ew_unreported_failure w \<and> \<not> ew_delivery_stopped w \<longrightarrow>
     ew_taken w = ew_acked w @ map pe_payload (ew_buffer w))"

definition reports_honest :: "'u event_worker \<Rightarrow> bool" where
  "reports_honest w = (\<forall>(delivered, taken, acked) \<in> set (ew_reports w). delivered \<longrightarrow> taken = acked)"

lemma process_cases:
  assumes "process msg env (w, c) = (keep, reply, w', c')"
  obtains (dropped) e a c1 where "msg = PayloadMsg e" "mark_dequeued (pe_admission e) c = (a, c1)"
      "ew_delivery_stopped w" "keep" "w' = w\<lparr>ew_taken := ew_taken w @ [pe_payload e]\<rparr>" "c' = admission_drop a c1"
  | (buffered) e a where "msg = PayloadMsg e" "mark_dequeued (pe_admission e) c = (a, c')"
      "\<not> ew_delivery_stopped w" "keep" "w' = buffering e a w" "length (ew_buffer (buffering e a w)) < batch_size w"
  | (batch) e a c1 outcome w1 where "msg = PayloadMsg e" "mark_dequeued (pe_admission e) c = (a, c1)"
      "\<not> ew_delivery_stopped w" "flush env (buffering e a w, c1) = (outcome, w1, c')"
      "keep = fo_keep_running outcome" "w' = remember_delivery_failure outcome w1"
  | (flushed) has_reply outcome w1 where "msg = FlushMsg has_reply" "flush env (w, c) = (outcome, w1, c')"
      "keep = fo_keep_running outcome" "w' = answered outcome w1"
proof (cases msg)
  case (PayloadMsg e)
  obtain a c1 where m: "mark_dequeued (pe_admission e) c = (a, c1)" by fastforce
  obtain outcome w1 c2 where f: "flush env (buffering e a w, c1) = (outcome, w1, c2)" by (metis prod_cases3)
  consider "ew_delivery_stopped w" | "\<not> ew_delivery_stopped w" "length (ew_buffer (buffering e a w)) < batch_size w"
    | "\<not> ew_delivery_stopped w" "batch_size w \<le> length (ew_buffer (buffering e a w))" by linarith
  then show ?thesis
  proof cases
    case 1
    with assms m show ?thesis by (intro dropped [OF PayloadMsg m]) (auto simp: process_def PayloadMsg Let_def)
  next
    case 2
    with assms m have "c' = c1" "keep" "w' = buffering e a w"
      by (auto simp: process_def PayloadMsg Let_def buffering_def batch_size_def)
    with m 2 show ?thesis by (intro buffered [OF PayloadMsg, of a]) simp_all
  next
    case 3
    with assms m f have "c' = c2" "keep = fo_keep_running outcome" "w' = remember_delivery_failure outcome w1"
      by (auto simp: process_def PayloadMsg Let_def buffering_def batch_size_def)
    with m f 3 show ?thesis by (intro batch [OF PayloadMsg m]) simp_all
  qed
next
  case (FlushMsg has_reply)
  obtain outcome w1 c1 where f: "flush env (w, c) = (outcome, w1, c1)" by (metis prod_cases3)
  with assms show ?thesis
    by (intro flushed [OF FlushMsg, of outcome w1]) (auto simp: process_def FlushMsg Let_def answered_def)
qed

definition worker_ok :: "'u event_worker \<Rightarrow> bool" where
  "worker_ok w =
    (0 < batch_size w \<and> acked_all w \<and> reports_honest w \<and> length (ew_buffer w) < batch_size w)"

lemma flush_effect:
  assumes "flush env (w, c) = (outcome, w', c')" and "0 < batch_size w"
  shows "ew_buffer w' = [] \<and> c' = drop_events (ew_buffer w) c \<and> ew_config w' = ew_config w \<and>
    ew_client w' = ew_client w \<and> ew_taken w' = ew_taken w \<and> ew_reports w' = ew_reports w \<and>
    ew_unreported_failure w' = ew_unreported_failure w \<and>
    (fo_delivered outcome \<longrightarrow> \<not> ew_delivery_stopped w \<and> \<not> ew_delivery_stopped w' \<and>
      ew_acked w' = ew_acked w @ map pe_payload (ew_buffer w))"
proof -
  consider (stopped) "ew_delivery_stopped w" | (empty) "\<not> ew_delivery_stopped w" "ew_buffer w = []"
    | (send) "\<not> ew_delivery_stopped w" "ew_buffer w \<noteq> []" by blast
  then show ?thesis
  proof cases
    case send
    obtain w1 where d: "deliver_chunks (chunks_of (batch_size w) (ew_buffer w)) 0 env True w = (outcome, w1)"
      and w1: "w' = w1\<lparr>ew_buffer := []\<rparr>" "c' = drop_events (ew_buffer w) c"
      using assms(1) send by (auto simp: flush_def deliver_events_def batch_size_def split: prod.splits)
    note e = deliver_chunks_effect [OF d] concat_chunks_of [OF assms(2), of "ew_buffer w"]
    with w1 send show ?thesis by simp
  qed (use assms in \<open>auto simp: flush_def outcome_failed_def outcome_delivered_def drop_events_def\<close>)
qed

lemma flush_ok:
  assumes "flush env (w, c) = (outcome, w', c')" and "worker_ok w"
  shows "worker_ok (remember_delivery_failure outcome w')"
  using flush_effect [OF assms(1)] assms(2)
  by (auto simp: worker_ok_def acked_all_def reports_honest_def remember_delivery_failure_def batch_size_def)

lemma flush_ok_full:
  assumes "flush env (w, c) = (outcome, w', c')" and "0 < batch_size w" and "acked_all w" and "reports_honest w"
  shows "worker_ok (remember_delivery_failure outcome w')"
  using flush_effect [OF assms(1,2)] assms(2-)
  by (auto simp: worker_ok_def acked_all_def reports_honest_def remember_delivery_failure_def batch_size_def)

lemma batch_size_buffering [simp]: "batch_size (buffering e a w) = batch_size w"
  by (simp add: buffering_def batch_size_def)

lemma process_ok:
  assumes "process msg env (w, c) = (keep, reply, w', c')" and "worker_ok w"
  shows "worker_ok w'"
  using assms(1)
proof (cases rule: process_cases)
  case (dropped e a c1)
  with assms(2) show ?thesis by (auto simp: worker_ok_def acked_all_def reports_honest_def batch_size_def)
next
  case (buffered e a)
  with assms(2) show ?thesis
    by (auto simp: worker_ok_def acked_all_def reports_honest_def buffering_def batch_size_def)
next
  case (batch e a c1 outcome w1)
  with assms(2) have "0 < batch_size (buffering e a w)" "acked_all (buffering e a w)" "reports_honest (buffering e a w)"
    by (auto simp: buffering_def worker_ok_def acked_all_def reports_honest_def batch_size_def)
  with flush_ok_full [OF batch(4)] batch show ?thesis by simp
next
  case (flushed has_reply outcome w1)
  with flush_effect [OF flushed(2)] assms(2) show ?thesis
    by (auto simp: answered_def worker_ok_def acked_all_def reports_honest_def batch_size_def)
qed

section \<open>The thread keeps the invariant\<close>

text \<open>What holds of the worker whether or not the thread has ended.\<close>

definition worker_safe :: "'u event_worker \<Rightarrow> bool" where
  "worker_safe w = (0 < batch_size w \<and> reports_honest w \<and> length (ew_buffer w) < batch_size w)"

lemma worker_ok_safe: "worker_ok w \<Longrightarrow> worker_safe w"
  by (simp add: worker_ok_def worker_safe_def)

lemma remember_simps [simp]:
  "ew_config (remember_delivery_failure q w) = ew_config w" "ew_buffer (remember_delivery_failure q w) = ew_buffer w"
  "ew_reports (remember_delivery_failure q w) = ew_reports w"
  by (simp_all add: remember_delivery_failure_def)

lemma process_config:
  assumes "process msg env (w, c) = (keep, reply, w', c')" and "0 < batch_size w"
  shows "ew_config w' = ew_config w"
  using assms(1)
proof (cases rule: process_cases)
  case (batch e a c1 outcome w1)
  with flush_effect [OF batch(4)] assms(2) have "ew_config w1 = ew_config (buffering e a w)" by simp
  with batch show ?thesis by (simp add: buffering_def)
next
  case (flushed has_reply outcome w1)
  with flush_effect [OF flushed(2) assms(2)] show ?thesis by (simp add: answered_def)
qed (simp_all add: buffering_def)

lemma worker_round_ok:
  assumes "worker_round t sel closing (w, c) = (nx, w', c')" and "worker_ok w"
  shows "(nx \<noteq> WorkerEnds \<longrightarrow> worker_ok w') \<and> worker_safe w' \<and> ew_config w' = ew_config w"
proof -
  have b: "0 < batch_size w" using assms(2) by (simp add: worker_ok_def)
  from assms(1) consider (stay) "w' = w" "c' = c"
    | (message) msg env keep reply where "sel = SelMessage msg env" "process msg env (w, c) = (keep, reply, w', c')"
    | (closed) env outcome where "flush env (w, c) = (outcome, w', c')" "nx = WorkerEnds"
    | (timer) env outcome w1 where "flush env (w, c) = (outcome, w1, c')" "w' = remember_delivery_failure outcome w1"
    unfolding worker_round_def
    by (auto simp: Let_def split: try_shutdown.splits shutdown.splits selected.splits option.splits if_splits prod.splits)
      (metis snd_conv surj_pair)+
  then show ?thesis
  proof cases
    case stay
    with assms(2) show ?thesis by (simp add: worker_ok_safe)
  next
    case message
    with process_ok [OF message(2) assms(2)] process_config [OF message(2) b] show ?thesis by (simp add: worker_ok_safe)
  next
    case closed
    with flush_effect [OF closed(1) b] assms(2) show ?thesis
      by (simp add: worker_safe_def worker_ok_def reports_honest_def batch_size_def)
  next
    case timer
    with flush_ok [OF timer(1) assms(2)] flush_effect [OF timer(1) b] show ?thesis by (simp add: worker_ok_safe)
  qed
qed

lemma worker_run_ok:
  assumes "worker_run rounds closing (w, c) = (nx, w', c')" and "worker_ok w"
  shows "worker_safe w' \<and> ew_config w' = ew_config w"
  using assms
proof (induction rounds arbitrary: closing w c)
  case (Cons r rounds)
  obtain t sel where r: "r = (t, sel)" by fastforce
  obtain nx1 w1 c1 where step: "worker_round t sel closing (w, c) = (nx1, w1, c1)" by (metis prod_cases3)
  note ok = worker_round_ok [OF step Cons.prems(2)]
  show ?case
  proof (cases nx1)
    case (WorkerGoesOn closing')
    with Cons.prems(1) r step have "worker_run rounds closing' (w1, c1) = (nx, w', c')" by simp
    from Cons.IH [OF this] ok WorkerGoesOn show ?thesis by simp
  next
    case WorkerEnds
    with Cons.prems(1) r step ok show ?thesis by simp
  qed
qed (simp add: worker_ok_safe)

lemma event_worker_new_ok:
  "0 < unat (wc_max_events_per_request cfg) \<Longrightarrow> worker_ok (event_worker_new cfg client stopped)"
  by (simp add: worker_ok_def event_worker_new_def acked_all_def reports_honest_def batch_size_def)

section \<open>The thread keeps the accounts\<close>

definition admissions :: "pending_event list \<Rightarrow> reservation multiset" where
  "admissions es = mset (map (\<lambda>e. Admitted (pe_admission e)) es)"

lemma admissions_simps [simp]:
  "admissions [] = {#}" "admissions (e # es) = add_mset (Admitted (pe_admission e)) (admissions es)"
  "admissions (es @ fs) = admissions es + admissions fs"
  by (simp_all add: admissions_def)

lemma drop_events_steps: "capacity_steps (c, admissions es + R) (drop_events es c, R)"
proof (induction es arbitrary: c)
  case (Cons e es)
  from admission_drop_steps [of c "pe_admission e" "admissions es + R"] Cons.IH [of "admission_drop (pe_admission e) c"]
  show ?case by (simp add: drop_events_def)
qed (simp add: drop_events_def)

lemma flush_steps:
  assumes "flush env (w, c) = (outcome, w', c')" and "0 < batch_size w"
  shows "capacity_steps (c, admissions (ew_buffer w) + R) (c', admissions (ew_buffer w') + R)"
  using flush_effect [OF assms] drop_events_steps [of c "ew_buffer w" R] by simp

lemma process_steps:
  assumes "process msg env (w, c) = (keep, reply, w', c')" and "0 < batch_size w"
  shows "capacity_steps
    (c, admissions (ew_buffer w) + (case msg of PayloadMsg e \<Rightarrow> {#Admitted (pe_admission e)#} | FlushMsg _ \<Rightarrow> {#}) + R)
    (c', admissions (ew_buffer w') + R)"
proof -
  have taking: "capacity_steps (c, add_mset (Admitted (pe_admission e)) (admissions (ew_buffer w) + R))
      (c1, add_mset (Admitted a) (admissions (ew_buffer w) + R))"
    if "mark_dequeued (pe_admission e) c = (a, c1)" for e a c1
    using mark_dequeued_steps [of c "pe_admission e" "admissions (ew_buffer w) + R"] that by simp
  from assms(1) show ?thesis
  proof (cases rule: process_cases)
    case (dropped e a c1)
    with taking [OF dropped(2)] admission_drop_steps [of c1 a "admissions (ew_buffer w) + R"] show ?thesis by simp
  next
    case (buffered e a)
    with taking [OF buffered(2)] show ?thesis by (simp add: buffering_def)
  next
    case (batch e a c1 outcome w1)
    with taking [OF batch(2)] flush_steps [OF batch(4), of R] assms(2) show ?thesis by (simp add: buffering_def batch_size_def)
  next
    case (flushed has_reply outcome w1)
    with flush_steps [OF flushed(2) assms(2), of R] show ?thesis by (simp add: answered_def)
  qed
qed

section \<open>Properties\<close>

text \<open>
  A flush never claims too much: whenever the worker answers that a flush delivered
  everything, the payloads acknowledged by the server since the last flush message are exactly
  the payloads it took from the queue since then, each once and in order.
\<close>

theorem flush_answers_are_honest:
  assumes "0 < unat (wc_max_events_per_request cfg)"
    and "(True, taken, acked) \<in>
      set (ew_reports (fst (snd (worker_run rounds closing (event_worker_new cfg client stopped, c)))))"
  shows "taken = acked"
proof -
  obtain nx w' c' where run: "worker_run rounds closing (event_worker_new cfg client stopped, c) = (nx, w', c')"
    by (metis prod_cases3)
  from worker_run_ok [OF run event_worker_new_ok [OF assms(1)]] assms(2) run show ?thesis
    by (auto simp: worker_safe_def reports_honest_def)
qed

text \<open>
  The batch never outgrows a request: after any run of the worker, ended or not, fewer
  events are buffered than one request may carry.
\<close>

theorem worker_buffer_bounded:
  assumes "0 < unat (wc_max_events_per_request cfg)"
  shows "length (ew_buffer (fst (snd (worker_run rounds closing (event_worker_new cfg client stopped, c)))))
    < unat (wc_max_events_per_request cfg)"
proof -
  obtain nx w' c' where run: "worker_run rounds closing (event_worker_new cfg client stopped, c) = (nx, w', c')"
    by (metis prod_cases3)
  from worker_run_ok [OF run event_worker_new_ok [OF assms]] run show ?thesis
    by (auto simp: worker_safe_def batch_size_def event_worker_new_def)
qed

text \<open>
  C36. Sending a batch starts at most the configured number of requests. It succeeds only on
  a 2xx answer, gives up for good only on a client error other than 400, 408 and 429, is
  cancelled only by the abort signal, and fails only after all attempts.
\<close>

theorem send_attempts_bounded:
  "snd (send client max_attempts env) \<le> unat max_attempts \<and>
    (case fst (send client max_attempts env) of
      Succeeded \<Rightarrow> \<exists>k < unat max_attempts. \<exists>status. ae_response (env k) = HttpStatus status \<and> 200 \<le> status \<and> status < 300
    | Fatal \<Rightarrow> client = None \<or> (\<exists>k < unat max_attempts. \<exists>status. ae_response (env k) = HttpStatus status \<and>
        400 \<le> status \<and> status < 500 \<and> status \<notin> {400, 408, 429})
    | Cancelled \<Rightarrow> \<exists>k < unat max_attempts. ae_abort_pausing (env k) \<or> ae_abort_sending (env k)
    | Failed \<Rightarrow> snd (send client max_attempts env) = unat max_attempts)"
proof (cases client)
  case (Some http)
  from send_from_outcome [of "unat max_attempts" 0 env] send_from_bound [of "unat max_attempts" 0 env] show ?thesis
    by (cases "fst (send_from (unat max_attempts) 0 env)")
      (auto simp: send_def Some is_success_def is_client_error_def)
qed (simp add: send_def)

text \<open>
  Processing a message keeps the accounts: the reservations held before, by the buffer,
  by the message and by anyone else, become those held after by a sequence of the atomic
  operations of the capacity, so nothing is released twice and nothing leaks.
\<close>

theorem process_keeps_accounts:
  assumes "process msg env (w, c) = (keep, reply, w', c')" and "0 < unat (wc_max_events_per_request (ew_config w))"
  shows "capacity_steps
    (c, admissions (ew_buffer w) + (case msg of PayloadMsg e \<Rightarrow> {#Admitted (pe_admission e)#} | FlushMsg _ \<Rightarrow> {#}) + R)
    (c', admissions (ew_buffer w') + R)"
  using process_steps [OF assms(1)] assms(2) by (simp add: batch_size_def)

section \<open>Witnesses\<close>

definition sample_config :: "unit event_worker_config" where
  "sample_config =
    \<lparr>wc_endpoint = (), wc_env_secret = ''abc'', wc_auto_flush_interval = 5, wc_request_timeout = 2,
     wc_max_events_per_request = 2, wc_max_attempts = 2, wc_retry_interval = 1\<rparr>"

definition sample_event :: pending_event where
  "sample_event =
    \<lparr>pe_payload = MetricEvent \<lparr>mp_user = \<lparr>eu_key_id = ''u'', eu_name = [], eu_properties = []\<rparr>, mp_metrics = []\<rparr>,
     pe_admission = \<lparr>adm_retained_bytes = 7, adm_occupies_queue_slot = True\<rparr>\<rparr>"

definition sample_deliveries :: deliver_env where
  "sample_deliveries = (\<lambda>i. (True, \<lambda>k. \<lparr>ae_abort_pausing = False, ae_abort_sending = False, ae_response = HttpStatus 200\<rparr>))"

definition sample_client :: "http_client option" where
  "sample_client = Some \<lparr>hc_connect_timeout = 1, hc_timeout = 2, hc_default_headers = []\<rparr>"

definition sample_rounds :: "(try_shutdown \<times> selected) list" where
  "sample_rounds =
    [(TryEmpty, SelMessage (PayloadMsg sample_event) sample_deliveries), (TryEmpty, SelMessage (FlushMsg True) sample_deliveries)]"

lemma sample_chunks: "chunks_of 2 [e] = [[e]]"
  by (simp add: chunks_of.simps)

lemma sample_send: "fst (send sample_client 2 (snd (sample_deliveries i))) = Succeeded"
proof -
  have u: "unat (2 :: usize) = Suc (Suc 0)" by simp
  show ?thesis unfolding send_def sample_client_def sample_deliveries_def option.case u by (simp add: is_success_def)
qed

lemma sample_run:
  "ew_reports (fst (snd (worker_run sample_rounds False
    (event_worker_new sample_config sample_client False, capacity_new 5 100)))) =
    [(True, [pe_payload sample_event], [pe_payload sample_event])]"
proof -
  define e where "e = sample_event\<lparr>pe_admission := \<lparr>adm_retained_bytes = 7, adm_occupies_queue_slot = False\<rparr>\<rparr>"
  define w where "w = (event_worker_new sample_config sample_client False)
    \<lparr>ew_taken := [pe_payload sample_event], ew_buffer := [e]\<rparr>"
  define c where "c = (capacity_new 5 100)\<lparr>cap_queued_events := cap_queued_events (capacity_new 5 100) - 1\<rparr>"
  have 1: "process (PayloadMsg sample_event) sample_deliveries (event_worker_new sample_config sample_client False, capacity_new 5 100)
      = (True, None, w, c)"
    by (simp add: process_def mark_dequeued_def sample_event_def event_worker_new_def sample_config_def Let_def
        w_def c_def e_def)
  have "deliver_events [e] sample_deliveries w = (outcome_delivered, w\<lparr>ew_acked := [pe_payload sample_event]\<rparr>)"
    by (simp add: deliver_events_def sample_chunks serialize_events_def sample_send w_def event_worker_new_def
        sample_config_def e_def outcome_delivered_def) (simp add: sample_deliveries_def)
  then have "flush sample_deliveries (w, c) = (outcome_delivered, w\<lparr>ew_acked := [pe_payload sample_event], ew_buffer := []\<rparr>, drop_events [e] c)"
    by (simp add: flush_def) (simp add: w_def event_worker_new_def)
  then have "ew_reports (fst (snd (snd (process (FlushMsg True) sample_deliveries (w, c))))) =
      [(True, [pe_payload sample_event], [pe_payload sample_event])] \<and>
      fst (process (FlushMsg True) sample_deliveries (w, c))"
    by (simp add: process_def Let_def outcome_delivered_def) (simp add: w_def event_worker_new_def)
  then show ?thesis
    by (simp add: sample_rounds_def worker_round_def 1 case_prod_beta)
qed

theorem flush_answers_are_honest_witness:
  "\<exists>taken acked. (True, taken, acked) \<in> set (ew_reports (fst (snd (worker_run sample_rounds False
    (event_worker_new sample_config sample_client False, capacity_new 5 100))))) \<and> taken = acked \<and> taken \<noteq> []"
proof -
  have "(True, [pe_payload sample_event], [pe_payload sample_event]) \<in> set (ew_reports (fst (snd (worker_run sample_rounds False
    (event_worker_new sample_config sample_client False, capacity_new 5 100)))))"
    by (simp add: sample_run)
  from this flush_answers_are_honest [OF _ this] show ?thesis by (auto simp: sample_config_def)
qed

theorem worker_buffer_bounded_witness:
  "length (ew_buffer (fst (snd (worker_run sample_rounds False
    (event_worker_new sample_config sample_client False, capacity_new 5 100))))) < 2"
  using worker_buffer_bounded [of sample_config sample_rounds False sample_client False "capacity_new 5 100"]
  by (simp add: sample_config_def)

theorem process_keeps_accounts_witness:
  "\<exists>(w' :: unit event_worker) c'. capacity_steps (capacity_new 5 100, {#}) (c', admissions (ew_buffer w'))"
proof -
  obtain keep reply w' c' where "process (FlushMsg True) sample_deliveries
      (event_worker_new sample_config sample_client False, capacity_new 5 100) = (keep, reply, w', c')"
    by (metis prod_cases4)
  from process_keeps_accounts [OF this, of "{#}"] show ?thesis
    by (auto simp: event_worker_new_def sample_config_def)
qed

end
