(* ===== verification/Events.thy ===== *)
theory Events
  imports Event_Worker Worker Validation
begin

text \<open>
  \<^verbatim>\<open>src/events.rs\<close>: the handle through which the client records analytics events. Events
  go into a bounded channel that the worker of \<^verbatim>\<open>Event_Worker\<close> empties, after a
  reservation against the capacity of \<^verbatim>\<open>Capacity\<close>. The channel is the list of its
  messages, and what other threads and the scheduler do are arguments.
\<close>

definition MAX_PUBLIC_WAIT :: duration where
  "MAX_PUBLIC_WAIT = from_hours 8760"

record event_processor_inner =
  pr_has_sender :: bool
  pr_queue :: "event_message list"
  pr_queue_capacity :: usize
  pr_receiver_alive :: bool
  pr_shutdown_queue :: "shutdown list"
  pr_abort :: bool
  pr_closed :: bool
  pr_close_complete :: bool
  pr_capacity_exceeded :: bool
  pr_capacity :: event_capacity
  pr_delivery_stopped :: bool
  pr_worker :: worker_thread
  pr_flush_timeout :: duration

datatype event_processor = Disabled | Active event_processor_inner

definition event_processor_new :: "('u, 'o) fb_options \<Rightarrow> str option \<Rightarrow> event_processor" where
  "event_processor_new opts spawn_error =
    (if opt_offline opts \<or> (opt_disable_events opts \<and> \<not> opt_allow_track opts) then Disabled
     else
       (case worker_spawn spawn_error of
          Inl e \<Rightarrow> Disabled
        | Inr worker \<Rightarrow>
            Active
              \<lparr>pr_has_sender = True, pr_queue = [], pr_queue_capacity = opt_max_events_in_queue opts,
               pr_receiver_alive = True, pr_shutdown_queue = [], pr_abort = False, pr_closed = False,
               pr_close_complete = False, pr_capacity_exceeded = False,
               pr_capacity = capacity_new (opt_max_events_in_queue opts) (opt_max_event_queue_size_bytes opts),
               pr_delivery_stopped = False, pr_worker = worker, pr_flush_timeout = opt_flush_timeout opts\<rparr>))"

section \<open>Overload\<close>

definition mark_event_queue_available :: "event_processor_inner \<Rightarrow> event_processor_inner" where
  "mark_event_queue_available p = p\<lparr>pr_capacity_exceeded := False\<rparr>"

text \<open>Whether to log the overload: once, until capacity recovers.\<close>

definition log_event_queue_overflow :: "event_processor_inner \<Rightarrow> bool \<times> event_processor_inner" where
  "log_event_queue_overflow p = (\<not> pr_capacity_exceeded p, p\<lparr>pr_capacity_exceeded := True\<rparr>)"

section \<open>Recording\<close>

definition queue_full :: "event_processor_inner \<Rightarrow> bool" where
  "queue_full p = (unat (pr_queue_capacity p) \<le> length (pr_queue p))"

datatype try_send = SendOk | SendFull | SendDisconnected

text \<open>\<^verbatim>\<open>raced\<close>: another thread has taken the last slot in the meantime.\<close>

definition channel_try_send ::
  "bool \<Rightarrow> event_message \<Rightarrow> event_processor_inner \<Rightarrow> try_send \<times> event_processor_inner" where
  "channel_try_send raced msg p =
    (if \<not> pr_receiver_alive p then (SendDisconnected, p)
     else if raced \<or> queue_full p then (SendFull, p)
     else (SendOk, p\<lparr>pr_queue := pr_queue p @ [msg]\<rparr>))"

text \<open>A reservation, and its release when the event is dropped with the refused message.\<close>

definition record_inner ::
  "bool \<Rightarrow> usize \<Rightarrow> payload_event \<Rightarrow> event_processor_inner \<Rightarrow> bool \<times> event_processor_inner" where
  "record_inner raced retained_bytes payload p =
    (if pr_closed p \<or> pr_delivery_stopped p then (False, p)
     else if \<not> pr_has_sender p then (False, p)
     else if queue_full p then (False, snd (log_event_queue_overflow p))
     else
       (case try_reserve retained_bytes (pr_capacity p) of
          (None, c) \<Rightarrow> (False, snd (log_event_queue_overflow (p\<lparr>pr_capacity := c\<rparr>)))
        | (Some admission, c) \<Rightarrow>
            let event = \<lparr>pe_payload = payload, pe_admission = admission\<rparr>
            in (case channel_try_send raced (PayloadMsg event) (p\<lparr>pr_capacity := c\<rparr>) of
                  (SendOk, p') \<Rightarrow> (True, mark_event_queue_available p')
                | (SendFull, p') \<Rightarrow>
                    (False, snd (log_event_queue_overflow (p'\<lparr>pr_capacity := admission_drop admission (pr_capacity p')\<rparr>)))
                | (SendDisconnected, p') \<Rightarrow>
                    (False, p'\<lparr>pr_capacity := admission_drop admission (pr_capacity p')\<rparr>))))"

definition record_event ::
  "bool \<Rightarrow> usize \<Rightarrow> payload_event \<Rightarrow> event_processor \<Rightarrow> bool \<times> event_processor" where
  "record_event raced retained_bytes payload p =
    (case p of
       Disabled \<Rightarrow> (False, Disabled)
     | Active inner \<Rightarrow> (case record_inner raced retained_bytes payload inner of (b, inner') \<Rightarrow> (b, Active inner')))"

definition is_accepting :: "event_processor \<Rightarrow> bool" where
  "is_accepting p =
    (case p of Disabled \<Rightarrow> False | Active inner \<Rightarrow> \<not> pr_closed inner \<and> \<not> pr_delivery_stopped inner)"

definition record_evaluation_at ::
  "layout \<Rightarrow> bool \<Rightarrow> fb_user \<Rightarrow> str \<Rightarrow> str \<Rightarrow> str \<Rightarrow> system_time \<Rightarrow> event_processor \<Rightarrow> bool \<times> event_processor" where
  "record_evaluation_at ly raced u flag_key variation_id variation_value timestamp p =
    (if u_key u = [] \<or> str_is_blank flag_key \<or> str_is_blank variation_id then (False, p)
     else if \<not> is_accepting p then (False, p)
     else
       record_event raced
         (saturating_add (estimated_evaluation_size ly u flag_key variation_id variation_value) (size_of_event_admission ly))
         (payload_evaluation_at u flag_key variation_id variation_value timestamp) p)"

definition record_evaluation ::
  "layout \<Rightarrow> bool \<Rightarrow> fb_user \<Rightarrow> fb_evaluation_event \<Rightarrow> event_processor \<Rightarrow> bool \<times> event_processor" where
  "record_evaluation ly raced u e p =
    (if \<not> ev_insights_enabled e then (False, p)
     else record_evaluation_at ly raced u (ev_flag_key e) (ev_variation_id e) (ev_variation_value e) (ev_timestamp e) p)"

definition record_metric ::
  "layout \<Rightarrow> bool \<Rightarrow> fb_user \<Rightarrow> str \<Rightarrow> f64 \<Rightarrow> int \<Rightarrow> event_processor \<Rightarrow> bool \<times> event_processor" where
  "record_metric ly raced u event_name numeric_value now_millis p =
    (if u_key u = [] \<or> str_is_blank event_name \<or> \<not> f64_is_finite numeric_value then (False, p)
     else if \<not> is_accepting p then (False, p)
     else
       record_event raced (saturating_add (estimated_metric_size ly u event_name) (size_of_event_admission ly))
         (payload_metric u event_name numeric_value now_millis) p)"

section \<open>Flushing\<close>

definition processor_flush :: "bool \<Rightarrow> event_processor \<Rightarrow> event_processor" where
  "processor_flush raced p =
    (case p of
       Disabled \<Rightarrow> Disabled
     | Active inner \<Rightarrow>
         if \<not> pr_closed inner \<and> pr_has_sender inner
         then Active (snd (channel_try_send raced (FlushMsg False) inner))
         else p)"

text \<open>
  \<^verbatim>\<open>sent\<close>: the flush message fits before the timeout, which it cannot when the receiver is
  gone; \<^verbatim>\<open>reply\<close>: what the worker answers before the deadline, if it does.
\<close>

definition flush_and_wait :: "bool \<Rightarrow> bool option \<Rightarrow> event_processor \<Rightarrow> bool \<times> event_processor" where
  "flush_and_wait sent reply p =
    (case p of
       Disabled \<Rightarrow> (True, Disabled)
     | Active inner \<Rightarrow>
         if pr_closed inner then (False, p)
         else if \<not> pr_has_sender inner then (False, p)
         else if \<not> sent \<or> \<not> pr_receiver_alive inner then (False, p)
         else (case reply of None \<Rightarrow> False | Some b \<Rightarrow> b,
               Active (inner\<lparr>pr_queue := pr_queue inner @ [FlushMsg True]\<rparr>)))"

definition public_wait :: "duration \<Rightarrow> duration" where
  "public_wait timeout = min timeout MAX_PUBLIC_WAIT"

section \<open>Closing\<close>

definition shutdown_try_send :: "shutdown \<Rightarrow> event_processor_inner \<Rightarrow> event_processor_inner" where
  "shutdown_try_send m p =
    (if pr_receiver_alive p \<and> length (pr_shutdown_queue p) < 2
     then p\<lparr>pr_shutdown_queue := pr_shutdown_queue p @ [m]\<rparr> else p)"

definition wait_for_worker ::
  "duration \<Rightarrow> bool \<times> bool \<Rightarrow> event_processor_inner \<Rightarrow> worker_wait \<times> duration list \<times> event_processor_inner" where
  "wait_for_worker budget e p =
    (case worker_wait (fst e) (snd e) (pr_worker p) of (r, w) \<Rightarrow> (r, [budget], p\<lparr>pr_worker := w\<rparr>))"

text \<open>
  \<^verbatim>\<open>close\<close>, with the timeouts it waits for: \<^verbatim>\<open>e1\<close> and \<^verbatim>\<open>e2\<close> say whether the
  worker completes within the first and the second wait, and whether joining it succeeds.
\<close>

definition inner_close ::
  "bool \<times> bool \<Rightarrow> bool \<times> bool \<Rightarrow> event_processor_inner \<Rightarrow> duration list \<times> event_processor_inner" where
  "inner_close e1 e2 p =
    (if pr_closed p then
       (if \<not> pr_close_complete p
        then (case wait_for_worker (public_wait (pr_flush_timeout p)) e1 p of (_, ds, p') \<Rightarrow> (ds, p'))
        else ([], p))
     else
       (let timeout = public_wait (pr_flush_timeout p);
            abort_budget = min (timeout div 4) (from_millis 100);
            graceful_budget = timeout - abort_budget;
            p1 = shutdown_try_send Graceful (p\<lparr>pr_closed := True, pr_has_sender := False\<rparr>)
        in (case wait_for_worker graceful_budget e1 p1 of
              (WaitTimeout, ds, p2) \<Rightarrow>
                (case wait_for_worker abort_budget e2 (shutdown_try_send Abort (p2\<lparr>pr_abort := True\<rparr>)) of
                   (_, ds', p3) \<Rightarrow> (ds @ ds', p3\<lparr>pr_close_complete := True\<rparr>))
            | (_, ds, p2) \<Rightarrow> (ds, p2\<lparr>pr_close_complete := True\<rparr>))))"

definition processor_close ::
  "bool \<times> bool \<Rightarrow> bool \<times> bool \<Rightarrow> event_processor \<Rightarrow> duration list \<times> event_processor" where
  "processor_close e1 e2 p =
    (case p of
       Disabled \<Rightarrow> ([], Disabled)
     | Active inner \<Rightarrow> (case inner_close e1 e2 inner of (ds, inner') \<Rightarrow> (ds, Active inner')))"

section \<open>The accounts of queue and worker\<close>

definition queued :: "event_message list \<Rightarrow> pending_event list" where
  "queued ms = List.map_filter (\<lambda>m. case m of PayloadMsg e \<Rightarrow> Some e | FlushMsg _ \<Rightarrow> None) ms"

lemma queued_simps [simp]:
  "queued [] = []" "queued (PayloadMsg e # ms) = e # queued ms" "queued (FlushMsg b # ms) = queued ms"
  "queued (ms @ ns) = queued ms @ queued ns"
  by (simp_all add: queued_def List.map_filter_def)

text \<open>
  What the worker's thread does to queue and capacity: it takes and processes the next message,
  it flushes when its timer fires, or it ends. A closed channel still delivers what is in it;
  when the thread ends, its buffer and what is left in the channel are dropped and a guard marks
  delivery as stopped.
\<close>

inductive worker_step :: "event_processor_inner \<times> 'u event_worker \<Rightarrow> event_processor_inner \<times> 'u event_worker \<Rightarrow> bool" where
  work_process: "pr_queue p = msg # rest \<Longrightarrow> process msg env (w, pr_capacity p) = (keep, reply, w', c') \<Longrightarrow>
    worker_step (p, w) (p\<lparr>pr_queue := rest, pr_capacity := c', pr_delivery_stopped := ew_shared_stopped w'\<rparr>, w')"
| work_timer: "flush env (w, pr_capacity p) = (outcome, w', c') \<Longrightarrow>
    worker_step (p, w)
      (p\<lparr>pr_capacity := c', pr_delivery_stopped := ew_shared_stopped w'\<rparr>, remember_delivery_failure outcome w')"
| work_exit: "worker_step (p, w)
    (p\<lparr>pr_receiver_alive := False, pr_queue := [], pr_delivery_stopped := True,
       pr_capacity := drop_events (queued (pr_queue p) @ ew_buffer w) (pr_capacity p)\<rparr>, w\<lparr>ew_buffer := []\<rparr>)"

text \<open>
  The joint steps of the threads that record, the ones that flush and close, and the worker:
  one critical action each, in any order.
\<close>

inductive event_step :: "event_processor_inner \<times> 'u event_worker \<Rightarrow> event_processor_inner \<times> 'u event_worker \<Rightarrow> bool" where
  step_record: "record_inner raced n payload p = (b, p') \<Longrightarrow> event_step (p, w) (p', w)"
| step_flush: "pr_receiver_alive p \<Longrightarrow> event_step (p, w) (p\<lparr>pr_queue := pr_queue p @ [FlushMsg b]\<rparr>, w)"
| step_close: "inner_close e1 e2 p = (ds, p') \<Longrightarrow> event_step (p, w) (p', w)"
| step_work: "worker_step s s' \<Longrightarrow> event_step s s'"

lemmas step_process = step_work [OF work_process]
  and step_timer = step_work [OF work_timer]
  and step_exit = step_work [OF work_exit]

lemma event_step_cases:
  assumes "event_step s s'"
  obtains (step_record) raced n payload p b p' w where "s = (p, w)" "s' = (p', w)"
      "record_inner raced n payload p = (b, p')"
  | (step_flush) p w b where "s = (p, w)" "s' = (p\<lparr>pr_queue := pr_queue p @ [FlushMsg b]\<rparr>, w)" "pr_receiver_alive p"
  | (step_close) e1 e2 p ds p' w where "s = (p, w)" "s' = (p', w)" "inner_close e1 e2 p = (ds, p')"
  | (step_process) p msg rest env w keep reply w' c' where "s = (p, w)"
      "s' = (p\<lparr>pr_queue := rest, pr_capacity := c', pr_delivery_stopped := ew_shared_stopped w'\<rparr>, w')"
      "pr_queue p = msg # rest" "process msg env (w, pr_capacity p) = (keep, reply, w', c')"
  | (step_timer) env w p outcome w' c' where "s = (p, w)"
      "s' = (p\<lparr>pr_capacity := c', pr_delivery_stopped := ew_shared_stopped w'\<rparr>, remember_delivery_failure outcome w')"
      "flush env (w, pr_capacity p) = (outcome, w', c')"
  | (step_exit) p w where "s = (p, w)"
      "s' = (p\<lparr>pr_receiver_alive := False, pr_queue := [], pr_delivery_stopped := True,
         pr_capacity := drop_events (queued (pr_queue p) @ ew_buffer w) (pr_capacity p)\<rparr>, w\<lparr>ew_buffer := []\<rparr>)"
  using assms
proof cases
  case step_work
  then show ?thesis
  proof cases
    case work_process
    then show ?thesis by (rule step_process)
  next
    case work_timer
    then show ?thesis by (rule step_timer)
  next
    case work_exit
    then show ?thesis by (rule step_exit)
  qed
qed (erule (2) step_record step_flush step_close)+

abbreviation held :: "event_processor_inner \<times> 'u event_worker \<Rightarrow> reservation multiset" where
  "held s \<equiv> admissions (queued (pr_queue (fst s))) + admissions (ew_buffer (snd s))"

lemma checked_add_sub: "checked_add (a :: usize) b = Some n \<Longrightarrow> n - b = a"
  by (auto simp: checked_add_def split: if_splits)

lemma counter_next_sub: "counter_next m a c = Some n \<Longrightarrow> n - a = c"
  by (auto simp: counter_next_def dest: checked_add_sub split: option.splits if_splits)

text \<open>A refused reservation and a dropped one leave no trace.\<close>

lemma try_reserve_None: "try_reserve b c = (None, c') \<Longrightarrow> c' = c"
  by (cases c) (auto simp: try_reserve_def Let_def split: option.splits dest!: counter_next_sub)

lemma admission_drop_reserve: "try_reserve b c = (Some a, c') \<Longrightarrow> admission_drop a c' = c"
  by (cases c) (auto simp: try_reserve_def admission_drop_def Let_def split: option.splits dest!: counter_next_sub)

lemma overflow_simps [simp]:
  "pr_queue (snd (log_event_queue_overflow p)) = pr_queue p"
  "pr_capacity (snd (log_event_queue_overflow p)) = pr_capacity p"
  by (simp_all add: log_event_queue_overflow_def)

lemma record_inner_cases:
  obtains (refused) p' where "record_inner raced n payload p = (False, p')"
      "pr_queue p' = pr_queue p" "pr_capacity p' = pr_capacity p"
  | (accepted) a c where "record_inner raced n payload p =
      (True, p\<lparr>pr_capacity := c, pr_queue := pr_queue p @ [PayloadMsg \<lparr>pe_payload = payload, pe_admission = a\<rparr>],
        pr_capacity_exceeded := False\<rparr>)"
      "try_reserve n (pr_capacity p) = (Some a, c)" "\<not> pr_closed p" "\<not> pr_delivery_stopped p" "\<not> queue_full p"
      "pr_receiver_alive p"
proof (cases "pr_closed p \<or> pr_delivery_stopped p \<or> \<not> pr_has_sender p \<or> queue_full p")
  case True
  then show ?thesis by (intro refused [of "snd (record_inner raced n payload p)"]) (auto simp: record_inner_def)
next
  case False
  obtain r c where r: "try_reserve n (pr_capacity p) = (r, c)" by fastforce
  show ?thesis
  proof (cases r)
    case None
    with False r try_reserve_None [of n "pr_capacity p" c] show ?thesis
      by (intro refused [of "snd (record_inner raced n payload p)"]) (auto simp: record_inner_def)
  next
    case (Some a)
    from admission_drop_reserve r Some have d: "admission_drop a c = pr_capacity p" by blast
    show ?thesis
    proof (cases "pr_receiver_alive p \<and> \<not> raced")
      case True
      with False r Some show ?thesis
        by (intro accepted [of a c]) (auto simp: record_inner_def channel_try_send_def queue_full_def
            mark_event_queue_available_def Let_def)
    next
      case no: False
      with False r Some d show ?thesis
        by (intro refused [of "snd (record_inner raced n payload p)"])
          (auto simp: record_inner_def channel_try_send_def Let_def)
    qed
  qed
qed

lemma record_inner_steps:
  assumes "record_inner raced n payload p = (b, p')"
  shows "capacity_steps (pr_capacity p, admissions (queued (pr_queue p)) + R)
    (pr_capacity p', admissions (queued (pr_queue p')) + R)"
proof (cases rule: record_inner_cases [of raced n payload p])
  case (accepted a c)
  with try_reserve_steps [of "pr_capacity p" "admissions (queued (pr_queue p)) + R" n] assms
  show ?thesis by auto
qed (use assms in auto)

lemma inner_close_simps:
  assumes "inner_close e1 e2 p = (ds, p')"
  shows "pr_queue p' = pr_queue p" "pr_capacity p' = pr_capacity p" "pr_closed p'"
    "pr_delivery_stopped p' = pr_delivery_stopped p"
  using assms
  by (auto simp: inner_close_def wait_for_worker_def shutdown_try_send_def Let_def
      split: if_splits prod.splits worker_wait.splits)

lemma event_step_steps:
  assumes "event_step s s'" and "0 < batch_size (snd s)"
  shows "capacity_steps (pr_capacity (fst s), held s + R) (pr_capacity (fst s'), held s' + R) \<and>
    ew_config (snd s') = ew_config (snd s)"
  using assms
proof (cases rule: event_step_cases)
  case (step_record raced n payload p b p' w)
  with record_inner_steps [OF step_record(3), of "admissions (ew_buffer w) + R"] show ?thesis
    by (simp add: add.assoc)
next
  case (step_close e1 e2 p ds p' w)
  with inner_close_simps [OF step_close(3)] show ?thesis by simp
next
  case (step_process p msg rest env w keep reply w' c')
  have b: "0 < batch_size w" using assms(2) step_process(1) by simp
  have "admissions (queued (pr_queue p)) =
      (case msg of PayloadMsg e \<Rightarrow> {#Admitted (pe_admission e)#} | FlushMsg _ \<Rightarrow> {#}) + admissions (queued rest)"
    using step_process(3) by (cases msg) simp_all
  with step_process process_steps [OF step_process(4) b, of "admissions (queued rest) + R"]
    process_config [OF step_process(4) b] show ?thesis
    by (simp add: add_ac)
next
  case (step_timer env w p outcome w' c')
  have b: "0 < batch_size w" using assms(2) step_timer(1) by simp
  from step_timer flush_steps [OF step_timer(3) b, of "admissions (queued (pr_queue p)) + R"] flush_effect [OF step_timer(3) b]
  show ?thesis by (simp add: add_ac)
next
  case (step_exit p w)
  with drop_events_steps [of "pr_capacity p" "queued (pr_queue p) @ ew_buffer w" R] show ?thesis by simp
qed simp

lemma event_steps_steps:
  assumes "event_step\<^sup>*\<^sup>* s s'" and "0 < batch_size (snd s)"
  shows "capacity_steps (pr_capacity (fst s), held s + R) (pr_capacity (fst s'), held s' + R) \<and>
    ew_config (snd s') = ew_config (snd s)"
  using assms
proof (induction rule: rtranclp_induct)
  case (step y z)
  then have "capacity_steps (pr_capacity (fst s), held s + R) (pr_capacity (fst y), held y + R)"
    "ew_config (snd y) = ew_config (snd s)" by simp_all
  moreover from this step have "0 < batch_size (snd y)" by (simp add: batch_size_def)
  ultimately show ?case using event_step_steps [OF step(2), of R] by (auto intro: rtranclp_trans)
qed simp

section \<open>Properties\<close>

definition retained :: "event_processor_inner \<times> 'u event_worker \<Rightarrow> nat" where
  "retained s = (\<Sum>e \<leftarrow> queued (pr_queue (fst s)) @ ew_buffer (snd s). unat (adm_retained_bytes (pe_admission e)))"

lemma held_bytes_plus: "held_bytes (A + B) = held_bytes A + held_bytes B"
  by (simp add: held_bytes_def)

lemma held_bytes_admissions: "\<Sum>\<^sub># (image_mset unat (held_bytes (admissions es)))
    = (\<Sum>e \<leftarrow> es. unat (adm_retained_bytes (pe_admission e)))"
  by (induction es) simp_all

text \<open>
  The memory budget holds: however recording threads, flushes, closes and the worker
  interleave, the bytes counted are exactly those of the events in the queue and in the
  worker's batch, and they never exceed the configured budget.
\<close>

theorem memory_budget_holds:
  assumes "event_processor_new opts None = Active p0"
    and "0 < unat (wc_max_events_per_request cfg)"
    and "event_step\<^sup>*\<^sup>* (p0, event_worker_new cfg client stopped) (p, w)"
  shows "unat (cap_retained_bytes (pr_capacity p)) = retained (p, w) \<and>
    retained (p, w) \<le> unat (opt_max_event_queue_size_bytes opts)"
proof -
  have p0: "pr_queue p0 = []"
    "pr_capacity p0 = capacity_new (opt_max_events_in_queue opts) (opt_max_event_queue_size_bytes opts)"
    using assms(1) by (auto simp: event_processor_new_def worker_spawn_def split: if_splits)
  have w0: "ew_buffer (event_worker_new cfg client stopped) = []" "0 < batch_size (event_worker_new cfg client stopped)"
    using assms(2) by (simp_all add: event_worker_new_def batch_size_def)
  have "capacity_steps (pr_capacity p0, {#}) (pr_capacity p, held (p, w))"
    using event_steps_steps [OF assms(3), of "{#}"] p0 w0 by simp
  from capacity_is_exact [OF this [unfolded p0]] show ?thesis
    by (simp add: retained_def held_bytes_plus held_bytes_admissions word_le_nat_alt)
qed

text \<open>
  An event is recorded or it leaves no trace: when recording fails, queue and capacity
  are as before; when it succeeds the queue has gained exactly that event, charged with the
  given size, and the processor was open and delivering.
\<close>

theorem record_is_atomic:
  "(case record_inner raced n payload p of
      (False, p') \<Rightarrow> pr_queue p' = pr_queue p \<and> pr_capacity p' = pr_capacity p
    | (True, p') \<Rightarrow> \<not> pr_closed p \<and> \<not> pr_delivery_stopped p \<and> \<not> queue_full p \<and>
        pr_queue p' = pr_queue p @ [PayloadMsg \<lparr>pe_payload = payload,
          pe_admission = \<lparr>adm_retained_bytes = n, adm_occupies_queue_slot = True\<rparr>\<rparr>] \<and>
        unat (cap_retained_bytes (pr_capacity p')) = unat (cap_retained_bytes (pr_capacity p)) + unat n)"
proof (cases rule: record_inner_cases [of raced n payload p])
  case (accepted a c)
  then have "a = \<lparr>adm_retained_bytes = n, adm_occupies_queue_slot = True\<rparr> \<and>
      unat (cap_retained_bytes c) = unat (cap_retained_bytes (pr_capacity p)) + unat n"
    by (auto simp: try_reserve_def Let_def split: option.splits dest!: word_counter.reserve_Some)
  with accepted show ?thesis by simp
qed simp

lemma wait_for_worker_simps:
  assumes "wait_for_worker budget e p = (r, ds, p')"
  shows "ds = [budget]" "pr_closed p' = pr_closed p"
  using assms by (auto simp: wait_for_worker_def split: prod.splits)

lemma inner_close_open:
  assumes "\<not> pr_closed p"
  shows "pr_closed (snd (inner_close e1 e2 p)) \<and> pr_close_complete (snd (inner_close e1 e2 p)) \<and>
    sum_list (fst (inner_close e1 e2 p)) \<le> public_wait (pr_flush_timeout p)"
proof -
  define timeout abort_budget where "timeout = public_wait (pr_flush_timeout p)"
    and "abort_budget = min (timeout div 4) (from_millis 100)"
  define p1 where "p1 = shutdown_try_send Graceful (p\<lparr>pr_closed := True, pr_has_sender := False\<rparr>)"
  obtain r ds p2 where w1: "wait_for_worker (timeout - abort_budget) e1 p1 = (r, ds, p2)" by (metis prod_cases3)
  define p2' where "p2' = shutdown_try_send Abort (p2\<lparr>pr_abort := True\<rparr>)"
  obtain r' ds' p3 where w2: "wait_for_worker abort_budget e2 p2' = (r', ds', p3)" by (metis prod_cases3)
  have "pr_closed p1" by (simp add: p1_def shutdown_try_send_def)
  with wait_for_worker_simps [OF w1] have p2: "pr_closed p2" "ds = [timeout - abort_budget]" by simp_all
  then have "pr_closed p2'" by (simp add: p2'_def shutdown_try_send_def)
  with wait_for_worker_simps [OF w2] have p3: "pr_closed p3" "ds' = [abort_budget]" by simp_all
  have le: "abort_budget \<le> timeout" by (simp add: abort_budget_def)
  have "inner_close e1 e2 p =
      (if r = WaitTimeout then (ds @ ds', p3\<lparr>pr_close_complete := True\<rparr>) else (ds, p2\<lparr>pr_close_complete := True\<rparr>))"
    using assms w1 w2 unfolding inner_close_def timeout_def [symmetric] Let_def abort_budget_def [symmetric] p1_def [symmetric]
    by (cases r) (simp_all add: p2'_def)
  with p2 p3 le show ?thesis by (simp flip: timeout_def)
qed

lemma inner_close_sum: "sum_list (fst (inner_close e1 e2 p)) \<le> public_wait (pr_flush_timeout p)"
proof (cases "pr_closed p")
  case True
  obtain r ds p2 where w1: "wait_for_worker (public_wait (pr_flush_timeout p)) e1 p = (r, ds, p2)" by (metis prod_cases3)
  with True wait_for_worker_simps [OF w1] show ?thesis by (simp add: inner_close_def)
qed (simp add: inner_close_open)

text \<open>
  C37. Closing takes at most the flush timeout: the waits of a close add up to no more than
  the configured timeout, capped at 365 days; afterwards nothing is recorded any more, and
  closing again after a first close neither waits nor changes anything.
\<close>

theorem close_within_flush_timeout:
  "sum_list (fst (inner_close e1 e2 p)) \<le> min (pr_flush_timeout p) MAX_PUBLIC_WAIT \<and>
    fst (record_inner raced n payload (snd (inner_close e1 e2 p))) = False \<and>
    inner_close e3 e4 (snd (inner_close e1 e2 (p\<lparr>pr_closed := False\<rparr>))) = ([], snd (inner_close e1 e2 (p\<lparr>pr_closed := False\<rparr>)))"
proof -
  have "pr_closed (snd (inner_close e1 e2 p))"
    using inner_close_simps(3) [of e1 e2 p "fst (inner_close e1 e2 p)" "snd (inner_close e1 e2 p)"] by simp
  moreover have "pr_closed (snd (inner_close e1 e2 (p\<lparr>pr_closed := False\<rparr>)))"
    "pr_close_complete (snd (inner_close e1 e2 (p\<lparr>pr_closed := False\<rparr>)))"
    using inner_close_open [of "p\<lparr>pr_closed := False\<rparr>" e1 e2] by simp_all
  ultimately show ?thesis
    using inner_close_sum [of e1 e2 p] by (simp add: record_inner_def inner_close_def [of e3] public_wait_def)
qed

text \<open>
  Only valid evaluations of flags with insights are queued: a successful call leaves the
  payload of exactly that user, flag, variation and time at the end of the queue.
\<close>

theorem recorded_evaluations_are_valid:
  assumes "record_evaluation ly raced u e (Active p) = (True, q)"
  shows "ev_insights_enabled e \<and> u_key u \<noteq> [] \<and> \<not> str_is_blank (ev_flag_key e) \<and> \<not> str_is_blank (ev_variation_id e) \<and>
    (\<exists>p' adm. q = Active p' \<and> pr_queue p' = pr_queue p @ [PayloadMsg
      \<lparr>pe_payload = payload_evaluation_at u (ev_flag_key e) (ev_variation_id e) (ev_variation_value e) (ev_timestamp e),
       pe_admission = adm\<rparr>])"
proof -
  from assms have v: "ev_insights_enabled e" "u_key u \<noteq> []" "\<not> str_is_blank (ev_flag_key e)" "\<not> str_is_blank (ev_variation_id e)"
    by (auto simp: record_evaluation_def record_evaluation_at_def split: if_splits)
  with assms obtain n where r: "record_event raced n
      (payload_evaluation_at u (ev_flag_key e) (ev_variation_id e) (ev_variation_value e) (ev_timestamp e)) (Active p) = (True, q)"
    by (auto simp: record_evaluation_def record_evaluation_at_def split: if_splits)
  then obtain p' where p': "record_inner raced n
      (payload_evaluation_at u (ev_flag_key e) (ev_variation_id e) (ev_variation_value e) (ev_timestamp e)) p = (True, p')"
    "q = Active p'"
    by (auto simp: record_event_def split: prod.splits)
  with v show ?thesis
    by (cases rule: record_inner_cases [of raced n
      "payload_evaluation_at u (ev_flag_key e) (ev_variation_id e) (ev_variation_value e) (ev_timestamp e)" p]) auto
qed

section \<open>Witnesses\<close>

lemma processor_online:
  assumes "\<not> opt_offline opts" and "opt_allow_track opts"
  obtains p0 where "event_processor_new opts None = Active p0" "pr_queue p0 = []" "\<not> queue_full p0 = (0 < unat (opt_max_events_in_queue opts))"
    "\<not> pr_closed p0" "pr_has_sender p0" "pr_receiver_alive p0" "\<not> pr_delivery_stopped p0"
    "pr_capacity p0 = capacity_new (opt_max_events_in_queue opts) (opt_max_event_queue_size_bytes opts)"
  using assms by (simp add: event_processor_new_def worker_spawn_def queue_full_def)

definition sample_processor :: event_processor_inner where
  "sample_processor =
    \<lparr>pr_has_sender = True, pr_queue = [], pr_queue_capacity = 5, pr_receiver_alive = True, pr_shutdown_queue = [],
     pr_abort = False, pr_closed = False, pr_close_complete = False, pr_capacity_exceeded = False,
     pr_capacity = capacity_new 5 1000, pr_delivery_stopped = False,
     pr_worker = \<lparr>wt_completed = False, wt_has_handle = True\<rparr>, pr_flush_timeout = 5\<rparr>"

definition sample_layout :: layout where
  "sample_layout =
    \<lparr>size_of_payload_event = 8, size_of_evaluation_variation = 8, size_of_metric = 8, size_of_customized_property = 8,
     size_of_event_admission = 8\<rparr>"

lemma sample_record: "fst (record_inner False 7 payload sample_processor)"
  by (simp add: record_inner_def sample_processor_def queue_full_def try_reserve_def capacity_new_def counter_next_def
      checked_add_def usize_max_def channel_try_send_def Let_def)

theorem memory_budget_holds_witness:
  "\<exists>(opts :: (str, unit) fb_options) p0 p.
    event_processor_new opts None = Active p0 \<and>
    event_step (p0, event_worker_new sample_config sample_client False) (p, event_worker_new sample_config sample_client False) \<and>
    unat (cap_retained_bytes (pr_capacity p)) \<le> unat (opt_max_event_queue_size_bytes opts)"
proof -
  obtain opts :: "(str, unit) fb_options" where o: "\<not> opt_offline opts" "opt_allow_track opts"
    using sample_options sample_built(3,4) by blast
  obtain p0 where p0: "event_processor_new opts None = Active p0" by (rule processor_online [OF o])
  have "event_step (p0, event_worker_new sample_config sample_client False)
      (snd (record_inner False 7 (pe_payload sample_event) p0), event_worker_new sample_config sample_client False)"
    by (rule step_record) (rule surjective_pairing)
  note step = this
  have "event_step\<^sup>*\<^sup>* (p0, event_worker_new sample_config sample_client False)
      (snd (record_inner False 7 (pe_payload sample_event) p0), event_worker_new sample_config sample_client False)"
    using step by (rule r_into_rtranclp)
  from memory_budget_holds [OF p0 _ this] p0 step show ?thesis
    by (fastforce simp: sample_config_def)
qed

lemma sample_not_blank: "\<not> str_is_blank ''f''" "\<not> str_is_blank ''v''"
  by (simp_all add: str_is_blank_def str_trim_start.simps white_space_def)

theorem recorded_evaluations_are_valid_witness:
  "\<exists>q. record_evaluation sample_layout False \<lparr>u_key = ''u'', u_name = [], u_custom = []\<rparr>
      (evaluation_event_at ''f'' ''v'' ''true'' 0 True) (Active sample_processor) = (True, q) \<and>
    (\<exists>p' adm. q = Active p' \<and> length (pr_queue p') = 1)"
proof -
  have "fst (record_evaluation sample_layout False \<lparr>u_key = ''u'', u_name = [], u_custom = []\<rparr>
      (evaluation_event_at ''f'' ''v'' ''true'' 0 True) (Active sample_processor))"
    by (simp add: record_evaluation_def evaluation_event_at_def record_evaluation_at_def sample_not_blank is_accepting_def
        record_event_def sample_processor_def record_inner_def queue_full_def sample_layout_def estimated_evaluation_size_def
        estimated_user_size_def usize_len_def saturating_add_def saturating_mul_def usize_max_def try_reserve_def
        capacity_new_def counter_next_def checked_add_def channel_try_send_def Let_def)
  then obtain q where q: "record_evaluation sample_layout False \<lparr>u_key = ''u'', u_name = [], u_custom = []\<rparr>
      (evaluation_event_at ''f'' ''v'' ''true'' 0 True) (Active sample_processor) = (True, q)"
    by (cases "record_evaluation sample_layout False \<lparr>u_key = ''u'', u_name = [], u_custom = []\<rparr>
      (evaluation_event_at ''f'' ''v'' ''true'' 0 True) (Active sample_processor)") auto
  from recorded_evaluations_are_valid [OF q] q show ?thesis
    by (auto simp: sample_processor_def)
qed

end
