(* ===== verification/Observation.thy ===== *)
theory Observation
  imports Payload
begin

text \<open>
  \<^verbatim>\<open>src/observation.rs\<close>: what an observer is told about one evaluation attempt, and
  \<^verbatim>\<open>integrations/opentelemetry/src/lib.rs\<close>: the observer that turns it into a log record.
  The logger of the OpenTelemetry crate is a parameter: whether it accepts an event, and what
  the fields of a record hold; emitting a record appends it to what the logger has received.
\<close>

section \<open>Observations\<close>

datatype observation_reason = ObsDisabled | ObsTargetingMatch | ObsSplit | ObsDefault | ObsError

fun observation_reason_str :: "observation_reason \<Rightarrow> str" where
  "observation_reason_str ObsDisabled = ''disabled''"
| "observation_reason_str ObsTargetingMatch = ''targeting_match''"
| "observation_reason_str ObsSplit = ''split''"
| "observation_reason_str ObsDefault = ''default''"
| "observation_reason_str ObsError = ''error''"

datatype observation_error = ProviderNotReady | ObsTargetingKeyMissing | ObsFlagNotFound | ParseError | TypeMismatch

fun observation_error_str :: "observation_error \<Rightarrow> str" where
  "observation_error_str ProviderNotReady = ''provider_not_ready''"
| "observation_error_str ObsTargetingKeyMissing = ''targeting_key_missing''"
| "observation_error_str ObsFlagNotFound = ''flag_not_found''"
| "observation_error_str ParseError = ''parse_error''"
| "observation_error_str TypeMismatch = ''type_mismatch''"

record evaluation_observation =
  obs_timestamp :: system_time
  obs_flag_key :: str
  obs_context_key :: "str option"
  obs_variation_id :: "str option"
  obs_variation_value :: "str option"
  obs_reason :: observation_reason
  obs_error :: "observation_error option"

definition observation_success ::
  "system_time \<Rightarrow> str \<Rightarrow> str \<Rightarrow> str \<Rightarrow> str \<Rightarrow> observation_reason \<Rightarrow> evaluation_observation" where
  "observation_success timestamp flag_key context_key variation_id variation_value reason =
    \<lparr>obs_timestamp = timestamp, obs_flag_key = flag_key, obs_context_key = Some context_key,
     obs_variation_id = Some variation_id, obs_variation_value = Some variation_value,
     obs_reason = reason, obs_error = None\<rparr>"

definition observation_failure ::
  "system_time \<Rightarrow> str \<Rightarrow> str option \<Rightarrow> observation_error \<Rightarrow> evaluation_observation" where
  "observation_failure timestamp flag_key context_key error =
    \<lparr>obs_timestamp = timestamp, obs_flag_key = flag_key, obs_context_key = context_key,
     obs_variation_id = None, obs_variation_value = None, obs_reason = ObsError, obs_error = Some error\<rparr>"

text \<open>The \<^verbatim>\<open>Debug\<close> output; an optional field is shown through its derived form.\<close>

definition observation_debug ::
  "(system_time \<Rightarrow> str) \<Rightarrow> (observation_reason \<Rightarrow> str) \<Rightarrow> (observation_error option \<Rightarrow> str) \<Rightarrow>
    evaluation_observation \<Rightarrow> debug_value" where
  "observation_debug show_time show_reason show_error b =
    DStruct ''EvaluationObservation''
      [(''timestamp'', DRaw (show_time (obs_timestamp b))), (''flag_key'', DStr (obs_flag_key b)),
       (''context_key'', DOptStr (map_option (\<lambda>_. ''[REDACTED]'') (obs_context_key b))),
       (''variation_id'', DOptStr (obs_variation_id b)),
       (''has_variation_value'', DBool (obs_variation_value b \<noteq> None)),
       (''reason'', DRaw (show_reason (obs_reason b))), (''error'', DRaw (show_error (obs_error b)))]"

text \<open>Every observation is a success or a failure.\<close>

definition observation_ok :: "evaluation_observation \<Rightarrow> bool" where
  "observation_ok b =
    (case obs_error b of
       None \<Rightarrow> obs_reason b \<noteq> ObsError \<and> obs_variation_id b \<noteq> None \<and> obs_variation_value b \<noteq> None \<and>
         obs_context_key b \<noteq> None
     | Some e \<Rightarrow> obs_reason b = ObsError \<and> obs_variation_id b = None \<and> obs_variation_value b = None)"

lemma observation_success_ok [simp]: "observation_ok (observation_success t k c i v r) \<longleftrightarrow> r \<noteq> ObsError"
  by (simp add: observation_ok_def observation_success_def)

lemma observation_failure_ok [simp]: "observation_ok (observation_failure t k c e)"
  by (simp add: observation_ok_def observation_failure_def)

section \<open>The OpenTelemetry observer\<close>

definition EVENT_NAME :: str where
  "EVENT_NAME = ''feature_flag.evaluation''"

definition INSTRUMENTATION_TARGET :: str where
  "INSTRUMENTATION_TARGET = ''featbit-server-sdk''"

datatype severity = SeverityInfo

record log_record =
  lr_event_name :: "str option"
  lr_target :: "str option"
  lr_timestamp :: "system_time option"
  lr_severity_number :: "severity option"
  lr_severity_text :: "str option"
  lr_attributes :: "(str \<times> str) list"

definition create_log_record :: log_record where
  "create_log_record =
    \<lparr>lr_event_name = None, lr_target = None, lr_timestamp = None, lr_severity_number = None,
     lr_severity_text = None, lr_attributes = []\<rparr>"

definition add_attribute :: "str \<Rightarrow> str \<Rightarrow> log_record \<Rightarrow> log_record" where
  "add_attribute k v r = r\<lparr>lr_attributes := lr_attributes r @ [(k, v)]\<rparr>"

definition add_optional :: "str \<Rightarrow> str option \<Rightarrow> log_record \<Rightarrow> log_record" where
  "add_optional k v r = (case v of None \<Rightarrow> r | Some a \<Rightarrow> add_attribute k a r)"

record otel_observer =
  oo_enabled :: "severity \<Rightarrow> str \<Rightarrow> str option \<Rightarrow> bool"
  oo_include_context_id :: bool
  oo_include_value :: bool

definition otel_observer_new :: "(severity \<Rightarrow> str \<Rightarrow> str option \<Rightarrow> bool) \<Rightarrow> otel_observer" where
  "otel_observer_new logger = \<lparr>oo_enabled = logger, oo_include_context_id = False, oo_include_value = False\<rparr>"

definition otel_with_context_id :: "bool \<Rightarrow> otel_observer \<Rightarrow> otel_observer" where
  "otel_with_context_id include ob = ob\<lparr>oo_include_context_id := include\<rparr>"

definition otel_with_value :: "bool \<Rightarrow> otel_observer \<Rightarrow> otel_observer" where
  "otel_with_value include ob = ob\<lparr>oo_include_value := include\<rparr>"

text \<open>\<^verbatim>\<open>on_evaluation\<close>: the records the logger has received, before and after.\<close>

definition on_evaluation :: "otel_observer \<Rightarrow> evaluation_observation \<Rightarrow> log_record list \<Rightarrow> log_record list" where
  "on_evaluation ob b emitted =
    (if \<not> oo_enabled ob SeverityInfo INSTRUMENTATION_TARGET (Some EVENT_NAME) then emitted
     else
       let r0 = create_log_record\<lparr>lr_event_name := Some EVENT_NAME, lr_target := Some INSTRUMENTATION_TARGET,
                  lr_timestamp := Some (obs_timestamp b), lr_severity_number := Some SeverityInfo,
                  lr_severity_text := Some ''INFO''\<rparr>;
           r1 = add_attribute ''feature_flag.key'' (obs_flag_key b) r0;
           r2 = add_attribute ''feature_flag.provider.name'' ''FeatBit'' r1;
           r3 = add_attribute ''feature_flag.result.reason'' (observation_reason_str (obs_reason b)) r2;
           r4 = add_optional ''feature_flag.result.variant'' (obs_variation_id b) r3;
           r5 = add_optional ''error.type'' (map_option observation_error_str (obs_error b)) r4;
           r6 = (if oo_include_context_id ob
                 then add_optional ''feature_flag.context.id'' (obs_context_key b) r5 else r5);
           r7 = (if oo_include_value ob
                 then add_optional ''feature_flag.result.value'' (obs_variation_value b) r6 else r6)
       in emitted @ [r7])"

definition otel_debug :: "otel_observer \<Rightarrow> debug_value" where
  "otel_debug ob =
    DStruct ''OpenTelemetryEvaluationObserver''
      [(''include_context_id'', DBool (oo_include_context_id ob)), (''include_value'', DBool (oo_include_value ob))]"

text \<open>The attributes of an emitted record, in order.\<close>

definition otel_attributes :: "otel_observer \<Rightarrow> evaluation_observation \<Rightarrow> (str \<times> str) list" where
  "otel_attributes ob b =
    [(''feature_flag.key'', obs_flag_key b), (''feature_flag.provider.name'', ''FeatBit''),
     (''feature_flag.result.reason'', observation_reason_str (obs_reason b))] @
    (case obs_variation_id b of None \<Rightarrow> [] | Some i \<Rightarrow> [(''feature_flag.result.variant'', i)]) @
    (case obs_error b of None \<Rightarrow> [] | Some e \<Rightarrow> [(''error.type'', observation_error_str e)]) @
    (case obs_context_key b of
       Some k \<Rightarrow> if oo_include_context_id ob then [(''feature_flag.context.id'', k)] else [] | None \<Rightarrow> []) @
    (case obs_variation_value b of
       Some v \<Rightarrow> if oo_include_value ob then [(''feature_flag.result.value'', v)] else [] | None \<Rightarrow> [])"

lemma add_optional_attributes:
  "lr_attributes (add_optional k v r) = lr_attributes r @ (case v of None \<Rightarrow> [] | Some a \<Rightarrow> [(k, a)])"
  by (simp add: add_optional_def add_attribute_def split: option.splits)

lemma on_evaluation_attributes:
  "map lr_attributes (on_evaluation ob b emitted) =
    map lr_attributes emitted @
      (if oo_enabled ob SeverityInfo INSTRUMENTATION_TARGET (Some EVENT_NAME) then [otel_attributes ob b] else [])"
  by (simp add: on_evaluation_def otel_attributes_def Let_def add_attribute_def [of "''feature_flag.key''"]
      add_attribute_def [of "''feature_flag.provider.name''"] add_attribute_def [of "''feature_flag.result.reason''"]
      create_log_record_def add_optional_attributes split: option.splits)

text \<open>
  Privacy by default: two observations that differ in the targeting key and in the raw
  value only lead to the same log records unless exporting them was asked for, and to the same
  debug output when they carry these fields at all.
\<close>

theorem private_fields_stay_private:
  "on_evaluation (otel_observer_new logger) (b\<lparr>obs_context_key := k, obs_variation_value := v\<rparr>) emitted =
     on_evaluation (otel_observer_new logger) b emitted \<and>
   on_evaluation (otel_with_context_id True (otel_observer_new logger)) (b\<lparr>obs_variation_value := v\<rparr>) emitted =
     on_evaluation (otel_with_context_id True (otel_observer_new logger)) b emitted \<and>
   on_evaluation (otel_with_value True (otel_observer_new logger)) (b\<lparr>obs_context_key := k\<rparr>) emitted =
     on_evaluation (otel_with_value True (otel_observer_new logger)) b emitted \<and>
   observation_debug st sr se (b\<lparr>obs_context_key := Some k1, obs_variation_value := Some v1\<rparr>) =
     observation_debug st sr se (b\<lparr>obs_context_key := Some k2, obs_variation_value := Some v2\<rparr>)"
  by (simp add: on_evaluation_def otel_observer_new_def otel_with_context_id_def otel_with_value_def
      observation_debug_def Let_def)

end
