(* ===== verification/Client.thy ===== *)
theory Client
  imports Evaluator Data_Sync Events Observation
begin

text \<open>
  \<^verbatim>\<open>src/client.rs\<close>: the client with the parts it shares with its threads (snapshot,
  status, synchronizer, event processor), its construction, status, tracking, flushing and
  closing. The shared parts are fields of one record; what the threads do to them are steps of
  their own. The observer is code of the application: the model keeps the observations it has
  been given. The layouts, the clock and the race for the last slot of the queue are one
  argument of the operations that use them.
\<close>

section \<open>Types\<close>

datatype client_status = NotReady | ClientReady | ClientStale | ClientClosed

datatype reason_kind =
  KClientNotReady | KOff | KFallthrough | KTargetMatch | KRuleMatch | KWrongType | KError

record 'a evaluation_detail =
  de_key :: str
  de_kind :: reason_kind
  de_reason :: str
  de_value :: 'a
  de_variation_id :: str
  de_evaluation_event :: "fb_evaluation_event option"

text \<open>The hand-written \<^verbatim>\<open>PartialEq\<close>, over the equality of the values.\<close>

definition detail_eq :: "('a \<Rightarrow> 'a \<Rightarrow> bool) \<Rightarrow> 'a evaluation_detail \<Rightarrow> 'a evaluation_detail \<Rightarrow> bool" where
  "detail_eq eq a b =
    (de_key a = de_key b \<and> de_kind a = de_kind b \<and> de_reason a = de_reason b \<and>
     eq (de_value a) (de_value b) \<and> de_variation_id a = de_variation_id b)"

definition detail_fallback :: "str \<Rightarrow> reason_kind \<Rightarrow> str \<Rightarrow> 'a \<Rightarrow> 'a evaluation_detail" where
  "detail_fallback key kind reason value =
    \<lparr>de_key = key, de_kind = kind, de_reason = reason, de_value = value, de_variation_id = [],
     de_evaluation_event = None\<rparr>"

record ('u, 'o, 'r) client =
  cl_options :: "('u, 'o) fb_options"
  cl_snapshot :: "'r data_snapshot"
  cl_status :: status_tracker
  cl_synchronizer :: "synchronizer option"
  cl_event_processor :: event_processor
  cl_closed :: bool
  cl_observed :: "evaluation_observation list"

record eval_env =
  ee_layout :: layout
  ee_raced :: bool
  ee_now :: system_time

section \<open>Construction\<close>

text \<open>
  \<^verbatim>\<open>with_options\<close>: the two arguments before the options are the errors of starting the
  event worker and the synchronizer, if there are any.
\<close>

definition with_options ::
  "'r crates \<Rightarrow> str option \<Rightarrow> str option \<Rightarrow> ('u, 'o) fb_options \<Rightarrow> ('u, 'o, 'r) client" where
  "with_options x event_spawn_error sync_spawn_error opts =
    (let store = (if opt_offline opts
                  then (case opt_bootstrap opts of
                          Some bootstrap \<Rightarrow> populate x (env_data bootstrap) | None \<Rightarrow> store_new)
                  else store_new);
         status = (if opt_offline opts then tracker_new Ready True else tracker_new Starting False);
         processor = event_processor_new opts event_spawn_error;
         (sync, status') = (if opt_offline opts then (None, status)
                            else synchronizer_start opts sync_spawn_error status)
     in \<lparr>cl_options = opts, cl_snapshot = store, cl_status = status', cl_synchronizer = sync,
         cl_event_processor = processor, cl_closed = False, cl_observed = []\<rparr>)"

text \<open>
  The wait at its end, which only decides what is logged: \<^verbatim>\<open>locked\<close> and \<^verbatim>\<open>rounds\<close> are
  what the waiting thread reads of the status, \<^const>\<open>Some\<close> \<^const>\<open>None\<close> a wait that goes on.
\<close>

definition start_wait ::
  "status_tracker \<Rightarrow> wait_round list \<Rightarrow> ('u, 'o, 'r) client \<Rightarrow> bool option option" where
  "start_wait locked rounds c =
    (if opt_offline (cl_options c) then None
     else Some (wait_until_initialized (cl_status c) locked rounds))"

definition client_new ::
  "'r crates \<Rightarrow> 'u url_crate \<Rightarrow> str option \<Rightarrow> str option \<Rightarrow> str \<Rightarrow> config_error + ('u, 'o, 'r) client" where
  "client_new x uc event_spawn_error sync_spawn_error env_secret =
    (case build x uc (options_builder_new env_secret) of
       Inl e \<Rightarrow> Inl e
     | Inr opts \<Rightarrow> Inr (with_options x event_spawn_error sync_spawn_error opts))"

section \<open>Status\<close>

definition client_initialized :: "('u, 'o, 'r) client \<Rightarrow> bool" where
  "client_initialized c = tracker_initialized (cl_status c)"

definition client_current_status :: "('u, 'o, 'r) client \<Rightarrow> client_status" where
  "client_current_status c =
    (case tracker_status (cl_status c) of
       Starting \<Rightarrow> NotReady | Ready \<Rightarrow> ClientReady | Stale \<Rightarrow> ClientStale | Closed \<Rightarrow> ClientClosed)"

fun client_status_debug :: "client_status \<Rightarrow> str" where
  "client_status_debug NotReady = ''NotReady''"
| "client_status_debug ClientReady = ''Ready''"
| "client_status_debug ClientStale = ''Stale''"
| "client_status_debug ClientClosed = ''Closed''"

definition client_debug :: "('u, 'o, 'r) client \<Rightarrow> debug_value" where
  "client_debug c =
    DStruct ''FbClient''
      [(''initialized'', DBool (client_initialized c)), (''status'', DRaw (client_status_debug (client_current_status c)))]"

definition evaluation_available :: "('u, 'o, 'r) client \<Rightarrow> bool" where
  "evaluation_available c =
    (\<not> cl_closed c \<and> client_initialized c \<and> tracker_status (cl_status c) \<in> {Ready, Stale})"

definition tracking_available :: "('u, 'o, 'r) client \<Rightarrow> bool" where
  "tracking_available c =
    (opt_allow_track (cl_options c) \<and> \<not> cl_closed c \<and> tracker_status (cl_status c) \<noteq> Closed \<and>
     is_accepting (cl_event_processor c))"

section \<open>Tracking and flushing\<close>

text \<open>The result of an operation of the event processor, in the client.\<close>

definition with_processor :: "('u, 'o, 'r) client \<Rightarrow> 'a \<times> event_processor \<Rightarrow> 'a \<times> ('u, 'o, 'r) client" where
  "with_processor c r = (fst r, c\<lparr>cl_event_processor := snd r\<rparr>)"

definition track_eval_event ::
  "eval_env \<Rightarrow> fb_user \<Rightarrow> fb_evaluation_event \<Rightarrow> ('u, 'o, 'r) client \<Rightarrow> bool \<times> ('u, 'o, 'r) client" where
  "track_eval_event env u e c =
    (if tracking_available c
     then with_processor c (record_evaluation (ee_layout env) (ee_raced env) u e (cl_event_processor c))
     else (False, c))"

definition track_eval_event_for_flag ::
  "'r crates \<Rightarrow> eval_env \<Rightarrow> fb_user \<Rightarrow> str \<Rightarrow> ('u, 'o, 'r) client \<Rightarrow> bool \<times> ('u, 'o, 'r) client" where
  "track_eval_event_for_flag x env u flag_key c =
    (if \<not> tracking_available c \<or> \<not> evaluation_available c then (False, c)
     else
       (case evaluate x (cl_snapshot c) flag_key u of
          Inl e \<Rightarrow> (False, c)
        | Inr result \<Rightarrow>
            let event = evaluation_event_new flag_key (var_id (er_variation result))
                  (var_value (er_variation result)) (er_insights_enabled result) (ee_now env)
            in with_processor c (record_evaluation (ee_layout env) (ee_raced env) u event (cl_event_processor c))))"

definition track_metric_event ::
  "eval_env \<Rightarrow> fb_user \<Rightarrow> str \<Rightarrow> f64 \<Rightarrow> ('u, 'o, 'r) client \<Rightarrow> bool \<times> ('u, 'o, 'r) client" where
  "track_metric_event env u event_name numeric_value c =
    (if tracking_available c
     then with_processor c (record_metric (ee_layout env) (ee_raced env) u event_name numeric_value
            (unix_millis (ee_now env)) (cl_event_processor c))
     else (False, c))"

definition track_value :: "eval_env \<Rightarrow> fb_user \<Rightarrow> str \<Rightarrow> f64 \<Rightarrow> ('u, 'o, 'r) client \<Rightarrow> ('u, 'o, 'r) client" where
  "track_value env u event_name numeric_value c = snd (track_metric_event env u event_name numeric_value c)"

definition track :: "eval_env \<Rightarrow> fb_user \<Rightarrow> str \<Rightarrow> ('u, 'o, 'r) client \<Rightarrow> ('u, 'o, 'r) client" where
  "track env u event_name c = snd (track_metric_event env u event_name (Fin False 1) c)"

definition client_flush :: "bool \<Rightarrow> ('u, 'o, 'r) client \<Rightarrow> ('u, 'o, 'r) client" where
  "client_flush raced c = c\<lparr>cl_event_processor := processor_flush raced (cl_event_processor c)\<rparr>"

definition client_flush_and_wait ::
  "bool \<Rightarrow> bool option \<Rightarrow> ('u, 'o, 'r) client \<Rightarrow> bool \<times> ('u, 'o, 'r) client" where
  "client_flush_and_wait sent reply c = with_processor c (flush_and_wait sent reply (cl_event_processor c))"

section \<open>Closing\<close>

text \<open>
  The three actions of a close, between which other threads may act. \<^verbatim>\<open>sync\<close>, \<^verbatim>\<open>e1\<close> and
  \<^verbatim>\<open>e2\<close> say of the waits for the two workers whether they complete in time and whether
  joining succeeds. The synchronizer's view of the shared status is the client's.
\<close>

definition close_flag :: "('u, 'o, 'r) client \<Rightarrow> ('u, 'o, 'r) client" where
  "close_flag c = c\<lparr>cl_closed := True\<rparr>"

definition close_synchronizer :: "bool \<times> bool \<Rightarrow> ('u, 'o, 'r) client \<Rightarrow> ('u, 'o, 'r) client" where
  "close_synchronizer sync c =
    (case cl_synchronizer c of
       Some s \<Rightarrow>
         let s' = synchronizer_close (fst sync) (snd sync) (s\<lparr>sy_tracker := cl_status c\<rparr>)
         in c\<lparr>cl_synchronizer := Some s', cl_status := sy_tracker s'\<rparr>
     | None \<Rightarrow> c\<lparr>cl_status := tracker_set Closed (cl_status c)\<rparr>)"

definition close_events :: "bool \<times> bool \<Rightarrow> bool \<times> bool \<Rightarrow> ('u, 'o, 'r) client \<Rightarrow> ('u, 'o, 'r) client" where
  "close_events e1 e2 c = c\<lparr>cl_event_processor := snd (processor_close e1 e2 (cl_event_processor c))\<rparr>"

definition client_close ::
  "bool \<times> bool \<Rightarrow> bool \<times> bool \<Rightarrow> bool \<times> bool \<Rightarrow> ('u, 'o, 'r) client \<Rightarrow> ('u, 'o, 'r) client" where
  "client_close sync e1 e2 c = close_events e1 e2 (close_synchronizer sync (close_flag c))"

end
