(* ===== verification/Client_Evaluation.thy ===== *)
theory Client_Evaluation
  imports Client
begin

text \<open>
  \<^verbatim>\<open>src/client/evaluation.rs\<close>: the typed evaluation methods of the client. Every method
  evaluates once against the published snapshot, converts the variation's text, records an
  analytics event and tells the observer; the value methods take a shorter path than the detail
  methods. The closures of the code are functions from the client to the client.
\<close>

datatype evaluation_error = ClientNotReady | TargetingKeyMissing | FlagNotFoundError | MalformedFlagError

fun evaluation_error_display :: "evaluation_error \<Rightarrow> str" where
  "evaluation_error_display ClientNotReady = ''client not ready''"
| "evaluation_error_display TargetingKeyMissing = ''targeting key is missing''"
| "evaluation_error_display FlagNotFoundError = ''flag not found''"
| "evaluation_error_display MalformedFlagError = ''malformed flag''"

fun evaluation_error_from :: "eval_error \<Rightarrow> evaluation_error" where
  "evaluation_error_from InvalidContext = TargetingKeyMissing"
| "evaluation_error_from FlagNotFound = FlagNotFoundError"
| "evaluation_error_from MalformedFlag = MalformedFlagError"

record raw_evaluation =
  raw_flag_id :: str
  raw_flag_type :: str
  raw_reason :: evaluation_reason
  raw_event :: fb_evaluation_event

definition raw_flag_key :: "raw_evaluation \<Rightarrow> str" where
  "raw_flag_key raw = ev_flag_key (raw_event raw)"

definition raw_variation_id :: "raw_evaluation \<Rightarrow> str" where
  "raw_variation_id raw = ev_variation_id (raw_event raw)"

definition raw_value :: "raw_evaluation \<Rightarrow> str" where
  "raw_value raw = ev_variation_value (raw_event raw)"

section \<open>Reasons and errors\<close>

fun observation_reason_of :: "evaluation_reason \<Rightarrow> observation_reason" where
  "observation_reason_of Off = ObsDisabled"
| "observation_reason_of TargetMatch = ObsTargetingMatch"
| "observation_reason_of (RuleMatch name split) = (if split then ObsSplit else ObsTargetingMatch)"
| "observation_reason_of (FallthroughMatch split) = (if split then ObsSplit else ObsDefault)"

fun observation_reason_borrowed :: "eval_reason \<Rightarrow> observation_reason" where
  "observation_reason_borrowed EOff = ObsDisabled"
| "observation_reason_borrowed ETargetMatch = ObsTargetingMatch"
| "observation_reason_borrowed (ERuleMatch name split) = (if split then ObsSplit else ObsTargetingMatch)"
| "observation_reason_borrowed (EFallthrough split) = (if split then ObsSplit else ObsDefault)"

fun observation_error_of :: "evaluation_error \<Rightarrow> observation_error" where
  "observation_error_of ClientNotReady = ProviderNotReady"
| "observation_error_of TargetingKeyMissing = ObsTargetingKeyMissing"
| "observation_error_of FlagNotFoundError = ObsFlagNotFound"
| "observation_error_of MalformedFlagError = ParseError"

fun reason_detail :: "eval_reason \<Rightarrow> reason_kind \<times> str" where
  "reason_detail EOff = (KOff, ''flag off'')"
| "reason_detail ETargetMatch = (KTargetMatch, ''target match'')"
| "reason_detail (ERuleMatch name split) = (KRuleMatch, ''match rule '' @ name)"
| "reason_detail (EFallthrough split) = (KFallthrough, ''fall through targets and rules'')"

definition conversion_failure_detail :: "observation_error \<Rightarrow> reason_kind \<times> str" where
  "conversion_failure_detail e =
    (if e = ParseError then (KError, ''parse error'') else (KWrongType, ''type mismatch''))"

fun evaluation_failure_detail :: "evaluation_error \<Rightarrow> reason_kind \<times> str" where
  "evaluation_failure_detail ClientNotReady = (KClientNotReady, ''client not ready'')"
| "evaluation_failure_detail TargetingKeyMissing = (KError, ''targeting key is missing'')"
| "evaluation_failure_detail FlagNotFoundError = (KError, ''flag not found'')"
| "evaluation_failure_detail MalformedFlagError = (KError, ''malformed flag'')"

section \<open>Converters\<close>

definition parse_bool :: "str \<Rightarrow> observation_error + bool" where
  "parse_bool value =
    (if eq_ignore_ascii_case value ''true'' then Inr True
     else if eq_ignore_ascii_case value ''false'' then Inr False
     else Inl TypeMismatch)"

definition parse_int :: "str \<Rightarrow> observation_error + int" where
  "parse_int value = (case parse_i64 value of Some i \<Rightarrow> Inr i | None \<Rightarrow> Inl TypeMismatch)"

definition parse_float :: "str \<Rightarrow> observation_error + f64" where
  "parse_float value = (case parse_finite_f64 value of Some n \<Rightarrow> Inr n | None \<Rightarrow> Inl TypeMismatch)"

definition parse_string :: "str \<Rightarrow> observation_error + str" where
  "parse_string value = Inr value"

definition parse_json :: "'r crates \<Rightarrow> str \<Rightarrow> observation_error + json" where
  "parse_json x value = (case json_parse x value of Some j \<Rightarrow> Inr j | None \<Rightarrow> Inl ParseError)"

section \<open>Observing\<close>

text \<open>The configured observer, if there is one, is called.\<close>

definition notify :: "evaluation_observation \<Rightarrow> ('u, 'o, 'r) client \<Rightarrow> ('u, 'o, 'r) client" where
  "notify b c =
    (if opt_evaluation_observer (cl_options c) = None then c else c\<lparr>cl_observed := cl_observed c @ [b]\<rparr>)"

definition observe_evaluation_error ::
  "eval_env \<Rightarrow> str \<Rightarrow> str option \<Rightarrow> observation_error \<Rightarrow> ('u, 'o, 'r) client \<Rightarrow> ('u, 'o, 'r) client" where
  "observe_evaluation_error env key context_key e c =
    (case opt_evaluation_observer (cl_options c) of
       None \<Rightarrow> c
     | Some observer \<Rightarrow> notify (observation_failure (ee_now env) key context_key e) c)"

definition notify_successful_evaluation :: "evaluation_observation option \<Rightarrow> ('u, 'o, 'r) client \<Rightarrow> ('u, 'o, 'r) client" where
  "notify_successful_evaluation b c = (case b of None \<Rightarrow> c | Some b' \<Rightarrow> notify b' c)"

text \<open>Of \<^verbatim>\<open>SuccessfulEvaluation\<close>: timestamp, key, context key, variation id, value, reason.\<close>

definition successful_evaluation_observation ::
  "('u, 'o, 'r) client \<Rightarrow> system_time \<Rightarrow> str \<Rightarrow> str \<Rightarrow> str \<Rightarrow> str \<Rightarrow> observation_reason \<Rightarrow> evaluation_observation option" where
  "successful_evaluation_observation c timestamp key context_key variation_id variation_value reason =
    (case opt_evaluation_observer (cl_options c) of
       None \<Rightarrow> None
     | Some observer \<Rightarrow>
         Some (observation_success timestamp key context_key variation_id variation_value reason))"

section \<open>Completing an evaluation\<close>

definition should_complete_value_evaluation :: "bool \<Rightarrow> ('u, 'o, 'r) client \<Rightarrow> bool" where
  "should_complete_value_evaluation insights_enabled c =
    (opt_evaluation_observer (cl_options c) \<noteq> None \<or>
     insights_enabled \<and> \<not> opt_disable_events (cl_options c) \<and> is_accepting (cl_event_processor c))"

definition complete_evaluation ::
  "eval_env \<Rightarrow> fb_user \<Rightarrow> str \<Rightarrow> eval_result \<Rightarrow> system_time \<Rightarrow> ('u, 'o, 'r) client \<Rightarrow>
    evaluation_observation option \<times> ('u, 'o, 'r) client" where
  "complete_evaluation env u key result timestamp c =
    (let v = er_variation result;
         c1 = (if er_insights_enabled result \<and> \<not> opt_disable_events (cl_options c)
               then snd (with_processor c (record_evaluation_at (ee_layout env) (ee_raced env) u key
                      (var_id v) (var_value v) timestamp (cl_event_processor c)))
               else c)
     in (successful_evaluation_observation c1 timestamp key (u_key u) (var_id v) (var_value v)
           (observation_reason_borrowed (er_reason result)), c1))"

definition complete_captured_evaluation ::
  "eval_env \<Rightarrow> fb_user \<Rightarrow> fb_evaluation_event \<Rightarrow> observation_reason \<Rightarrow> ('u, 'o, 'r) client \<Rightarrow> ('u, 'o, 'r) client" where
  "complete_captured_evaluation env u event reason c =
    (let c1 = (if \<not> opt_disable_events (cl_options c)
               then snd (with_processor c (record_evaluation (ee_layout env) (ee_raced env) u event
                      (cl_event_processor c)))
               else c)
     in notify_successful_evaluation
          (successful_evaluation_observation c1 (ev_timestamp event) (ev_flag_key event) (u_key u)
             (ev_variation_id event) (ev_variation_value event) reason) c1)"

section \<open>Evaluating\<close>

definition context_of :: "fb_user \<Rightarrow> str option" where
  "context_of u = (if u_key u = [] then None else Some (u_key u))"

definition evaluate_and_then ::
  "'r crates \<Rightarrow> eval_env \<Rightarrow> str \<Rightarrow> fb_user \<Rightarrow>
    (eval_result \<Rightarrow> ('u, 'o, 'r) client \<Rightarrow> 'a \<times> ('u, 'o, 'r) client) \<Rightarrow> ('u, 'o, 'r) client \<Rightarrow>
    (evaluation_error + 'a) \<times> ('u, 'o, 'r) client" where
  "evaluate_and_then x env key u use_result c =
    (if \<not> evaluation_available c
     then (Inl ClientNotReady, observe_evaluation_error env key (context_of u) ProviderNotReady c)
     else
       (case evaluate x (cl_snapshot c) key u of
          Inl e \<Rightarrow>
            (let error = evaluation_error_from e
             in (Inl error, observe_evaluation_error env key (context_of u) (observation_error_of error) c))
        | Inr result \<Rightarrow> (case use_result result c of (r, c') \<Rightarrow> (Inr r, c'))))"

definition evaluate_typed_value ::
  "'r crates \<Rightarrow> eval_env \<Rightarrow> str \<Rightarrow> fb_user \<Rightarrow> 'a \<Rightarrow> (str \<Rightarrow> observation_error + 'a) \<Rightarrow>
    ('u, 'o, 'r) client \<Rightarrow> 'a \<times> ('u, 'o, 'r) client" where
  "evaluate_typed_value x env key u dflt converter c =
    (case evaluate_and_then x env key u
            (\<lambda>result c.
               let timestamp = (if should_complete_value_evaluation (er_insights_enabled result) c
                                then Some (ee_now env) else None)
               in (case converter (var_value (er_variation result)) of
                     Inl e \<Rightarrow> (Inl e, c)
                   | Inr value \<Rightarrow>
                       (case timestamp of
                          None \<Rightarrow> (Inr (value, None), c)
                        | Some t \<Rightarrow>
                            (case complete_evaluation env u key result t c of
                               (observation, c') \<Rightarrow> (Inr (value, observation), c'))))) c of
       (Inr (Inr (value, observation)), c') \<Rightarrow> (value, notify_successful_evaluation observation c')
     | (Inr (Inl e), c') \<Rightarrow> (dflt, observe_evaluation_error env key (Some (u_key u)) e c')
     | (Inl e, c') \<Rightarrow> (dflt, c'))"

definition evaluate_typed_detail ::
  "'r crates \<Rightarrow> eval_env \<Rightarrow> str \<Rightarrow> fb_user \<Rightarrow> 'a \<Rightarrow> (str \<Rightarrow> observation_error + 'a) \<Rightarrow>
    ('u, 'o, 'r) client \<Rightarrow> 'a evaluation_detail \<times> ('u, 'o, 'r) client" where
  "evaluate_typed_detail x env key u dflt converter c =
    (case evaluate_and_then x env key u
            (\<lambda>result c.
               (case converter (var_value (er_variation result)) of
                  Inl e \<Rightarrow> (Inl e, c)
                | Inr value \<Rightarrow>
                    let (kind, reason) = reason_detail (er_reason result);
                        event = evaluation_event_at key (var_id (er_variation result))
                          (var_value (er_variation result)) (ee_now env) (er_insights_enabled result)
                    in (Inr (\<lparr>de_key = key, de_kind = kind, de_reason = reason, de_value = value,
                              de_variation_id = var_id (er_variation result), de_evaluation_event = Some event\<rparr>,
                            observation_reason_borrowed (er_reason result)), c))) c of
       (Inr (Inr (detail, reason)), c') \<Rightarrow>
         (case de_evaluation_event detail of
            Some event \<Rightarrow> (detail, complete_captured_evaluation env u event reason c')
          | None \<Rightarrow> (detail, c'))
     | (Inr (Inl e), c') \<Rightarrow>
         (case conversion_failure_detail e of (kind, reason) \<Rightarrow>
            (detail_fallback key kind reason dflt, observe_evaluation_error env key (Some (u_key u)) e c'))
     | (Inl e, c') \<Rightarrow>
         (case evaluation_failure_detail e of (kind, reason) \<Rightarrow> (detail_fallback key kind reason dflt, c')))"

section \<open>The methods\<close>

definition bool_variation where
  "bool_variation x env key u dflt c = evaluate_typed_value x env key u dflt parse_bool c"

definition bool_variation_detail where
  "bool_variation_detail x env key u dflt c = evaluate_typed_detail x env key u dflt parse_bool c"

definition int_variation where
  "int_variation x env key u dflt c = evaluate_typed_value x env key u dflt parse_int c"

definition int_variation_detail where
  "int_variation_detail x env key u dflt c = evaluate_typed_detail x env key u dflt parse_int c"

definition float_variation where
  "float_variation x env key u dflt c = evaluate_typed_value x env key u dflt parse_float c"

definition float_variation_detail where
  "float_variation_detail x env key u dflt c = evaluate_typed_detail x env key u dflt parse_float c"

definition string_variation where
  "string_variation x env key u dflt c = evaluate_typed_value x env key u dflt parse_string c"

definition string_variation_detail where
  "string_variation_detail x env key u dflt c = evaluate_typed_detail x env key u dflt parse_string c"

definition json_variation where
  "json_variation x env key u dflt c = evaluate_typed_value x env key u dflt (parse_json x) c"

definition json_variation_detail where
  "json_variation_detail x env key u dflt c = evaluate_typed_detail x env key u dflt (parse_json x) c"

definition string_detail_from_result :: "str \<Rightarrow> eval_result \<Rightarrow> str evaluation_detail" where
  "string_detail_from_result key result =
    (case reason_detail (er_reason result) of (kind, reason) \<Rightarrow>
       \<lparr>de_key = key, de_kind = kind, de_reason = reason, de_value = var_value (er_variation result),
        de_variation_id = var_id (er_variation result), de_evaluation_event = None\<rparr>)"

text \<open>\<^verbatim>\<open>all_variations\<close>; the keys of a hash map are distinct, so the unstable sort is a sort.\<close>

definition all_variations :: "'r crates \<Rightarrow> fb_user \<Rightarrow> ('u, 'o, 'r) client \<Rightarrow> str evaluation_detail list" where
  "all_variations x u c =
    (if \<not> evaluation_available c then []
     else
       let snapshot = cl_snapshot c;
           keys = map fst (filter (\<lambda>(k, f). \<not> ff_is_archived f) (sn_flags snapshot))
       in List.map_filter
            (\<lambda>key. case evaluate x snapshot key u of
                Inl e \<Rightarrow> None | Inr result \<Rightarrow> Some (string_detail_from_result key result))
            (sort keys))"

definition evaluate_raw ::
  "'r crates \<Rightarrow> eval_env \<Rightarrow> str \<Rightarrow> fb_user \<Rightarrow> ('u, 'o, 'r) client \<Rightarrow>
    (evaluation_error + raw_evaluation) \<times> ('u, 'o, 'r) client" where
  "evaluate_raw x env key u c =
    evaluate_and_then x env key u
      (\<lambda>result c.
         (\<lparr>raw_flag_id = er_flag_id result, raw_flag_type = er_flag_type result,
           raw_reason = into_owned (er_reason result),
           raw_event = evaluation_event_at key (var_id (er_variation result)) (var_value (er_variation result))
             (ee_now env) (er_insights_enabled result)\<rparr>, c)) c"

definition complete_raw_evaluation ::
  "eval_env \<Rightarrow> fb_user \<Rightarrow> raw_evaluation \<Rightarrow> ('u, 'o, 'r) client \<Rightarrow> ('u, 'o, 'r) client" where
  "complete_raw_evaluation env u evaluation c =
    complete_captured_evaluation env u (raw_event evaluation) (observation_reason_of (raw_reason evaluation)) c"

section \<open>What an attempt amounts to\<close>

text \<open>
  The contract every method keeps, independent of the path it takes: the outcome of the attempt,
  the one observation it is worth, and the client afterwards.
\<close>

type_synonym 'a outcome = "(evaluation_error + observation_error) + (eval_result \<times> 'a)"

definition attempt :: "'r crates \<Rightarrow> str \<Rightarrow> fb_user \<Rightarrow> (str \<Rightarrow> observation_error + 'a) \<Rightarrow> ('u, 'o, 'r) client \<Rightarrow> 'a outcome" where
  "attempt x key u converter c =
    (if \<not> evaluation_available c then Inl (Inl ClientNotReady)
     else
       (case evaluate x (cl_snapshot c) key u of
          Inl e \<Rightarrow> Inl (Inl (evaluation_error_from e))
        | Inr result \<Rightarrow>
            (case converter (var_value (er_variation result)) of
               Inl e \<Rightarrow> Inl (Inr e) | Inr value \<Rightarrow> Inr (result, value))))"

fun outcome_value :: "'a \<Rightarrow> 'a outcome \<Rightarrow> 'a" where
  "outcome_value dflt (Inl e) = dflt"
| "outcome_value dflt (Inr (result, value)) = value"

fun failure_detail :: "evaluation_error + observation_error \<Rightarrow> reason_kind \<times> str" where
  "failure_detail (Inl e) = evaluation_failure_detail e"
| "failure_detail (Inr e) = conversion_failure_detail e"

fun failure_observation :: "system_time \<Rightarrow> str \<Rightarrow> fb_user \<Rightarrow> evaluation_error + observation_error \<Rightarrow> evaluation_observation" where
  "failure_observation now key u (Inl e) = observation_failure now key (context_of u) (observation_error_of e)"
| "failure_observation now key u (Inr e) = observation_failure now key (Some (u_key u)) e"

definition event_of :: "system_time \<Rightarrow> str \<Rightarrow> eval_result \<Rightarrow> fb_evaluation_event" where
  "event_of now key result =
    evaluation_event_at key (var_id (er_variation result)) (var_value (er_variation result)) now
      (er_insights_enabled result)"

fun outcome_detail :: "system_time \<Rightarrow> str \<Rightarrow> 'a \<Rightarrow> 'a outcome \<Rightarrow> 'a evaluation_detail" where
  "outcome_detail now key dflt (Inl e) = detail_fallback key (fst (failure_detail e)) (snd (failure_detail e)) dflt"
| "outcome_detail now key dflt (Inr (result, value)) =
    \<lparr>de_key = key, de_kind = fst (reason_detail (er_reason result)), de_reason = snd (reason_detail (er_reason result)),
     de_value = value, de_variation_id = var_id (er_variation result),
     de_evaluation_event = Some (event_of now key result)\<rparr>"

fun outcome_observation :: "system_time \<Rightarrow> str \<Rightarrow> fb_user \<Rightarrow> 'a outcome \<Rightarrow> evaluation_observation" where
  "outcome_observation now key u (Inl e) = failure_observation now key u e"
| "outcome_observation now key u (Inr (result, value)) =
    observation_success now key (u_key u) (var_id (er_variation result)) (var_value (er_variation result))
      (observation_reason_borrowed (er_reason result))"

fun outcome_recorded :: "eval_env \<Rightarrow> bool \<Rightarrow> str \<Rightarrow> fb_user \<Rightarrow> 'a outcome \<Rightarrow> event_processor \<Rightarrow> event_processor" where
  "outcome_recorded env events_disabled key u (Inl e) p = p"
| "outcome_recorded env events_disabled key u (Inr (result, value)) p =
    (if events_disabled then p
     else snd (record_evaluation (ee_layout env) (ee_raced env) u (event_of (ee_now env) key result) p))"

definition after_attempt :: "eval_env \<Rightarrow> str \<Rightarrow> fb_user \<Rightarrow> 'a outcome \<Rightarrow> ('u, 'o, 'r) client \<Rightarrow> ('u, 'o, 'r) client" where
  "after_attempt env key u r c =
    c\<lparr>cl_event_processor := outcome_recorded env (opt_disable_events (cl_options c)) key u r (cl_event_processor c),
      cl_observed := cl_observed c @
        (if opt_evaluation_observer (cl_options c) = None then [] else [outcome_observation (ee_now env) key u r])\<rparr>"

section \<open>The interface to the event processor\<close>

text \<open>
  The client relies on one law of the recorder: what does not accept is not changed. So it may
  look first, and skip the clock and the call.
\<close>

locale event_recorder =
  fixes record_at :: "fb_user \<Rightarrow> str \<Rightarrow> str \<Rightarrow> str \<Rightarrow> system_time \<Rightarrow> 'p \<Rightarrow> bool \<times> 'p"
    and accepting :: "'p \<Rightarrow> bool"
  assumes refused: "\<not> accepting p \<Longrightarrow> record_at u k i v t p = (False, p)"
begin

lemma accepted: "fst (record_at u k i v t p) \<Longrightarrow> accepting p"
  using refused [of p u k i v t] by (cases "accepting p") simp_all

lemma look_first: "(if accepting p then snd (record_at u k i v t p) else p) = snd (record_at u k i v t p)"
  by (simp add: refused)

end

interpretation recorder: event_recorder "record_evaluation_at ly raced" is_accepting
  by unfold_locales (auto simp: record_evaluation_at_def)

lemma record_evaluation_insights:
  "snd (record_evaluation ly raced u (evaluation_event_at k i v t ins) p) =
    (if ins then snd (record_evaluation_at ly raced u k i v t p) else p)"
  by (simp add: record_evaluation_def evaluation_event_at_def)

section \<open>Both paths keep the contract\<close>

lemma client_unchanged: "c\<lparr>cl_event_processor := cl_event_processor c\<rparr> = c" "c\<lparr>cl_observed := cl_observed c @ []\<rparr> = c"
  by simp_all

lemma observe_error_simp:
  "observe_evaluation_error env key k e c =
    c\<lparr>cl_observed := cl_observed c @
      (if opt_evaluation_observer (cl_options c) = None then [] else [observation_failure (ee_now env) key k e])\<rparr>"
  by (simp add: observe_evaluation_error_def notify_def split: option.splits)

lemma notify_successful_simp:
  "notify_successful_evaluation (successful_evaluation_observation c' t key k i v r) c =
    c\<lparr>cl_observed := cl_observed c @
      (if opt_evaluation_observer (cl_options c') = None \<or> opt_evaluation_observer (cl_options c) = None then []
       else [observation_success t key k i v r])\<rparr>"
  by (simp add: notify_successful_evaluation_def successful_evaluation_observation_def notify_def split: option.splits)

lemma complete_captured_simp:
  "complete_captured_evaluation env u event reason c =
    c\<lparr>cl_event_processor := (if opt_disable_events (cl_options c) then cl_event_processor c
        else snd (record_evaluation (ee_layout env) (ee_raced env) u event (cl_event_processor c))),
      cl_observed := cl_observed c @ (if opt_evaluation_observer (cl_options c) = None then []
        else [observation_success (ev_timestamp event) (ev_flag_key event) (u_key u) (ev_variation_id event)
                (ev_variation_value event) reason])\<rparr>"
  by (simp add: complete_captured_evaluation_def notify_successful_simp with_processor_def Let_def)

lemma typed_detail_contract:
  "evaluate_typed_detail x env key u dflt conv c =
    (outcome_detail (ee_now env) key dflt (attempt x key u conv c), after_attempt env key u (attempt x key u conv c) c)"
proof (cases "evaluation_available c")
  case True
  show ?thesis
  proof (cases "evaluate x (cl_snapshot c) key u")
    case (Inl e)
    with True show ?thesis
      by (simp add: evaluate_typed_detail_def evaluate_and_then_def attempt_def after_attempt_def observe_error_simp
          Let_def case_prod_beta)
  next
    case (Inr result)
    with True show ?thesis
      by (cases "conv (var_value (er_variation result))")
        (simp_all add: evaluate_typed_detail_def evaluate_and_then_def attempt_def after_attempt_def observe_error_simp
          complete_captured_simp event_of_def evaluation_event_at_def Let_def case_prod_beta)
  qed
next
  case False
  then show ?thesis
    by (simp add: evaluate_typed_detail_def evaluate_and_then_def attempt_def after_attempt_def observe_error_simp
        case_prod_beta)
qed

lemma typed_value_contract:
  "evaluate_typed_value x env key u dflt conv c =
    (outcome_value dflt (attempt x key u conv c), after_attempt env key u (attempt x key u conv c) c)"
proof (cases "evaluation_available c")
  case True
  show ?thesis
  proof (cases "evaluate x (cl_snapshot c) key u")
    case (Inl e)
    with True show ?thesis
      by (simp add: evaluate_typed_value_def evaluate_and_then_def attempt_def after_attempt_def observe_error_simp
          Let_def case_prod_beta)
  next
    case (Inr result)
    show ?thesis
    proof (cases "conv (var_value (er_variation result))")
      case (Inl e)
      with True Inr show ?thesis
        by (simp add: evaluate_typed_value_def evaluate_and_then_def attempt_def after_attempt_def observe_error_simp
            Let_def case_prod_beta)
    next
      case (Inr v)
      show ?thesis
      proof (cases "should_complete_value_evaluation (er_insights_enabled result) c")
        case completes: True
        with True \<open>evaluate x (cl_snapshot c) key u = Inr result\<close> Inr show ?thesis
          by (simp add: evaluate_typed_value_def evaluate_and_then_def attempt_def after_attempt_def complete_evaluation_def
              notify_successful_simp with_processor_def event_of_def record_evaluation_insights Let_def case_prod_beta)
      next
        case False
        have "snd (record_evaluation_at ly raced u k i v t (cl_event_processor c)) = cl_event_processor c"
          if "er_insights_enabled result" "\<not> opt_disable_events (cl_options c)" for ly raced k i v t
          using recorder.refused [of "cl_event_processor c"] False that
          by (simp add: should_complete_value_evaluation_def)
        with True \<open>evaluate x (cl_snapshot c) key u = Inr result\<close> Inr False show ?thesis
          by (auto simp: evaluate_typed_value_def evaluate_and_then_def attempt_def after_attempt_def
              notify_successful_evaluation_def event_of_def record_evaluation_insights
              should_complete_value_evaluation_def Let_def case_prod_beta)
      qed
    qed
  qed
next
  case False
  then show ?thesis
    by (simp add: evaluate_typed_value_def evaluate_and_then_def attempt_def after_attempt_def observe_error_simp
        case_prod_beta)
qed

section \<open>Properties\<close>

text \<open>
  C9. A value method is its detail method without the detail: it returns the detail's value and
  leaves the same client behind, with the same events queued and the same observations made,
  although it skips the clock and the recorder when neither is needed.
\<close>

theorem value_methods_agree_with_details:
  "evaluate_typed_value x env key u dflt conv c =
    (de_value (fst (evaluate_typed_detail x env key u dflt conv c)), snd (evaluate_typed_detail x env key u dflt conv c))"
  by (cases "attempt x key u conv c")
    (auto simp: typed_value_contract typed_detail_contract detail_fallback_def)

text \<open>
  C22. Every attempt is observed exactly once when an observer is configured, and never
  otherwise; the observation is a success exactly when the detail carries a variation, whose id
  and text it reports, and a failure never carries a variation.
\<close>

theorem one_observation_per_attempt:
  "(case evaluate_typed_detail x env key u dflt conv c of (d, c') \<Rightarrow>
    if opt_evaluation_observer (cl_options c) = None then cl_observed c' = cl_observed c
    else
      (\<exists>b. cl_observed c' = cl_observed c @ [b] \<and> observation_ok b \<and> obs_flag_key b = key \<and>
        (case de_evaluation_event d of
           Some e \<Rightarrow> obs_error b = None \<and> obs_variation_id b = Some (ev_variation_id e) \<and>
             obs_variation_value b = Some (ev_variation_value e) \<and> obs_timestamp b = ev_timestamp e \<and>
             obs_context_key b = Some (u_key u)
         | None \<Rightarrow> obs_error b \<noteq> None \<and> de_value d = dflt \<and> de_variation_id d = [])))"
proof -
  have ok: "observation_reason_borrowed r \<noteq> ObsError" for r
    by (cases r) auto
  show ?thesis
  proof (cases "attempt x key u conv c")
    case (Inl e)
    then show ?thesis
      by (cases e) (auto simp: typed_detail_contract after_attempt_def detail_fallback_def observation_failure_def
          observation_ok_def)
  next
    case (Inr rv)
    then show ?thesis
      by (cases rv) (auto simp: typed_detail_contract after_attempt_def observation_success_def observation_ok_def
          event_of_def evaluation_event_at_def ok)
  qed
qed

text \<open>
  C28. The adapter interface is complete: evaluating raw, converting the text, and completing
  or reporting the failure yields the result of the detail method and leaves the same client.
\<close>

theorem raw_interface_equals_detail:
  "(case evaluate_raw x env key u c of
      (Inr raw, c1) \<Rightarrow>
        (case conv (raw_value raw) of
           Inr value \<Rightarrow> snd (evaluate_typed_detail x env key u dflt conv c) = complete_raw_evaluation env u raw c1 \<and>
             de_value (fst (evaluate_typed_detail x env key u dflt conv c)) = value \<and>
             de_evaluation_event (fst (evaluate_typed_detail x env key u dflt conv c)) = Some (raw_event raw)
         | Inl e \<Rightarrow> snd (evaluate_typed_detail x env key u dflt conv c) =
             observe_evaluation_error env key (Some (u_key u)) e c1)
    | (Inl e, c1) \<Rightarrow> snd (evaluate_typed_detail x env key u dflt conv c) = c1 \<and>
        (de_kind (fst (evaluate_typed_detail x env key u dflt conv c)),
         de_reason (fst (evaluate_typed_detail x env key u dflt conv c))) = evaluation_failure_detail e)"
proof -
  have reason: "observation_reason_of (into_owned r) = observation_reason_borrowed r" for r
    by (cases r) auto
  show ?thesis
    by (auto simp: evaluate_raw_def evaluate_and_then_def typed_detail_contract attempt_def after_attempt_def
        observe_error_simp complete_raw_evaluation_def complete_captured_simp event_of_def evaluation_event_at_def reason
        detail_fallback_def raw_value_def Let_def split: sum.splits)
qed

end
