(* ===== verification/Machine.thy ===== *)
theory Machine
  imports Main
begin

text \<open>
  What the state machines of the SDK have in common, as interfaces: a relation of atomic steps
  that keeps an invariant, and one that never leaves a set of final states. Each component
  interprets them on its own step relation.
\<close>

locale stepping =
  fixes step :: "'s \<Rightarrow> 's \<Rightarrow> bool"
    and inv :: "'s \<Rightarrow> bool"
  assumes step_inv: "step s s' \<Longrightarrow> inv s \<Longrightarrow> inv s'"
begin

lemma steps_inv: "step\<^sup>*\<^sup>* s s' \<Longrightarrow> inv s \<Longrightarrow> inv s'"
  by (induction rule: rtranclp_induct) (auto dest: step_inv)

end

locale closing = stepping +
  fixes closed :: "'s \<Rightarrow> bool"
  assumes step_closed: "step s s' \<Longrightarrow> inv s \<Longrightarrow> closed s \<Longrightarrow> closed s'"
begin

lemma steps_closed: "step\<^sup>*\<^sup>* s s' \<Longrightarrow> inv s \<Longrightarrow> closed s \<Longrightarrow> inv s' \<and> closed s'"
  by (induction rule: rtranclp_induct) (auto dest: step_inv step_closed)

end

text \<open>
  A machine implements another when each of its steps is a run of the other, seen through the
  abstraction function; so are its runs.
\<close>

locale implementation =
  fixes step :: "'s \<Rightarrow> 's \<Rightarrow> bool"
    and spec :: "'a \<Rightarrow> 'a \<Rightarrow> bool"
    and abs :: "'s \<Rightarrow> 'a"
  assumes step_refines: "step s s' \<Longrightarrow> spec\<^sup>*\<^sup>* (abs s) (abs s')"
begin

lemma steps_refine: "step\<^sup>*\<^sup>* s s' \<Longrightarrow> spec\<^sup>*\<^sup>* (abs s) (abs s')"
  by (induction rule: rtranclp_induct) (auto dest: step_refines)

end

end
