(* ===== verification/Sync_Effects.thy ===== *)
theory Sync_Effects
  imports Data_Sync Machine
begin

text \<open>
  What the synchronizer does to the state it shares with the client, as an abstract machine of
  three atomic effects: a message is applied, the status becomes Stale, the status becomes
  Closed. The detailed reconnect loop of \<^verbatim>\<open>data_sync/connection.rs\<close> implements it, and
  its invariant is what the client needs: the published snapshot is indexed correctly, and data
  has been published before anything is called initialized.
\<close>

inductive sync_effect ::
  "'r crates \<Rightarrow> 'r data_snapshot \<times> status_tracker \<Rightarrow> 'r data_snapshot \<times> status_tracker \<Rightarrow> bool" for x where
  effect_message: "apply_message x payload s t = (r, s', t') \<Longrightarrow> sync_effect x (s, t) (s', t')"
| effect_stale: "sync_effect x (s, t) (s, tracker_set Stale t)"
| effect_closed: "sync_effect x (s, t) (s, tracker_set Closed t)"

inductive_cases sync_effectE: "sync_effect x (s, t) q"

abbreviation sync_effects where
  "sync_effects x \<equiv> (sync_effect x)\<^sup>*\<^sup>*"

section \<open>The invariant\<close>

fun shared_ok :: "'r crates \<Rightarrow> 'r data_snapshot \<times> status_tracker \<Rightarrow> bool" where
  "shared_ok x (s, t) =
    (snapshot_ok x s \<and> (tracker_initialized t \<longrightarrow> sn_populated s) \<and>
     (tracker_status t = Ready \<longrightarrow> tracker_initialized t))"

lemma apply_message_shared:
  assumes "apply_message x payload s t = (r, s', t')" and "shared_ok x (s, t)"
  shows "shared_ok x (s', t')"
proof -
  have "sn_populated q" if "patch x d s = (res, q)" for d res q
    using patch_populated [of x d s] that by simp
  moreover have "sn_populated (populate x d)" for d
    by (rule populate_cases [of x d]) simp_all
  moreover have "snapshot_ok x s'"
    using assms by (intro apply_message_store_ok [OF _ assms(1)]) simp
  ultimately show ?thesis
    using assms
    by (auto simp: apply_message_def Let_def split: option.splits if_splits prod.splits patch_result.splits)
qed

interpretation shared: stepping "sync_effect x" "shared_ok x" for x
proof
  fix p q
  assume "sync_effect x p q" and "shared_ok x p"
  then show "shared_ok x q"
    by cases (auto simp del: shared_ok.simps intro: apply_message_shared, simp_all)
qed

section \<open>The reconnect loop implements the effects\<close>

abbreviation conn_shared :: "'r conn_state \<Rightarrow> 'r data_snapshot \<times> status_tracker" where
  "conn_shared c \<equiv> (cs_store c, cs_tracker c)"

abbreviation loop_shared :: "'r loop_state \<Rightarrow> 'r data_snapshot \<times> status_tracker" where
  "loop_shared l \<equiv> (ls_store l, ls_tracker l)"

lemma effect_one:
  "apply_message x payload s t = (r, s', t') \<Longrightarrow> sync_effects x (s, t) (s', t')"
  "sync_effects x (s, t) (s, tracker_set Stale t)"
  "sync_effects x (s, t) (s, tracker_set Closed t)"
  by (auto intro: r_into_rtranclp sync_effect.intros)

lemma send_on_shared [simp]: "conn_shared (snd (send_on m stop w c)) = conn_shared c"
  by (cases rule: send_on_cases [of m stop w c]) simp_all

lemma after_send_shared [simp]: "conn_shared (snd (after_send c (send_on m stop w c))) = conn_shared c"
  by (cases rule: send_on_cases [of m stop w c]) (simp_all add: after_send_def)

lemma handle_apply_result_shared:
  "sync_effects x (conn_shared c) (conn_shared (snd (handle_apply_result r stop w c)))"
proof -
  have "conn_shared (snd (handle_apply_result r stop w c)) \<in> {conn_shared c, (cs_store c, tracker_set Stale (cs_tracker c))}"
    by (cases rule: send_on_cases [of "data_sync_request 0" stop w c])
      (auto simp: handle_apply_result_def send_data_sync_def Let_def split: apply_result.splits)
  then show ?thesis by (auto intro: effect_one)
qed

lemma receive_data_shared: "sync_effects x (conn_shared c) (conn_shared (snd (receive_data x opts payload stop w c)))"
proof -
  obtain r s t where msg: "apply_message x payload (cs_store c) (cs_tracker c) = (r, s, t)"
    by (metis prod_cases3)
  define d where "d = c\<lparr>cs_store := s, cs_tracker := t, cs_applied := cs_applied c @ [r]\<rparr>"
  have "sync_effects x (conn_shared c) (conn_shared d)"
    using effect_one(1) [OF msg] by (simp add: d_def)
  also have "sync_effects x (conn_shared d) (conn_shared (snd (handle_apply_result r stop w d)))"
    by (rule handle_apply_result_shared)
  finally show ?thesis by (simp add: receive_data_def apply_payload_def msg d_def)
qed

lemma connection_step_shared:
  "sync_effects x (conn_shared c) (conn_shared (snd (connection_step x opts ev c)))"
  using receive_data_shared [of x c opts] after_send_shared [of c]
  by (auto simp: connection_step_def Let_def split: conn_event.splits incoming.splits message.splits)

lemma run_connection_shared: "sync_effects x (conn_shared c) (conn_shared (snd (run_connection x opts evs c)))"
proof (induction evs arbitrary: c)
  case (Cons ev evs)
  obtain r c' where step: "connection_step x opts ev c = (r, c')" by fastforce
  then have "sync_effects x (conn_shared c) (conn_shared c')"
    using connection_step_shared [of x c opts ev] by simp
  with Cons.IH [of c'] step show ?case by (cases r) (auto intro: rtranclp_trans)
qed simp

lemma stale_if_shared: "sync_effects x (s, t) (s, set_stale_if_initialized t)"
  by (auto simp: set_stale_if_initialized_def intro: effect_one)

lemma break_loop_shared: "sync_effects x (loop_shared l) (loop_shared (snd (break_loop l)))"
  by (auto simp: break_loop_def intro: effect_one)

lemma pause_shared: "sync_effects x (loop_shared l) (loop_shared (snd (pause opts e l)))"
proof -
  have "sync_effects x (ls_store l, set_stale_if_initialized (ls_tracker l))
      (ls_store l, tracker_set Closed (set_stale_if_initialized (ls_tracker l)))"
    by (rule effect_one)
  with stale_if_shared [of x "ls_store l" "ls_tracker l"] show ?thesis
    by (auto simp: pause_def break_loop_def Let_def intro: rtranclp_trans)
qed

lemma connected_shared: "sync_effects x (conn_shared c) (loop_shared (snd (connected x opts e c l)))"
proof -
  obtain r c' where run: "run_connection x opts (le_events e) c = (r, c')" by fastforce
  then have le: "sync_effects x (conn_shared c) (conn_shared c')"
    using run_connection_shared [of x c opts "le_events e"] by simp
  have rest: "sync_effects x (conn_shared c') (loop_shared (snd (connected x opts e c l)))"
  proof (cases r)
    case None
    then show ?thesis by (simp add: connected_def run)
  next
    case (Some end')
    have "sync_effects x (conn_shared c') (loop_shared (snd (pause opts e q)))"
      if "loop_shared q = conn_shared c'" for q :: "'a loop_state"
      using pause_shared [of x q opts e] that by simp
    moreover have "sync_effects x (conn_shared c') (loop_shared (snd (break_loop q)))"
      if "loop_shared q = conn_shared c'" for q :: "'a loop_state"
      using break_loop_shared [of x q] that by simp
    moreover have "sync_effects x (conn_shared c') (cs_store c', tracker_set Closed (cs_tracker c'))"
      by (rule effect_one)
    ultimately show ?thesis
      using Some by (cases end') (simp_all add: connected_def run Let_def)
  qed
  from le rest show ?thesis by (rule rtranclp_trans)
qed

lemma loop_step_shared: "sync_effects x (loop_shared l) (loop_shared (snd (loop_step x uc opts e l)))"
proof -
  define l1 where "l1 = l\<lparr>ls_tracker := set_stale_if_initialized (ls_tracker l)\<rparr>"
  define c where "c = \<lparr>cs_store = ls_store l1, cs_tracker = ls_tracker l1, cs_awaiting = ls_force_full l1,
    cs_sent = [], cs_applied = []\<rparr>"
  have l1: "sync_effects x (loop_shared l) (loop_shared l1)"
    using stale_if_shared by (simp add: l1_def)
  define v where "v = (if ls_force_full l1 then 0 else sn_version (ls_store l1))"
  obtain r c' where send: "send_data_sync v (le_send_stop e) (le_send_write e) c = (r, c')" by fastforce
  then have c': "conn_shared c' = loop_shared l1"
    using send_on_shared [of "data_sync_request v" "le_send_stop e" "le_send_write e" c]
    by (simp add: send_data_sync_def c_def)
  have "sync_effects x (loop_shared l1) (loop_shared (snd (connected x opts e c' l1)))"
    using connected_shared [of x c' opts e l1] unfolding c' .
  then have "sync_effects x (loop_shared l1) (loop_shared (snd (loop_step x uc opts e l)))" if "\<not> le_stop_at_top e"
    using that break_loop_shared [of x l1] pause_shared [of x l1 opts e]
    unfolding loop_step_def Let_def l1_def [symmetric] c_def [symmetric] v_def [symmetric] send
    by (cases r) (simp_all split: sum.splits)
  with l1 break_loop_shared [of x l] show ?thesis
    by (cases "le_stop_at_top e") (auto simp: loop_step_def intro: rtranclp_trans)
qed

definition loop_turn ::
  "'r crates \<Rightarrow> 'u url_crate \<Rightarrow> ('u, 'o) fb_options \<Rightarrow> 'r loop_state \<Rightarrow> 'r loop_state \<Rightarrow> bool" where
  "loop_turn x uc opts l l' = (\<exists>e nx. loop_step x uc opts e l = (nx, l'))"

interpretation reconnect_loop: implementation "loop_turn x uc opts" "sync_effect x" loop_shared for x uc opts
proof
  fix l l'
  assume "loop_turn x uc opts l l'"
  then obtain e nx where "loop_step x uc opts e l = (nx, l')" by (auto simp: loop_turn_def)
  then show "sync_effects x (loop_shared l) (loop_shared l')" using loop_step_shared [of x l uc opts e] by simp
qed

lemma run_sync_loop_turns: "(loop_turn x uc opts)\<^sup>*\<^sup>* l (snd (run_sync_loop x uc opts es l))"
proof (induction es arbitrary: l)
  case (Cons e es)
  obtain nx l' where step: "loop_step x uc opts e l = (nx, l')" by fastforce
  then have "loop_turn x uc opts l l'" by (auto simp: loop_turn_def)
  with Cons.IH [of l'] step show ?case
    by (cases nx) (auto intro: converse_rtranclp_into_rtranclp)
qed simp

section \<open>The thread\<close>

text \<open>The body of the synchronizer's thread on the shared state, with the guard that ends it.\<close>

definition sync_thread ::
  "'r crates \<Rightarrow> 'u url_crate \<Rightarrow> ('u, 'o) fb_options \<Rightarrow> bool \<Rightarrow> loop_env list \<Rightarrow>
    'r data_snapshot \<times> status_tracker \<Rightarrow> 'r data_snapshot \<times> status_tracker" where
  "sync_thread x uc opts runtime_ok es st =
    (let l = snd (run_sync_loop x uc opts es (loop_start (fst st) (snd st)))
     in (if runtime_ok then ls_store l else fst st,
         sync_worker_body runtime_ok (\<lambda>t. ls_tracker l) (snd st)))"

text \<open>
  C18. The synchronizer refines its abstract machine: whatever the network, the clock and the
  stop signal do, a run of its reconnect loop, and of the whole thread with the guard that
  closes it, is a sequence of messages applied and status changes to Stale or Closed.
\<close>

theorem synchronizer_refines_effects:
  "sync_effects x (s, t) (loop_shared (snd (run_sync_loop x uc opts es (loop_start s t)))) \<and>
    sync_effects x (s, t) (sync_thread x uc opts runtime_ok es (s, t))"
proof -
  have run: "sync_effects x (s, t) (loop_shared (snd (run_sync_loop x uc opts es (loop_start s t))))"
    using reconnect_loop.steps_refine [OF run_sync_loop_turns [of x uc opts "loop_start s t" es]]
    by (simp add: loop_start_def)
  moreover have "sync_effects x (s, t) (sync_thread x uc opts runtime_ok es (s, t))"
  proof (cases runtime_ok)
    case True
    with rtranclp_trans [OF run effect_one(3)] show ?thesis
      by (simp add: sync_thread_def sync_worker_body_def Let_def)
  next
    case False
    with rtranclp_trans [OF effect_one(3) effect_one(3)] show ?thesis
      by (simp add: sync_thread_def sync_worker_body_def Let_def)
  qed
  ultimately show ?thesis ..
qed

end
