(* ===== verification/Client_Run.thy ===== *)
theory Client_Run
  imports Client_Evaluation Sync_Effects
begin

text \<open>
  The client among its threads: the steps that application threads, the synchronizer and the
  event worker take, in any order, on the state they share, and what holds of every client that
  such steps can reach from \<^verbatim>\<open>FbClient::with_options\<close>.
\<close>

inductive client_action :: "'r crates \<Rightarrow> ('u, 'o, 'r) client \<Rightarrow> ('u, 'o, 'r) client \<Rightarrow> bool" for x where
  act_effect: "cl_synchronizer c \<noteq> None \<Longrightarrow> sync_effect x (cl_snapshot c, cl_status c) (s, t) \<Longrightarrow>
    client_action x c (c\<lparr>cl_snapshot := s, cl_status := t\<rparr>)"
| act_evaluate: "evaluate_raw x env key u c = (r, c') \<Longrightarrow> client_action x c c'"
| act_complete: "client_action x c (complete_raw_evaluation env u raw c)"
| act_observe: "client_action x c (observe_evaluation_error env key k e c)"
| act_track_event: "track_eval_event env u event c = (b, c') \<Longrightarrow> client_action x c c'"
| act_track_flag: "track_eval_event_for_flag x env u key c = (b, c') \<Longrightarrow> client_action x c c'"
| act_track_metric: "track_metric_event env u name v c = (b, c') \<Longrightarrow> client_action x c c'"
| act_flush: "client_action x c (client_flush raced c)"
| act_flush_wait: "client_flush_and_wait sent reply c = (b, c') \<Longrightarrow> client_action x c c'"
| act_close_flag: "client_action x c (close_flag c)"
| act_close_synchronizer: "cl_closed c \<Longrightarrow> client_action x c (close_synchronizer sync c)"
| act_close_events: "cl_closed c \<Longrightarrow> client_action x c (close_events e1 e2 c)"

text \<open>
  The event worker acts on the queue it shares with the client; its own state is that of some
  worker here, and of one worker in \<open>System\<close>.
\<close>

inductive client_step :: "'r crates \<Rightarrow> ('u, 'o, 'r) client \<Rightarrow> ('u, 'o, 'r) client \<Rightarrow> bool" for x where
  step_action: "client_action x c c' \<Longrightarrow> client_step x c c'"
| step_worker: "cl_event_processor c = Active p \<Longrightarrow> worker_step (p, w) (p', w' :: 'u event_worker) \<Longrightarrow>
    client_step x c (c\<lparr>cl_event_processor := Active p'\<rparr>)"

lemmas step_effect = step_action [OF act_effect]
  and step_complete = step_action [OF act_complete]
  and step_observe = step_action [OF act_observe]
  and step_close_flag = step_action [OF act_close_flag]
  and step_close_synchronizer = step_action [OF act_close_synchronizer]
  and step_close_events = step_action [OF act_close_events]

abbreviation client_steps where
  "client_steps x \<equiv> (client_step x)\<^sup>*\<^sup>*"

text \<open>
  The typed methods are not steps of their own: what one leaves behind is what completing a raw
  evaluation or reporting a failure leaves behind.
\<close>

lemma after_attempt_steps: "client_steps x c (after_attempt env key u r c)"
proof (cases r)
  case (Inl e)
  have "\<exists>k e'. after_attempt env key u r c = observe_evaluation_error env key k e' c"
    using Inl by (cases e) (auto simp: after_attempt_def observe_error_simp)
  then obtain k e' where after: "after_attempt env key u r c = observe_evaluation_error env key k e' c" by blast
  show ?thesis unfolding after by (rule r_into_rtranclp) (rule step_observe)
next
  case (Inr rv)
  then obtain result v where r: "r = Inr (result, v)" by (cases rv) simp
  have reason: "observation_reason_of (into_owned er) = observation_reason_borrowed er" for er
    by (cases er) auto
  have after: "after_attempt env key u r c = complete_raw_evaluation env u
      \<lparr>raw_flag_id = er_flag_id result, raw_flag_type = er_flag_type result,
       raw_reason = into_owned (er_reason result), raw_event = event_of (ee_now env) key result\<rparr> c"
    using r by (simp add: after_attempt_def complete_raw_evaluation_def complete_captured_simp event_of_def
        evaluation_event_at_def reason)
  show ?thesis unfolding after by (rule r_into_rtranclp) (rule step_complete)
qed

lemma typed_detail_steps: "client_steps x c (snd (evaluate_typed_detail x env key u dflt conv c))"
  by (simp add: typed_detail_contract after_attempt_steps)

section \<open>What the steps leave alone\<close>

text \<open>The fields that the evaluation methods, tracking and flushing do not touch.\<close>

definition same_core :: "('u, 'o, 'r) client \<Rightarrow> ('u, 'o, 'r) client \<Rightarrow> bool" where
  "same_core c c' =
    (cl_options c' = cl_options c \<and> cl_snapshot c' = cl_snapshot c \<and> cl_status c' = cl_status c \<and>
     cl_synchronizer c' = cl_synchronizer c \<and> cl_closed c' = cl_closed c)"

text \<open>A processor that stays disabled, or that stays closed.\<close>

definition same_gate :: "event_processor \<Rightarrow> event_processor \<Rightarrow> bool" where
  "same_gate p p' =
    ((p = Disabled \<longleftrightarrow> p' = Disabled) \<and>
     (\<forall>i. p = Active i \<and> pr_closed i \<longrightarrow> (\<exists>i'. p' = Active i' \<and> pr_closed i')))"

lemma same_gate_refl [simp]: "same_gate p p"
  by (cases p) (simp_all add: same_gate_def)

lemma record_event_gate [simp]: "same_gate p (snd (record_event raced n payload p))"
proof (cases p)
  case (Active i)
  then show ?thesis
    by (cases rule: record_inner_cases [of raced n payload i])
      (auto simp: same_gate_def record_event_def record_inner_def split: prod.splits)
qed (simp add: record_event_def)

lemma record_gate [simp]:
  "same_gate p (snd (record_evaluation_at ly raced u k i v t p))"
  "same_gate p (snd (record_evaluation ly raced u e p))"
  "same_gate p (snd (record_metric ly raced u name val now p))"
  by (simp_all add: record_evaluation_at_def record_evaluation_def record_metric_def)

lemma flush_gate [simp]:
  "same_gate p (processor_flush raced p)" "same_gate p (snd (flush_and_wait sent reply p))"
  by (cases p; auto simp: processor_flush_def flush_and_wait_def channel_try_send_def same_gate_def)+

lemma worker_step_closed: "worker_step (p, w) (p', w') \<Longrightarrow> pr_closed p' = pr_closed p"
  by (cases rule: worker_step.cases) auto

section \<open>The invariant\<close>

definition offline_snapshot :: "'r crates \<Rightarrow> ('u, 'o) fb_options \<Rightarrow> 'r data_snapshot" where
  "offline_snapshot x opts =
    (case opt_bootstrap opts of None \<Rightarrow> store_new | Some b \<Rightarrow> populate x (env_data b))"

definition gate_shut :: "event_processor \<Rightarrow> bool" where
  "gate_shut p = (p = Disabled \<or> (\<exists>i. p = Active i \<and> pr_closed i))"

definition client_ok :: "'r crates \<Rightarrow> ('u, 'o) fb_options \<Rightarrow> ('u, 'o, 'r) client \<Rightarrow> bool" where
  "client_ok x opts c =
    (cl_options c = opts \<and>
     (if opt_offline opts
      then cl_snapshot c = offline_snapshot x opts \<and> cl_synchronizer c = None \<and> tracker_initialized (cl_status c) \<and>
        (cl_closed c \<or> tracker_status (cl_status c) = Ready)
      else shared_ok x (cl_snapshot c, cl_status c)) \<and>
     (opt_offline opts \<or> opt_disable_events opts \<and> \<not> opt_allow_track opts \<longrightarrow> cl_event_processor c = Disabled))"

lemma offline_snapshot_ok: "snapshot_ok x (offline_snapshot x opts)"
  by (simp add: offline_snapshot_def store_new_ok populate_ok split: option.splits)

lemma client_ok_snapshot: "client_ok x opts c \<Longrightarrow> snapshot_ok x (cl_snapshot c)"
  by (auto simp: client_ok_def offline_snapshot_ok split: if_splits)

lemma same_gate_shut: "same_gate p p' \<Longrightarrow> gate_shut p \<Longrightarrow> gate_shut p'"
  by (auto simp: same_gate_def gate_shut_def)

lemma same_gate_disabled: "same_gate p p' \<Longrightarrow> p = Disabled \<Longrightarrow> p' = Disabled"
  by (simp add: same_gate_def)

lemma same_core_ok:
  "same_core c c' \<Longrightarrow> same_gate (cl_event_processor c) (cl_event_processor c') \<Longrightarrow> client_ok x opts c \<Longrightarrow> client_ok x opts c'"
  by (auto simp: same_core_def client_ok_def dest: same_gate_disabled)

text \<open>Every step other than those of the synchronizer and a close keeps the core.\<close>

lemma observe_error_core [simp]:
  "same_core c (observe_evaluation_error env key k e c)"
  "cl_event_processor (observe_evaluation_error env key k e c) = cl_event_processor c"
  by (simp_all add: observe_error_simp same_core_def)

lemma evaluate_raw_core:
  "evaluate_raw x env key u c = (r, c') \<Longrightarrow> same_core c c' \<and> cl_event_processor c' = cl_event_processor c"
  by (auto simp: evaluate_raw_def evaluate_and_then_def Let_def same_core_def observe_error_simp
      split: if_splits sum.splits)

lemma with_processor_core: "with_processor c r = (b, c') \<Longrightarrow> same_core c c' \<and> cl_event_processor c' = snd r"
  by (auto simp: with_processor_def same_core_def)

lemma core_action:
  assumes "client_action x c c'"
  shows "same_core c c' \<and> same_gate (cl_event_processor c) (cl_event_processor c') \<or>
    (\<exists>s t. cl_synchronizer c \<noteq> None \<and> sync_effect x (cl_snapshot c, cl_status c) (s, t) \<and>
      c' = c\<lparr>cl_snapshot := s, cl_status := t\<rparr>) \<or>
    c' = close_flag c \<or> (\<exists>sync. cl_closed c \<and> c' = close_synchronizer sync c) \<or>
    (\<exists>e1 e2. c' = close_events e1 e2 c)"
  using assms
proof cases
  case (act_evaluate env key u r)
  from evaluate_raw_core [OF this] show ?thesis by simp
next
  case (act_complete env u raw)
  then show ?thesis by (auto simp: complete_raw_evaluation_def complete_captured_simp same_core_def)
next
  case (act_track_event env u event b)
  then show ?thesis by (auto simp: track_eval_event_def same_core_def split: if_splits dest!: with_processor_core)
next
  case (act_track_flag env u key b)
  then show ?thesis
    by (auto simp: track_eval_event_for_flag_def same_core_def Let_def split: if_splits sum.splits
        dest!: with_processor_core)
next
  case (act_track_metric env u name v b)
  then show ?thesis by (auto simp: track_metric_event_def same_core_def split: if_splits dest!: with_processor_core)
next
  case (act_flush_wait sent reply b)
  then show ?thesis by (auto simp: client_flush_and_wait_def same_core_def dest!: with_processor_core)
next
  case (act_flush raced)
  then show ?thesis by (simp add: same_core_def client_flush_def)
next
  case (act_effect s t)
  then show ?thesis by blast
next
  case act_close_flag
  then show ?thesis by blast
next
  case (act_close_synchronizer sync)
  then show ?thesis by blast
next
  case (act_close_events e1 e2)
  then show ?thesis by blast
qed simp

lemma core_steps:
  assumes "client_step x c c'"
  shows "same_core c c' \<and> same_gate (cl_event_processor c) (cl_event_processor c') \<or>
    (\<exists>s t. cl_synchronizer c \<noteq> None \<and> sync_effect x (cl_snapshot c, cl_status c) (s, t) \<and>
      c' = c\<lparr>cl_snapshot := s, cl_status := t\<rparr>) \<or>
    c' = close_flag c \<or> (\<exists>sync. cl_closed c \<and> c' = close_synchronizer sync c) \<or>
    (\<exists>e1 e2. c' = close_events e1 e2 c)"
  using assms
proof cases
  case step_action
  then show ?thesis by (rule core_action)
next
  case (step_worker p w p' w')
  then show ?thesis by (auto simp: same_core_def same_gate_def worker_step_closed)
qed

lemma synchronizer_close_status:
  "\<exists>b. sy_tracker (synchronizer_close f j s) = (if b then tracker_set Closed (sy_tracker s) else sy_tracker s)"
  by (auto simp: synchronizer_close_def synchronizer_wait_def Let_def)

lemma shared_ok_closed: "shared_ok x (s, t) \<Longrightarrow> shared_ok x (s, if b then tracker_set Closed t else t)"
  by simp

lemma processor_close_gate:
  "gate_shut (snd (processor_close e1 e2 p))" "p = Disabled \<Longrightarrow> snd (processor_close e1 e2 p) = Disabled"
  by (cases p; auto simp: processor_close_def gate_shut_def split: prod.splits dest: inner_close_simps(3))+

lemma close_synchronizer_simps [simp]:
  "cl_options (close_synchronizer sync c) = cl_options c" "cl_snapshot (close_synchronizer sync c) = cl_snapshot c"
  "cl_closed (close_synchronizer sync c) = cl_closed c"
  "cl_event_processor (close_synchronizer sync c) = cl_event_processor c"
  "cl_synchronizer (close_synchronizer sync c) = None \<longleftrightarrow> cl_synchronizer c = None"
  by (auto simp: close_synchronizer_def Let_def split: option.splits)

lemma close_synchronizer_status:
  "\<exists>b. cl_status (close_synchronizer sync c) = (if b then tracker_set Closed (cl_status c) else cl_status c)"
proof (cases "cl_synchronizer c")
  case None
  then show ?thesis by (intro exI [of _ True]) (simp add: close_synchronizer_def)
next
  case (Some s)
  obtain b where "sy_tracker (synchronizer_close (fst sync) (snd sync) (s\<lparr>sy_tracker := cl_status c\<rparr>)) =
      (if b then tracker_set Closed (cl_status c) else cl_status c)"
    using synchronizer_close_status [of "fst sync" "snd sync" "s\<lparr>sy_tracker := cl_status c\<rparr>"] by force
  with Some show ?thesis by (intro exI [of _ b]) (simp add: close_synchronizer_def Let_def)
qed

lemma close_flag_ok: "client_ok x opts c \<Longrightarrow> client_ok x opts (close_flag c)"
  by (cases "opt_offline opts") (simp_all add: client_ok_def close_flag_def del: shared_ok.simps)

lemma close_events_ok: "client_ok x opts c \<Longrightarrow> client_ok x opts (close_events e1 e2 c)"
  by (auto simp: client_ok_def close_events_def processor_close_gate)

lemma close_synchronizer_ok: "client_ok x opts c \<Longrightarrow> cl_closed c \<Longrightarrow> client_ok x opts (close_synchronizer sync c)"
proof -
  assume ok: "client_ok x opts c" "cl_closed c"
  obtain b where "cl_status (close_synchronizer sync c) = (if b then tracker_set Closed (cl_status c) else cl_status c)"
    using close_synchronizer_status by blast
  with ok shared_ok_closed [of x "cl_snapshot c" "cl_status c" b] show ?thesis
    by (cases "opt_offline opts") (simp_all add: client_ok_def del: shared_ok.simps)
qed

text \<open>The flag is never taken back, and a closed event processor never opens again.\<close>

lemma closed_step: "client_step x c c' \<Longrightarrow> cl_closed c \<Longrightarrow> cl_closed c'"
  using core_steps [of x c c'] by (auto simp: same_core_def close_flag_def close_events_def)

lemma shut_step: "client_step x c c' \<Longrightarrow> gate_shut (cl_event_processor c) \<Longrightarrow> gate_shut (cl_event_processor c')"
  using core_steps [of x c c']
  by (auto simp: close_flag_def close_events_def processor_close_gate dest: same_gate_shut)

interpretation clients: closing "client_step x" "client_ok x opts" cl_closed for x opts
proof
  fix c c'
  assume step: "client_step x c c'" and ok: "client_ok x opts c"
  from core_steps [OF step] show "client_ok x opts c'"
  proof (elim disjE conjE exE)
    fix s t
    assume e: "cl_synchronizer c \<noteq> None" "sync_effect x (cl_snapshot c, cl_status c) (s, t)"
      "c' = c\<lparr>cl_snapshot := s, cl_status := t\<rparr>"
    with ok have "shared_ok x (cl_snapshot c, cl_status c)" "\<not> opt_offline opts"
      by (auto simp: client_ok_def simp del: shared_ok.simps split: if_splits)
    with e ok shared.step_inv [OF e(2)] show ?thesis
      by (simp add: client_ok_def del: shared_ok.simps)
  qed (use ok in \<open>auto intro: same_core_ok close_flag_ok close_synchronizer_ok close_events_ok\<close>)
qed (rule closed_step)

interpretation event_gate: closing "client_step x" "client_ok x opts" "\<lambda>c. gate_shut (cl_event_processor c)" for x opts
  by unfold_locales (rule shut_step)

lemma initialized_step: "client_step x c c' \<Longrightarrow> client_initialized c \<Longrightarrow> client_initialized c'"
proof -
  assume step: "client_step x c c'" and init: "client_initialized c"
  have eff: "tracker_initialized t" if "sync_effect x (s0, t0) (s, t)" "tracker_initialized t0" for s0 t0 s t
    using that by cases (auto simp: apply_message_def Let_def split: option.splits if_splits prod.splits patch_result.splits)
  from core_steps [OF step] show ?thesis
  proof (elim disjE conjE exE)
    fix sync assume "c' = close_synchronizer sync c"
    with close_synchronizer_status [of sync c] init show ?thesis by (auto simp: client_initialized_def)
  qed (use init eff in \<open>auto simp: same_core_def client_initialized_def close_flag_def close_events_def\<close>)
qed

interpretation once_initialized: closing "client_step x" "client_ok x opts" client_initialized for x opts
  by unfold_locales (rule initialized_step)

text \<open>A close is a run of its three actions.\<close>

lemma client_close_steps: "client_steps x (close_flag c) (client_close sync e1 e2 c)"
proof -
  have "client_step x (close_flag c) (close_synchronizer sync (close_flag c))"
    by (rule step_close_synchronizer) (simp add: close_flag_def)
  moreover have "client_step x (close_synchronizer sync (close_flag c)) (client_close sync e1 e2 c)"
    unfolding client_close_def by (rule step_close_events) (simp add: close_flag_def)
  ultimately show ?thesis by simp
qed

lemma client_close_shut: "gate_shut (cl_event_processor (client_close sync e1 e2 c))"
  by (simp add: client_close_def close_events_def processor_close_gate)

lemma with_options_ok: "client_ok x opts (with_options x err1 err2 opts)"
proof (cases "opt_offline opts")
  case True
  then show ?thesis by (auto simp: with_options_def client_ok_def offline_snapshot_def event_processor_new_def
      split: option.splits)
next
  case False
  have "shared_ok x (store_new, t)" if "t = tracker_new Starting False \<or> t = tracker_set Closed (tracker_new Starting False)" for t
    using that store_new_ok [of x] by auto
  with False show ?thesis
    by (auto simp: with_options_def client_ok_def event_processor_new_def synchronizer_start_def Let_def
        simp del: shared_ok.simps split: sum.splits)
qed

text \<open>A client that the steps can reach from its construction.\<close>

definition reachable :: "'r crates \<Rightarrow> ('u, 'o) fb_options \<Rightarrow> ('u, 'o, 'r) client \<Rightarrow> bool" where
  "reachable x opts c = (\<exists>err1 err2. client_steps x (with_options x err1 err2 opts) c)"

lemma reachable_ok: "reachable x opts c \<Longrightarrow> client_ok x opts c"
  unfolding reachable_def using clients.steps_inv [OF _ with_options_ok] by blast

lemma reachable_steps: "reachable x opts c \<Longrightarrow> client_steps x c c' \<Longrightarrow> reachable x opts c'"
  unfolding reachable_def by (blast intro: rtranclp_trans)

lemma reachable_initialized:
  "reachable x opts c \<Longrightarrow> client_steps x c c' \<Longrightarrow> client_initialized c \<Longrightarrow> client_initialized c'"
  using once_initialized.steps_closed reachable_ok by blast

lemma initialized_populated:
  "reachable x opts c \<Longrightarrow> client_initialized c \<Longrightarrow> \<not> opt_offline opts \<Longrightarrow> sn_populated (cl_snapshot c)"
  using reachable_ok [of x opts c] by (auto simp: client_ok_def client_initialized_def)

end
