(* ===== verification/Client_Properties.thy ===== *)
theory Client_Properties
  imports Client_Run
begin

text \<open>
  What an application can rely on, for every client that construction and any interleaving of
  steps can produce: values are the reference decision on published data, nothing is evaluated
  before data is there or after a close, events need consent, and the listing and tracking
  methods agree with the detail methods.
\<close>

section \<open>Evaluation on a reachable client\<close>

lemma attempt_spec:
  assumes "reachable x opts c" and "evaluation_available c"
  shows "attempt x key u conv c =
    (case spec_evaluate x (map_of (sn_flags (cl_snapshot c))) (map_of (sn_segments (cl_snapshot c))) key u of
       Inl e \<Rightarrow> Inl (Inl (evaluation_error_from e))
     | Inr result \<Rightarrow>
         (case conv (var_value (er_variation result)) of Inl e \<Rightarrow> Inl (Inr e) | Inr v \<Rightarrow> Inr (result, v)))"
  using assms evaluate_spec [OF client_ok_snapshot [OF reachable_ok [OF assms(1)]]] by (simp add: attempt_def)

lemma attempt_unavailable: "\<not> evaluation_available c \<Longrightarrow> attempt x key u conv c = Inl (Inl ClientNotReady)"
  by (simp add: attempt_def)

lemma unavailable_detail:
  "\<not> evaluation_available c \<Longrightarrow>
    fst (evaluate_typed_detail x env key u dflt conv c) = detail_fallback key KClientNotReady ''client not ready'' dflt"
  by (simp add: typed_detail_contract attempt_unavailable)

lemma unavailable_lists_nothing: "\<not> evaluation_available c \<Longrightarrow> all_variations x u c = []"
  by (simp add: all_variations_def)

lemma closed_unavailable: "cl_closed c \<Longrightarrow> \<not> evaluation_available c" "cl_closed c \<Longrightarrow> \<not> tracking_available c"
  by (simp_all add: evaluation_available_def tracking_available_def)

lemma available_published:
  assumes "reachable x opts c" and "evaluation_available c" and "\<not> opt_offline opts"
  shows "sn_populated (cl_snapshot c)"
  using reachable_ok [OF assms(1)] assms(2,3)
  by (auto simp: client_ok_def evaluation_available_def client_initialized_def)

text \<open>
  C1. End to end: in every state the client and its threads can reach, a typed method returns
  the conversion of the variation that the reference decision selects on the published flags and
  segments, and the caller's default when the client is not available, the decision is an error
  or the text does not convert.
\<close>

theorem client_serves_reference_decision:
  assumes "reachable x opts c"
  shows "fst (evaluate_typed_value x env key u dflt conv c) =
    (if \<not> evaluation_available c then dflt
     else
       (case spec_evaluate x (map_of (sn_flags (cl_snapshot c))) (map_of (sn_segments (cl_snapshot c))) key u of
          Inl e \<Rightarrow> dflt
        | Inr result \<Rightarrow> (case conv (var_value (er_variation result)) of Inl e \<Rightarrow> dflt | Inr v \<Rightarrow> v)))"
proof (cases "evaluation_available c")
  case True
  with attempt_spec [OF assms True, of key u conv] show ?thesis
    by (simp add: typed_value_contract split: sum.splits)
qed (simp add: typed_value_contract attempt_unavailable)

text \<open>
  C23. An online client evaluates published data only: as long as no data set has been
  published, whatever else has happened, every method reports that the client is not ready,
  nothing is listed, and re-evaluating for tracking is refused.
\<close>

theorem nothing_is_evaluated_before_data:
  assumes "reachable x opts c" and "\<not> opt_offline opts" and "\<not> sn_populated (cl_snapshot c)"
  shows "fst (evaluate_typed_detail x env key u dflt conv c) = detail_fallback key KClientNotReady ''client not ready'' dflt \<and>
    fst (evaluate_raw x env key u c) = Inl ClientNotReady \<and> all_variations x u c = [] \<and>
    track_eval_event_for_flag x env u key c = (False, c)"
proof -
  have "\<not> evaluation_available c" using available_published assms by blast
  then show ?thesis
    by (simp add: unavailable_detail unavailable_lists_nothing evaluate_raw_def evaluate_and_then_def
        track_eval_event_for_flag_def)
qed

text \<open>
  C7. A closed client stays silent: from the first action of a close on, whatever its other
  actions and threads that have not yet ended still do, every method returns the default as a
  client that is not ready, nothing is listed and every tracking call is refused; once the
  close has returned, the event processor accepts nothing from anyone.
\<close>

theorem closed_client_is_silent:
  assumes "reachable x opts c" and "client_steps x (close_flag c) c'"
    and "client_steps x (client_close sync e1 e2 c) c''"
  shows "fst (evaluate_typed_detail x env key u dflt conv c') = detail_fallback key KClientNotReady ''client not ready'' dflt \<and>
    all_variations x u c' = [] \<and> track_eval_event env u event c' = (False, c') \<and>
    track_eval_event_for_flag x env u key c' = (False, c') \<and> track_metric_event env u name v c' = (False, c') \<and>
    cl_closed c'' \<and> \<not> is_accepting (cl_event_processor c'')"
proof -
  have ok: "client_ok x opts (close_flag c)" and shut: "cl_closed (close_flag c)"
    using close_flag_ok reachable_ok [OF assms(1)] by (blast, simp add: close_flag_def)
  from clients.steps_closed [OF client_close_steps ok shut, of sync e1 e2]
  have close: "client_ok x opts (client_close sync e1 e2 c)" "cl_closed (client_close sync e1 e2 c)" by simp_all
  have "cl_closed c'" using clients.steps_closed [OF assms(2) ok shut] by simp
  moreover have "cl_closed c''" using clients.steps_closed [OF assms(3) close] by simp
  moreover have "gate_shut (cl_event_processor c'')"
    using event_gate.steps_closed [OF assms(3) close(1) client_close_shut] by simp
  then have "\<not> is_accepting (cl_event_processor c'')" by (auto simp: gate_shut_def is_accepting_def)
  ultimately show ?thesis
    by (simp add: closed_unavailable unavailable_detail unavailable_lists_nothing track_eval_event_def
        track_eval_event_for_flag_def track_metric_event_def)
qed

text \<open>
  C26. An offline client is its bootstrap: until closing begins it is ready and decides every
  flag on the bootstrap's data alone, and it never has an event processor, so no tracking call
  is accepted.
\<close>

theorem offline_client_serves_bootstrap:
  assumes "reachable x opts c" and "opt_offline opts"
  shows "(cl_closed c \<or> client_current_status c = ClientReady) \<and> client_initialized c \<and>
    cl_event_processor c = Disabled \<and> tracking_available c = False \<and>
    fst (evaluate_typed_value x env key u dflt conv c) =
      (if cl_closed c then dflt
       else
         (case spec_evaluate x (map_of (sn_flags (offline_snapshot x opts)))
                 (map_of (sn_segments (offline_snapshot x opts))) key u of
            Inl e \<Rightarrow> dflt
          | Inr result \<Rightarrow> (case conv (var_value (er_variation result)) of Inl e \<Rightarrow> dflt | Inr v \<Rightarrow> v)))"
proof -
  from reachable_ok [OF assms(1)] assms(2)
  have c: "cl_snapshot c = offline_snapshot x opts" "tracker_initialized (cl_status c)" "cl_event_processor c = Disabled"
    "cl_closed c \<or> tracker_status (cl_status c) = Ready"
    by (auto simp: client_ok_def)
  then have av: "evaluation_available c \<longleftrightarrow> \<not> cl_closed c"
    by (auto simp: evaluation_available_def client_initialized_def)
  have "fst (evaluate_typed_value x env key u dflt conv c) = outcome_value dflt (attempt x key u conv c)"
    by (simp add: typed_value_contract)
  with c av attempt_spec [OF assms(1), of key u conv] show ?thesis
    by (cases "cl_closed c")
      (simp_all add: client_current_status_def client_initialized_def tracking_available_def is_accepting_def
        attempt_unavailable split: sum.splits)
qed

section \<open>Consent\<close>

lemma record_event_queue:
  obtains p' where "record_event raced n payload (Active p) = (False, Active p')" "pr_queue p' = pr_queue p"
  | p' adm where "record_event raced n payload (Active p) = (True, Active p')" "\<not> pr_closed p"
      "pr_queue p' = pr_queue p @ [PayloadMsg \<lparr>pe_payload = payload, pe_admission = adm\<rparr>]"
  by (cases rule: record_inner_cases [of raced n payload p]) (auto simp: record_event_def)

lemma record_evaluation_queue:
  obtains p' where "record_evaluation ly raced u e (Active p) = (False, Active p')" "pr_queue p' = pr_queue p"
  | p' adm where "record_evaluation ly raced u e (Active p) = (True, Active p')" "ev_insights_enabled e"
      "u_key u \<noteq> []" "\<not> pr_closed p"
      "pr_queue p' = pr_queue p @ [PayloadMsg \<lparr>pe_payload = payload_evaluation_at u (ev_flag_key e)
         (ev_variation_id e) (ev_variation_value e) (ev_timestamp e), pe_admission = adm\<rparr>]"
proof (cases "ev_insights_enabled e \<and> u_key u \<noteq> [] \<and> \<not> str_is_blank (ev_flag_key e) \<and>
    \<not> str_is_blank (ev_variation_id e) \<and> is_accepting (Active p)")
  case True
  define n where "n = saturating_add (estimated_evaluation_size ly u (ev_flag_key e) (ev_variation_id e)
    (ev_variation_value e)) (size_of_event_admission ly)"
  define payload where "payload = payload_evaluation_at u (ev_flag_key e) (ev_variation_id e) (ev_variation_value e)
    (ev_timestamp e)"
  from True have "record_evaluation ly raced u e (Active p) = record_event raced n payload (Active p)"
    by (simp add: record_evaluation_def record_evaluation_at_def n_def payload_def)
  with True that show ?thesis
    by (cases rule: record_event_queue [of raced n payload p]) (simp_all add: payload_def)
next
  case False
  then have "record_evaluation ly raced u e (Active p) = (False, Active p)"
    by (auto simp: record_evaluation_def record_evaluation_at_def)
  with that(1) show ?thesis by blast
qed

text \<open>
  C24. Evaluating queues nothing without consent: the queue of the event processor is as before
  unless automatic events are enabled, the flag has insights and the user has a key; then it has
  gained at most one event, the one captured in the detail. Explicit tracking does nothing unless
  it is allowed.
\<close>

theorem events_need_consent:
  assumes "cl_event_processor c = Active p"
  shows "\<exists>p'. cl_event_processor (snd (evaluate_typed_detail x env key u dflt conv c)) = Active p' \<and>
    (pr_queue p' = pr_queue p \<or>
     (\<exists>e adm. de_evaluation_event (fst (evaluate_typed_detail x env key u dflt conv c)) = Some e \<and>
        ev_insights_enabled e \<and> \<not> opt_disable_events (cl_options c) \<and> u_key u \<noteq> [] \<and> \<not> cl_closed c \<and>
        pr_queue p' = pr_queue p @ [PayloadMsg \<lparr>pe_payload = payload_evaluation_at u key (ev_variation_id e)
          (ev_variation_value e) (ee_now env), pe_admission = adm\<rparr>])) \<and>
    (opt_allow_track (cl_options c) \<or>
     track_eval_event env u event c = (False, c) \<and> track_eval_event_for_flag x env u key c = (False, c) \<and>
     track_metric_event env u name v c = (False, c))"
proof -
  define r where "r = attempt x key u conv c"
  have track: "opt_allow_track (cl_options c) \<or>
     track_eval_event env u event c = (False, c) \<and> track_eval_event_for_flag x env u key c = (False, c) \<and>
     track_metric_event env u name v c = (False, c)"
    by (simp add: track_eval_event_def track_eval_event_for_flag_def track_metric_event_def tracking_available_def)
  have proc: "cl_event_processor (snd (evaluate_typed_detail x env key u dflt conv c)) =
      outcome_recorded env (opt_disable_events (cl_options c)) key u r (Active p)"
    by (simp add: typed_detail_contract after_attempt_def r_def assms)
  show ?thesis
  proof (cases r)
    case (Inl e)
    with proc track show ?thesis by auto
  next
    case (Inr rv)
    then obtain result val where rv: "r = Inr (result, val)" by (cases rv) simp
    then have "evaluation_available c" by (auto simp: r_def attempt_def split: if_splits)
    then have open_c: "\<not> cl_closed c" by (simp add: evaluation_available_def)
    have ev: "de_evaluation_event (fst (evaluate_typed_detail x env key u dflt conv c)) =
        Some (event_of (ee_now env) key result)"
      using rv by (simp add: typed_detail_contract r_def)
    show ?thesis
    proof (cases "opt_disable_events (cl_options c)")
      case True
      with proc track rv show ?thesis by auto
    next
      case False
      show ?thesis
        by (cases rule: record_evaluation_queue [of "ee_layout env" "ee_raced env" u
              "event_of (ee_now env) key result" p])
          (use proc rv False ev open_c track in \<open>simp_all add: event_of_def evaluation_event_at_def\<close>)
    qed
  qed
qed

section \<open>Listing and re-evaluating\<close>

lemma set_map_filter: "set (List.map_filter f xs) = {y. \<exists>x \<in> set xs. f x = Some y}"
  by (force simp: List.map_filter_def)

lemma case_sum_Some: "(case e of Inl a \<Rightarrow> None | Inr b \<Rightarrow> Some (g b)) = Some d \<longleftrightarrow> (\<exists>b. e = Inr b \<and> d = g b)"
  by (cases e) auto

lemma map_map_filter_sorted:
  assumes "sorted_wrt (<) (xs :: str list)" and "\<And>k d. k \<in> set xs \<Longrightarrow> f k = Some d \<Longrightarrow> g d = k"
  shows "sorted_wrt (<) (map g (List.map_filter f xs))"
  using assms
proof (induction xs)
  case (Cons k ks)
  then have IH: "sorted_wrt (<) (map g (List.map_filter f ks))" by simp
  have "k < g d" if "d \<in> set (List.map_filter f ks)" for d
    using that Cons.prems by (auto simp: set_map_filter)
  with IH Cons.prems(2) [of k] show ?case by (auto simp: map_filter_simps split: option.splits)
qed (simp add: map_filter_simps)

lemma listed_evaluations:
  assumes "evaluation_available c"
  shows "d \<in> set (all_variations x u c) \<longleftrightarrow>
    (\<exists>k r. evaluate x (cl_snapshot c) k u = Inr r \<and> d = string_detail_from_result k r)"
proof -
  define keys where "keys = map fst (filter (\<lambda>(k, f). \<not> ff_is_archived f) (sn_flags (cl_snapshot c)))"
  have keys: "k \<in> set keys" if "evaluate x (cl_snapshot c) k u = Inr r" for k r
    using that by (force simp: keys_def evaluate_def split: if_splits option.splits dest: map_of_SomeD)
  have "d \<in> set (all_variations x u c) \<longleftrightarrow>
      (\<exists>k \<in> set keys. (case evaluate x (cl_snapshot c) k u of
        Inl e \<Rightarrow> None | Inr result \<Rightarrow> Some (string_detail_from_result k result)) = Some d)"
    using assms by (simp add: all_variations_def Let_def set_map_filter keys_def)
  also have "\<dots> \<longleftrightarrow> (\<exists>k r. evaluate x (cl_snapshot c) k u = Inr r \<and> d = string_detail_from_result k r)"
    using keys by (auto simp: case_sum_Some)
  finally show ?thesis .
qed

text \<open>
  C27. The listing is the string details, in key order: its keys increase strictly, and an
  entry is in it exactly when it is the detail that the string method returns for some flag with
  a served variation, without the captured event.
\<close>

theorem listing_is_the_string_details:
  assumes "reachable x opts c"
  shows "sorted_wrt (<) (map de_key (all_variations x u c)) \<and>
    (d \<in> set (all_variations x u c) \<longleftrightarrow>
      (\<exists>k e. de_evaluation_event (fst (string_variation_detail x env k u dflt c)) = Some e \<and>
        d = (fst (string_variation_detail x env k u dflt c))\<lparr>de_evaluation_event := None\<rparr>))"
proof (cases "evaluation_available c")
  case False
  then show ?thesis
    by (simp add: unavailable_lists_nothing string_variation_detail_def unavailable_detail detail_fallback_def)
next
  case True
  have dist: "distinct (map fst (sn_flags (cl_snapshot c)))"
    using snapshot_okD(1) [OF client_ok_snapshot [OF reachable_ok [OF assms]]] .
  define keys where "keys = sort (map fst (filter (\<lambda>(k, f). \<not> ff_is_archived f) (sn_flags (cl_snapshot c))))"
  have "sorted_wrt (<) keys"
    using dist by (simp add: keys_def strict_sorted_iff distinct_map_filter)
  then have "sorted_wrt (<) (map de_key (List.map_filter
      (\<lambda>key. case evaluate x (cl_snapshot c) key u of
          Inl e \<Rightarrow> None | Inr result \<Rightarrow> Some (string_detail_from_result key result)) keys))"
    by (rule map_map_filter_sorted)
      (auto simp: string_detail_from_result_def split: sum.splits prod.splits)
  then have sorted: "sorted_wrt (<) (map de_key (all_variations x u c))"
    using True by (simp add: all_variations_def keys_def Let_def)
  have "(\<exists>e. de_evaluation_event (fst (string_variation_detail x env k u dflt c)) = Some e \<and>
      d = (fst (string_variation_detail x env k u dflt c))\<lparr>de_evaluation_event := None\<rparr>) \<longleftrightarrow>
    (\<exists>r. evaluate x (cl_snapshot c) k u = Inr r \<and> d = string_detail_from_result k r)" for k
    using True
    by (cases "evaluate x (cl_snapshot c) k u")
      (simp_all add: string_variation_detail_def typed_detail_contract attempt_def parse_string_def
        string_detail_from_result_def detail_fallback_def case_prod_beta)
  with sorted listed_evaluations [OF True] show ?thesis by simp
qed

text \<open>
  Tracking a flag by key is tracking the captured event: re-evaluating for tracking does
  what tracking the event of the string detail, taken at the same moment, does.
\<close>

theorem tracking_by_key_is_tracking_the_detail:
  "track_eval_event_for_flag x env u key c =
    (case de_evaluation_event (fst (string_variation_detail x env key u dflt c)) of
       Some e \<Rightarrow> track_eval_event env u e c
     | None \<Rightarrow> (False, c))"
  by (auto simp: track_eval_event_for_flag_def track_eval_event_def string_variation_detail_def typed_detail_contract
      attempt_def parse_string_def detail_fallback_def event_of_def evaluation_event_new_def split: sum.splits)

section \<open>Stale before any data was ready\<close>

text \<open>
  A conflicting patch that arrives before anything else makes the status Stale while the client
  has never been initialized: Stale alone does not mean that an earlier snapshot is usable, and
  \<^verbatim>\<open>evaluation_available\<close> is right to ask for both.
\<close>

theorem conflict_before_data_is_stale:
  assumes "cl_synchronizer c \<noteq> None" and "\<not> client_initialized c"
    and "parse_envelope x payload = Some envelope" and "env_message_type envelope = ''data-sync''"
    and "ds_event_type (env_data envelope) = ''patch''"
    and "patch x (env_data envelope) (cl_snapshot c) = (VersionConflict, s)"
  shows "\<exists>c'. client_step x c c' \<and> client_current_status c' = ClientStale \<and> \<not> client_initialized c' \<and>
    \<not> evaluation_available c'"
proof -
  have "apply_message x payload (cl_snapshot c) (cl_status c) = (ApplyConflict, s, tracker_set Stale (cl_status c))"
    using assms(3-6) by (simp add: apply_message_def)
  from step_effect [OF assms(1) effect_message [OF this]]
  have "client_step x c (c\<lparr>cl_snapshot := s, cl_status := tracker_set Stale (cl_status c)\<rparr>)" .
  with assms(2) show ?thesis
    by (intro exI [of _ "c\<lparr>cl_snapshot := s, cl_status := tracker_set Stale (cl_status c)\<rparr>"])
      (simp add: client_current_status_def client_initialized_def evaluation_available_def)
qed

section \<open>Conversions\<close>

text \<open>
  The typed methods return values of their type: an integer method returns the default or
  a value in the range of i64, a float method the default or a finite number; so no text of a
  flag, however large, leads outside.
\<close>

theorem converted_values_in_range:
  "fst (int_variation x env key u dflt c) \<in> insert dflt {i. is_i64 i} \<and>
   fst (float_variation x env key u fdflt c) \<in> insert fdflt {n. f64_is_finite n}"
proof -
  have "is_i64 i" if "attempt x key u parse_int c = Inr (r, i)" for r i
    using that parse_i64_range by (auto simp: attempt_def parse_int_def split: if_splits sum.splits option.splits)
  moreover have "f64_is_finite n" if "attempt x key u parse_float c = Inr (r, n)" for r n
    using that parse_finite_f64_finite by (auto simp: attempt_def parse_float_def split: if_splits sum.splits option.splits)
  ultimately show ?thesis
    by (cases "attempt x key u parse_int c"; cases "attempt x key u parse_float c")
      (auto simp: int_variation_def float_variation_def typed_value_contract)
qed

text \<open>
  Values survive the wire: when the served variation is the printed form of an integer or
  of a boolean in any case, the typed method of that type returns exactly this value, whatever
  the default.
\<close>

theorem printed_values_are_served:
  assumes "evaluation_available c" and "evaluate x (cl_snapshot c) key u = Inr result"
  shows "(is_i64 i \<and> var_value (er_variation result) = show_i64 i \<longrightarrow>
      fst (int_variation x env key u dflt c) = i) \<and>
    (eq_ignore_ascii_case (var_value (er_variation result)) (if b then ''true'' else ''false'') \<longrightarrow>
      fst (bool_variation x env key u bdflt c) = b)"
proof -
  have int: "fst (int_variation x env key u dflt c) = i" if "is_i64 i" "var_value (er_variation result) = show_i64 i"
    using assms that parse_i64_show_i64 [OF that(1)]
    by (simp add: int_variation_def typed_value_contract attempt_def parse_int_def)
  have not_both: "\<not> eq_ignore_ascii_case s ''true''" if "eq_ignore_ascii_case s ''false''" for s
    using that eq_ignore_ascii_case_length [of s "''true''"] eq_ignore_ascii_case_length [of s "''false''"] by auto
  have bool: "fst (bool_variation x env key u bdflt c) = b"
    if "eq_ignore_ascii_case (var_value (er_variation result)) (if b then ''true'' else ''false'')"
    using assms that not_both
    by (cases b) (auto simp: bool_variation_def typed_value_contract attempt_def parse_bool_def)
  show ?thesis using int bool by blast
qed

section \<open>Witnesses\<close>

definition sample_client_options :: "bool \<Rightarrow> (str, unit) fb_options" where
  "sample_client_options offline =
    \<lparr>opt_env_secret = ''abc='', opt_streaming_url = DEFAULT_STREAMING_URL, opt_event_url = DEFAULT_EVENT_URL,
     opt_start_wait = from_secs 5, opt_offline = offline, opt_disable_events = False, opt_allow_track = True,
     opt_evaluation_observer = Some (), opt_connect_timeout = from_secs 3, opt_close_timeout = from_secs 2,
     opt_keep_alive_interval = from_secs 15, opt_reconnect_delays = DEFAULT_RECONNECT_DELAYS,
     opt_auto_flush_interval = from_secs 5, opt_flush_timeout = from_secs 5, opt_event_request_timeout = from_secs 5,
     opt_max_events_in_queue = 100, opt_max_event_queue_size_bytes = 100000, opt_max_events_per_request = 50,
     opt_max_send_event_attempts = 2, opt_send_event_retry_interval = from_millis 200,
     opt_max_ws_message_size = 1000,
     opt_bootstrap = (if offline then Some \<lparr>env_message_type = ''data-sync'', env_data = sample_data 1 True\<rparr> else None)\<rparr>"

definition sample_env :: eval_env where
  "sample_env = \<lparr>ee_layout = sample_layout, ee_raced = False, ee_now = 0\<rparr>"

abbreviation sample_offline_client :: "(str, unit, unit) client" where
  "sample_offline_client \<equiv> with_options sample_crates None None (sample_client_options True)"

abbreviation sample_online_client :: "(str, unit, unit) client" where
  "sample_online_client \<equiv> with_options sample_crates None None (sample_client_options False)"

lemma sample_reachable: "reachable x opts (with_options x e1 e2 opts)"
  unfolding reachable_def by blast

lemma sample_offline_client:
  "cl_snapshot sample_offline_client = populate sample_crates (sample_data 1 True)"
  "evaluation_available sample_offline_client" "\<not> cl_closed sample_offline_client"
  by (simp_all add: with_options_def sample_client_options_def evaluation_available_def client_initialized_def Let_def)

lemma sample_online_client:
  "\<not> sn_populated (cl_snapshot sample_online_client)"
  "\<exists>p. cl_event_processor sample_online_client = Active p"
  by (simp_all add: with_options_def sample_client_options_def synchronizer_start_def worker_spawn_def store_new_def
      event_processor_new_def Let_def)

lemma sample_served:
  "\<exists>r. evaluate sample_crates (cl_snapshot sample_offline_client) ''f'' sample_user = Inr r \<and>
    er_variation r = \<lparr>var_id = ''on'', var_value = ''true''\<rparr>"
proof -
  have "rollout_of_key sample_crates ''fu1'' = Fin False (1 / 2)" by (rule sample_position)
  then show ?thesis
    unfolding sample_offline_client
    by (simp add: evaluate_spec [OF populate_ok] spec_evaluate_def decide_def pick_def dispatch_key_def
        sample_rollout_def in_rollout_between flag_variation_def evaluator_result_def)
qed

theorem client_serves_reference_decision_witness:
  "fst (evaluate_typed_value sample_crates sample_env ''f'' sample_user False parse_bool sample_offline_client) = True"
proof -
  obtain r where r: "evaluate sample_crates (cl_snapshot sample_offline_client) ''f'' sample_user = Inr r"
    "er_variation r = \<lparr>var_id = ''on'', var_value = ''true''\<rparr>" using sample_served by blast
  have "spec_evaluate sample_crates (map_of (sn_flags (cl_snapshot sample_offline_client)))
      (map_of (sn_segments (cl_snapshot sample_offline_client))) ''f'' sample_user = Inr r"
    using r(1) unfolding sample_offline_client(1) by (simp add: evaluate_spec [OF populate_ok])
  with r(2) show ?thesis
    by (simp add: client_serves_reference_decision [OF sample_reachable] sample_offline_client(2) parse_bool_def)
qed

theorem nothing_is_evaluated_before_data_witness:
  "all_variations sample_crates sample_user sample_online_client = []"
  by (rule nothing_is_evaluated_before_data [OF sample_reachable, THEN conjunct2, THEN conjunct2, THEN conjunct1])
    (use sample_online_client in \<open>simp_all add: sample_client_options_def\<close>)

theorem closed_client_is_silent_witness:
  "all_variations sample_crates sample_user (client_close (True, True) (True, True) (True, True) sample_offline_client) = []"
  by (rule closed_client_is_silent [OF sample_reachable client_close_steps rtranclp.rtrancl_refl, THEN conjunct2,
        THEN conjunct1])

theorem offline_client_serves_bootstrap_witness:
  "client_current_status sample_offline_client = ClientReady"
proof -
  have "opt_offline (sample_client_options True)" by (simp add: sample_client_options_def)
  from offline_client_serves_bootstrap [OF sample_reachable this, of sample_crates None None, THEN conjunct1]
    sample_offline_client(3) show ?thesis by simp
qed

theorem events_need_consent_witness:
  "\<exists>p p'. cl_event_processor sample_online_client = Active p \<and>
    cl_event_processor (snd (evaluate_typed_detail sample_crates sample_env ''f'' sample_user False parse_bool
      sample_online_client)) = Active p'"
proof -
  obtain p where "cl_event_processor sample_online_client = Active p" using sample_online_client(2) by blast
  with events_need_consent [OF this, where x = sample_crates and env = sample_env and key = "''f''" and
      u = sample_user and dflt = False and conv = parse_bool] show ?thesis by blast
qed

theorem listing_is_the_string_details_witness:
  "sorted_wrt (<) (map de_key (all_variations sample_crates sample_user sample_offline_client))"
  by (rule listing_is_the_string_details [OF sample_reachable, THEN conjunct1])

theorem printed_values_are_served_witness:
  "fst (bool_variation sample_crates sample_env ''f'' sample_user False sample_offline_client) = True"
proof -
  obtain r where r: "evaluate sample_crates (cl_snapshot sample_offline_client) ''f'' sample_user = Inr r"
    "er_variation r = \<lparr>var_id = ''on'', var_value = ''true''\<rparr>" using sample_served by blast
  from printed_values_are_served [OF sample_offline_client(2) r(1), where b = True and env = sample_env and bdflt = False] r(2)
  show ?thesis by simp
qed

end
