(* ===== verification/Wire.thy ===== *)
theory Wire
  imports Sample "HOL-Library.Multiset"
begin

text \<open>
  The wire format of \<^verbatim>\<open>src/model.rs\<close> as a contract with the server: a reference encoder
  for every type of the data-sync protocol, with room for fields the SDK does not know, and the
  proof that the derived deserialization reads back exactly what was encoded.
\<close>

section \<open>A reference encoder\<close>

text \<open>\<open>extra\<close> holds the unknown entries that a newer server may add to any object.\<close>

type_synonym extra = "(str \<times> json) list"

definition encode_object :: "extra \<Rightarrow> (str \<times> json) list \<Rightarrow> json" where
  "encode_object extra kvs = JObj (extra @ kvs)"

definition encode_strs :: "str list \<Rightarrow> json" where
  "encode_strs ss = JArr (map JStr ss)"

definition encode_opt_str :: "str option \<Rightarrow> json" where
  "encode_opt_str s = (case s of None \<Rightarrow> JNull | Some t \<Rightarrow> JStr t)"

definition encode_version :: "int \<Rightarrow> json" where
  "encode_version i = JNum (if 0 \<le> i then PosInt (nat i) else NegInt i)"

definition encode_variation :: "extra \<Rightarrow> variation \<Rightarrow> json" where
  "encode_variation ex v = encode_object ex [(''id'', JStr (var_id v)), (''value'', JStr (var_value v))]"

definition encode_target_user :: "extra \<Rightarrow> target_user \<Rightarrow> json" where
  "encode_target_user ex t =
    encode_object ex [(''keyIds'', encode_strs (tu_key_ids t)), (''variationId'', JStr (tu_variation_id t))]"

definition encode_condition :: "extra \<Rightarrow> condition \<Rightarrow> json" where
  "encode_condition ex c =
    encode_object ex [(''property'', JStr (c_property c)), (''op'', JStr (c_op c)), (''value'', JStr (c_value c))]"

definition encode_rollout_variation :: "extra \<Rightarrow> rollout_variation \<Rightarrow> json" where
  "encode_rollout_variation ex r =
    encode_object ex [(''id'', JStr (rv_id r)), (''rollout'', JArr (map (\<lambda>f. JNum (Float f)) (rv_rollout r)))]"

definition encode_target_rule :: "extra \<Rightarrow> target_rule \<Rightarrow> json" where
  "encode_target_rule ex r =
    encode_object ex
      [(''name'', JStr (tr_name r)), (''dispatchKey'', encode_opt_str (tr_dispatch_key r)),
       (''conditions'', JArr (map (encode_condition ex) (tr_conditions r))),
       (''variations'', JArr (map (encode_rollout_variation ex) (tr_variations r)))]"

definition encode_fallthrough :: "extra \<Rightarrow> fallthrough \<Rightarrow> json" where
  "encode_fallthrough ex t =
    encode_object ex
      [(''dispatchKey'', encode_opt_str (ft_dispatch_key t)),
       (''variations'', JArr (map (encode_rollout_variation ex) (ft_variations t)))]"

definition encode_flag :: "extra \<Rightarrow> feature_flag \<Rightarrow> json" where
  "encode_flag ex f =
    encode_object ex
      [(''id'', JStr (ff_id f)), (''key'', JStr (ff_key f)), (''updatedAt'', encode_version (ff_updated_at f)),
       (''variationType'', JStr (ff_variation_type f)),
       (''variations'', JArr (map (encode_variation ex) (ff_variations f))),
       (''targetUsers'', JArr (map (encode_target_user ex) (ff_target_users f))),
       (''rules'', JArr (map (encode_target_rule ex) (ff_rules f))),
       (''isEnabled'', JBool (ff_is_enabled f)), (''insightsEnabled'', JBool (ff_insights_enabled f)),
       (''disabledVariationId'', JStr (ff_disabled_variation_id f)),
       (''fallthrough'', encode_fallthrough ex (ff_fallthrough f)), (''isArchived'', JBool (ff_is_archived f))]"

definition encode_match_rule :: "extra \<Rightarrow> match_rule \<Rightarrow> json" where
  "encode_match_rule ex r = encode_object ex [(''conditions'', JArr (map (encode_condition ex) (mr_conditions r)))]"

definition encode_segment :: "extra \<Rightarrow> segment \<Rightarrow> json" where
  "encode_segment ex g =
    encode_object ex
      [(''id'', JStr (sg_id g)), (''updatedAt'', encode_version (sg_updated_at g)),
       (''included'', encode_strs (sg_included g)), (''excluded'', encode_strs (sg_excluded g)),
       (''rules'', JArr (map (encode_match_rule ex) (sg_rules g))), (''isArchived'', JBool (sg_is_archived g))]"

definition encode_data_set :: "extra \<Rightarrow> data_set \<Rightarrow> json" where
  "encode_data_set ex d =
    encode_object ex
      [(''eventType'', JStr (ds_event_type d)),
       (''featureFlags'', JArr (map (encode_flag ex) (ds_feature_flags d))),
       (''segments'', JArr (map (encode_segment ex) (ds_segments d)))]"

definition encode_envelope :: "extra \<Rightarrow> data_sync_envelope \<Rightarrow> json" where
  "encode_envelope ex e =
    encode_object ex [(''messageType'', JStr (env_message_type e)), (''data'', encode_data_set ex (env_data e))]"

text \<open>Every name the SDK reads.\<close>

definition known_names :: "str list" where
  "known_names =
    flag_fields @ [''value'', ''keyIds'', ''variationId'', ''property'', ''op'', ''rollout'', ''name'', ''dispatchKey'',
      ''conditions'', ''included'', ''excluded'', ''eventType'', ''featureFlags'', ''segments'', ''messageType'', ''data'']"

definition unknown :: "extra \<Rightarrow> bool" where
  "unknown ex = list_all (\<lambda>(k, j). k \<notin> set known_names) ex"

section \<open>Reading back\<close>

named_theorems wire_simps \<open>decoding what the reference encoder produced\<close>

lemma those_map_inverse [wire_simps]:
  "(\<And>a. a \<in> set as \<Longrightarrow> d (e a) = Some a) \<Longrightarrow> those (map (d \<circ> e) as) = Some as"
  by (induction as) auto

lemma decode_list_map: "(\<And>a. a \<in> set as \<Longrightarrow> d (e a) = Some a) \<Longrightarrow> decode_list d (JArr (map e as)) = Some as"
  by (simp add: those_map_inverse)

lemma decode_strs [wire_simps]: "decode_list decode_str (encode_strs ss) = Some ss"
  unfolding encode_strs_def by (rule decode_list_map) simp

lemma decode_opt_str [wire_simps]: "decode_option decode_str (encode_opt_str s) = Some s"
  by (cases s) (simp_all add: encode_opt_str_def)

lemma decode_floats [wire_simps]: "decode_list decode_f64 (JArr (map (\<lambda>f. JNum (Float f)) fs)) = Some fs"
  by (rule decode_list_map) simp

lemma decode_version [wire_simps]: "is_i64 i \<Longrightarrow> deserialize_version x (encode_version i) = Some i"
  by (auto simp: encode_version_def is_i64_def)

lemma struct_fields_object [wire_simps]:
  assumes "unknown ex" and "set names \<subseteq> set known_names" and "list_all (\<lambda>(k, j). k \<in> set names) kvs"
    and "distinct (map fst kvs)"
  shows "struct_fields names (encode_object ex kvs) = Some kvs"
proof -
  have "filter (\<lambda>(k, v). k \<in> set names) ex = []"
    using assms(1,2) by (auto simp: filter_empty_conv unknown_def list_all_iff)
  moreover have "filter (\<lambda>(k, v). k \<in> set names) kvs = kvs"
    using assms(3) by (auto simp: filter_id_conv list_all_iff)
  ultimately show ?thesis using assms(4) by (simp add: encode_object_def)
qed

lemmas decode_struct = struct_fields_object known_names_def flag_fields_def field_or_def field_required_def

lemma decode_variation [wire_simps]: "unknown ex \<Longrightarrow> decode_variation (encode_variation ex v) = Some v"
  by (simp add: decode_variation_def encode_variation_def decode_struct)

lemma decode_target_user [wire_simps]: "unknown ex \<Longrightarrow> decode_target_user (encode_target_user ex t) = Some t"
  by (simp add: decode_target_user_def encode_target_user_def decode_struct wire_simps)

lemma decode_condition [wire_simps]: "unknown ex \<Longrightarrow> decode_condition (encode_condition ex c) = Some c"
  by (simp add: decode_condition_def encode_condition_def decode_struct)

lemma decode_rollout_variation [wire_simps]:
  "unknown ex \<Longrightarrow> decode_rollout_variation (encode_rollout_variation ex r) = Some r"
  by (simp add: decode_rollout_variation_def encode_rollout_variation_def decode_struct wire_simps)

lemma decode_target_rule [wire_simps]: "unknown ex \<Longrightarrow> decode_target_rule (encode_target_rule ex r) = Some r"
  by (simp add: decode_target_rule_def encode_target_rule_def decode_struct wire_simps)

lemma decode_fallthrough [wire_simps]: "unknown ex \<Longrightarrow> decode_fallthrough (encode_fallthrough ex t) = Some t"
  by (simp add: decode_fallthrough_def encode_fallthrough_def decode_struct wire_simps)

lemma decode_insights [wire_simps]: "deserialize_insights_enabled (JBool b) = Some b"
  by (simp add: deserialize_insights_enabled_def)

lemma decode_flag [wire_simps]:
  "unknown ex \<Longrightarrow> is_i64 (ff_updated_at f) \<Longrightarrow> decode_flag x (encode_flag ex f) = Some f"
  by (simp add: decode_flag_def encode_flag_def decode_struct wire_simps)

lemma decode_match_rule [wire_simps]: "unknown ex \<Longrightarrow> decode_match_rule (encode_match_rule ex r) = Some r"
  by (simp add: decode_match_rule_def encode_match_rule_def decode_struct wire_simps)

lemma decode_segment [wire_simps]:
  "unknown ex \<Longrightarrow> is_i64 (sg_updated_at g) \<Longrightarrow> decode_segment x (encode_segment ex g) = Some g"
  by (simp add: decode_segment_def encode_segment_def decode_struct wire_simps)

lemma decode_envelope_encode:
  assumes "unknown ex"
    and "\<forall>f \<in> set (ds_feature_flags (env_data e)). is_i64 (ff_updated_at f)"
    and "\<forall>g \<in> set (ds_segments (env_data e)). is_i64 (sg_updated_at g)"
  shows "decode_envelope x (encode_envelope ex e) = Some e"
proof -
  have flags: "decode_list (decode_flag x) (JArr (map (encode_flag ex) (ds_feature_flags (env_data e))))
      = Some (ds_feature_flags (env_data e))"
    using assms by (intro decode_list_map decode_flag) auto
  have segs: "decode_list (decode_segment x) (JArr (map (encode_segment ex) (ds_segments (env_data e))))
      = Some (ds_segments (env_data e))"
    using assms by (intro decode_list_map decode_segment) auto
  have "decode_data_set x (encode_data_set ex (env_data e)) = Some (env_data e)"
    using assms(1)
    by (simp add: decode_data_set_def encode_data_set_def decode_struct flags segs del: decode_list.simps)
  with assms(1) show ?thesis
    by (simp add: decode_envelope_def encode_envelope_def decode_struct)
qed

section \<open>What a newer server may change\<close>

text \<open>
  A tree with more in it: to each object, at any depth, entries under names the protocol does
  not use may be added, anywhere and each object its own, and the entries may be in any order.
\<close>

inductive widened :: "json \<Rightarrow> json \<Rightarrow> bool" where
  widened_same: "widened j j"
| widened_array: "list_all2 widened js ks \<Longrightarrow> widened (JArr js) (JArr ks)"
| widened_object: "list_all2 (rel_prod (=) widened) kvs new \<Longrightarrow>
    mset (filter (\<lambda>(k, j). k \<in> set known_names) entries) = mset new \<Longrightarrow> widened (JObj kvs) (JObj entries)"

inductive_simps widened_array_iff: "widened (JArr js) j"
inductive_simps widened_leaf_iff [simp]: "widened JNull j" "widened (JBool b) j" "widened (JNum n) j" "widened (JStr s) j"
inductive_cases widened_objectE: "widened (JObj kvs) j"

text \<open>A decoder that reads the same from such a tree, and a use of a struct's entries that does.\<close>

definition tolerant :: "(json \<Rightarrow> 'a option) \<Rightarrow> bool" where
  "tolerant d = (\<forall>j j' v. widened j j' \<longrightarrow> d j = Some v \<longrightarrow> d j' = Some v)"

definition same_entries :: "(str \<times> json) list \<Rightarrow> (str \<times> json) list \<Rightarrow> bool" where
  "same_entries fs fs' = (\<forall>k. rel_option widened (map_of fs k) (map_of fs' k))"

definition tolerant_body :: "((str \<times> json) list \<Rightarrow> 'a option) \<Rightarrow> bool" where
  "tolerant_body b = (\<forall>fs fs' v. same_entries fs fs' \<longrightarrow> b fs = Some v \<longrightarrow> b fs' = Some v)"

named_theorems tolerance \<open>what reads the same from a widened tree\<close>

lemma tolerant_leaves [tolerance]:
  "tolerant decode_str" "tolerant decode_bool" "tolerant decode_f64" "tolerant (deserialize_version x)"
  unfolding tolerant_def
  by (intro allI impI; rename_tac j j' v; case_tac j; auto)+

lemma tolerant_insights [tolerance]: "tolerant deserialize_insights_enabled"
  unfolding tolerant_def deserialize_insights_enabled_def
  by (auto elim: widened.cases)

lemma those_tolerant:
  assumes "tolerant d" and "list_all2 widened js ks" and "those (map d js) = Some vs"
  shows "those (map d ks) = Some vs"
  using assms(2,3)
proof (induction arbitrary: vs rule: list_all2_induct)
  case (Cons j js k ks)
  with assms(1) show ?case by (auto simp: tolerant_def split: option.splits)
qed simp

lemma tolerant_list [tolerance]: "tolerant d \<Longrightarrow> tolerant (decode_list d)"
proof -
  assume d: "tolerant d"
  have "list_all2 widened js js" for js by (rule list_all2_refl) (rule widened_same)
  then show ?thesis
    unfolding tolerant_def
    by (intro allI impI; rename_tac j j' v; case_tac j; auto simp: widened_array_iff intro: those_tolerant [OF d])
qed

lemma tolerant_option [tolerance]: "tolerant d \<Longrightarrow> tolerant (decode_option d)"
proof -
  assume d: "tolerant d"
  have "decode_option d j' = Some v" if "widened j j'" "decode_option d j = Some v" for j j' v
  proof (cases "j = JNull")
    case True
    with that show ?thesis by simp
  next
    case False
    with that(2) obtain w where w: "d j = Some w" "v = Some w" by (cases j) auto
    with d that(1) have "d j' = Some w" by (simp add: tolerant_def)
    moreover have "j' \<noteq> JNull" using that(1) False by (auto elim: widened.cases)
    ultimately show ?thesis using w(2) by (cases j') auto
  qed
  then show ?thesis by (simp add: tolerant_def)
qed

lemma tolerant_bodies [tolerance]:
  "tolerant_body (\<lambda>fs. Some c)"
  "tolerant_body f \<Longrightarrow> (\<And>a. tolerant_body (g a)) \<Longrightarrow> tolerant_body (\<lambda>fs. Option.bind (f fs) (\<lambda>a. g a fs))"
  by (simp add: tolerant_body_def, fastforce simp: tolerant_body_def bind_eq_Some_conv)

lemma tolerant_fields [tolerance]:
  assumes "tolerant d"
  shows "tolerant_body (field_or dflt d name)" "tolerant_body (field_required d name)"
  unfolding tolerant_body_def
proof (safe)
  fix fs fs' v
  assume "same_entries fs fs'"
  then have "rel_option widened (map_of fs name) (map_of fs' name)" by (simp add: same_entries_def)
  with assms show "field_or dflt d name fs = Some v \<Longrightarrow> field_or dflt d name fs' = Some v"
    "field_required d name fs = Some v \<Longrightarrow> field_required d name fs' = Some v"
    by (auto simp: field_or_def field_required_def tolerant_def rel_option_iff split: option.splits)
qed

lemma list_all2_map_of:
  "list_all2 (rel_prod (=) r) fs fs' \<Longrightarrow> rel_option r (map_of fs k) (map_of fs' k)"
  by (induction rule: list_all2_induct) auto

lemma struct_fields_widened:
  assumes "widened j j'" and "set names \<subseteq> set known_names" and "struct_fields names j = Some fs"
  shows "\<exists>fs'. struct_fields names j' = Some fs' \<and> same_entries fs fs'"
  using assms(1)
proof cases
  case widened_same
  have "rel_option widened o' o'" for o' by (rule option.rel_refl) (rule widened.widened_same)
  with assms(3) widened_same show ?thesis by (simp add: same_entries_def)
next
  case (widened_array js ks)
  with assms(3) have len: "length js = length ks" "length js \<le> length names" "fs = zip names js"
    by (auto dest: list_all2_lengthD split: if_splits)
  with widened_array(3) have "list_all2 (rel_prod (=) widened) (zip names js) (zip names ks)"
    by (auto simp: list_all2_conv_all_nth)
  then show ?thesis using len widened_array(2) by (simp add: same_entries_def list_all2_map_of)
next
  case (widened_object kvs new entries)
  let ?n = "filter (\<lambda>(k, j). k \<in> set names)"
  from assms(3) widened_object(1) have fs: "fs = ?n kvs" "distinct (map fst fs)" by (auto simp: Let_def split: if_splits)
  have rel: "list_all2 (rel_prod (=) widened) (?n kvs) (?n new)"
    using widened_object(3) by (induction rule: list_all2_induct) auto
  then have "map fst (?n kvs) = map fst (?n new)"
    by (induction rule: list_all2_induct) auto
  with fs have dist: "distinct (map fst (?n new))" by simp
  have "?n (filter (\<lambda>(k, j). k \<in> set known_names) entries) = ?n entries"
    using assms(2) by (auto intro!: filter_cong)
  then have ms: "mset (?n entries) = mset (?n new)"
    using arg_cong [OF widened_object(4), of "filter_mset (\<lambda>(k, j). k \<in> set names)"] by (metis mset_filter)
  then have "mset (map fst (?n entries)) = mset (map fst (?n new))" by simp
  with dist have d: "distinct (map fst (?n entries))" using mset_eq_imp_distinct_iff by blast
  have "map_of (?n entries) = map_of (?n new)"
    using map_of_inject_set [OF d dist] mset_eq_setD [OF ms] by blast
  with d rel fs widened_object(2) show ?thesis
    by (simp add: same_entries_def list_all2_map_of)
qed

lemma tolerant_struct [tolerance]:
  assumes "set names \<subseteq> set known_names" and "tolerant_body b"
  shows "tolerant (\<lambda>j. Option.bind (struct_fields names j) b)"
  unfolding tolerant_def
proof (intro allI impI)
  fix j j' v
  assume "widened j j'" and "Option.bind (struct_fields names j) b = Some v"
  then obtain fs where fs: "struct_fields names j = Some fs" "b fs = Some v" by (auto simp: bind_eq_Some_conv)
  from struct_fields_widened [OF \<open>widened j j'\<close> assms(1) fs(1)] assms(2) fs(2)
  show "Option.bind (struct_fields names j') b = Some v" by (auto simp: tolerant_body_def)
qed

lemma tolerant_decoders [tolerance]:
  "tolerant decode_variation" "tolerant decode_target_user" "tolerant decode_condition" "tolerant decode_rollout_variation"
  unfolding decode_variation_def [abs_def] decode_target_user_def [abs_def] decode_condition_def [abs_def]
    decode_rollout_variation_def [abs_def]
  by (intro tolerance; simp add: known_names_def flag_fields_def)+

lemma tolerant_rules [tolerance]:
  "tolerant decode_target_rule" "tolerant decode_fallthrough" "tolerant decode_match_rule"
  unfolding decode_target_rule_def [abs_def] decode_fallthrough_def [abs_def] decode_match_rule_def [abs_def]
  by (intro tolerance; simp add: known_names_def flag_fields_def)+

lemma tolerant_objects [tolerance]: "tolerant (decode_flag x)" "tolerant (decode_segment x)"
  unfolding decode_flag_def [abs_def] decode_segment_def [abs_def]
  by (intro tolerance; simp add: known_names_def flag_fields_def)+

lemma tolerant_data_set [tolerance]: "tolerant (decode_data_set x)"
  unfolding decode_data_set_def [abs_def]
  by (intro tolerance; simp add: known_names_def flag_fields_def)

lemma tolerant_envelope: "tolerant (decode_envelope x)"
  unfolding decode_envelope_def [abs_def]
  by (intro tolerance; simp add: known_names_def flag_fields_def)

text \<open>
  C30. The wire format round-trips: an envelope encoded with the protocol's field names is read
  back as it was, whatever the crates do, even when entries under names the protocol does not
  use are added to any of its objects, to each its own, and entries come in another order;
  versions are in the range of i64 as the type of the field demands.
\<close>

theorem wire_roundtrip:
  assumes "widened (encode_envelope [] e) j"
    and "\<forall>f \<in> set (ds_feature_flags (env_data e)). is_i64 (ff_updated_at f)"
    and "\<forall>g \<in> set (ds_segments (env_data e)). is_i64 (sg_updated_at g)"
  shows "decode_envelope x j = Some e"
  using tolerant_envelope [of x] assms(1) decode_envelope_encode [of "[]" e x] assms(2,3)
  by (auto simp: tolerant_def unknown_def)

text \<open>An envelope with its entries exchanged and a new one between them.\<close>

theorem wire_roundtrip_witness:
  "decode_envelope sample_crates (JObj [(''data'', encode_data_set [] (sample_data 5 True)), (''revision'', JNum (PosInt 7)),
      (''messageType'', JStr ''data-sync'')]) =
    Some \<lparr>env_message_type = ''data-sync'', env_data = sample_data 5 True\<rparr>"
proof (rule wire_roundtrip)
  let ?kvs = "[(''messageType'', JStr ''data-sync''), (''data'', encode_data_set [] (sample_data 5 True))]"
  have "list_all2 (rel_prod (=) widened) ?kvs ?kvs" by (simp add: widened_same)
  then show "widened (encode_envelope [] \<lparr>env_message_type = ''data-sync'', env_data = sample_data 5 True\<rparr>)
      (JObj [(''data'', encode_data_set [] (sample_data 5 True)), (''revision'', JNum (PosInt 7)),
        (''messageType'', JStr ''data-sync'')])"
    unfolding encode_envelope_def encode_object_def append_Nil data_sync_envelope.select_convs
    by (rule widened_object) (simp add: known_names_def flag_fields_def)
qed (simp_all add: is_i64_def i64_min_def i64_max_def)

end
