(* ===== verification/Example_Server.thy ===== *)
theory Example_Server
  imports Client_Properties Wire
begin

text \<open>
  \<^verbatim>\<open>examples/fbclient_axum.rs\<close>: an HTTP service around one client. The requests it accepts
  (query parameters and JSON bodies), the handlers, the route table, the answers they serialize
  to, and the life of the process from its environment variables to the close after the
  graceful shutdown. The axum framework itself (URL decoding, the matching of path patterns,
  the answers to requests that reach no handler, sockets) is a record of functions.
\<close>

section \<open>Requests\<close>

record boolean_evaluation_request =
  br_targeting_key :: str
  br_name :: str
  br_attributes :: "str btree_map"
  br_default_value :: bool

record boolean_evaluation_query =
  bq_targeting_key :: str
  bq_name :: str
  bq_default_value :: bool
  bq_attributes :: "str btree_map"

definition request_from_query :: "boolean_evaluation_query \<Rightarrow> boolean_evaluation_request" where
  "request_from_query q =
    \<lparr>br_targeting_key = bq_targeting_key q, br_name = bq_name q, br_attributes = bq_attributes q,
     br_default_value = bq_default_value q\<rparr>"

definition default_browser_targeting_key :: str where
  "default_browser_targeting_key = ''browser-example-user''"

text \<open>A map read by serde: entries are inserted one by one, so a later one of a key wins.\<close>

definition collect_btree :: "(str \<times> 'v) list \<Rightarrow> 'v btree_map" where
  "collect_btree kvs = fold (\<lambda>(k, v). btree_insert k v) kvs []"

fun decode_string_map :: "json \<Rightarrow> str btree_map option" where
  "decode_string_map (JObj kvs) =
    map_option collect_btree (those (map (\<lambda>(k, j). map_option (Pair k) (decode_str j)) kvs))"
| "decode_string_map _ = None"

text \<open>The derived \<^verbatim>\<open>Deserialize\<close> of the JSON body.\<close>

definition decode_request :: "json \<Rightarrow> boolean_evaluation_request option" where
  "decode_request j = do {
     kvs \<leftarrow> struct_fields [''targetingKey'', ''name'', ''attributes'', ''defaultValue''] j;
     t \<leftarrow> field_required decode_str ''targetingKey'' kvs;
     n \<leftarrow> field_or [] decode_str ''name'' kvs;
     as \<leftarrow> field_or [] decode_string_map ''attributes'' kvs;
     d \<leftarrow> field_or False decode_bool ''defaultValue'' kvs;
     Some \<lparr>br_targeting_key = t, br_name = n, br_attributes = as, br_default_value = d\<rparr>
   }"

text \<open>
  The derived \<^verbatim>\<open>Deserialize\<close> of the decoded query parameters: a repeated field is an error, a
  boolean is exactly \<^verbatim>\<open>true\<close> or \<^verbatim>\<open>false\<close>, what is not a field is flattened into the attributes.
\<close>

definition query_fields :: "str list" where
  "query_fields = [''targetingKey'', ''name'', ''defaultValue'']"

definition bool_from_str :: "str \<Rightarrow> bool option" where
  "bool_from_str s = (if s = ''true'' then Some True else if s = ''false'' then Some False else None)"

definition decode_query :: "(str \<times> str) list \<Rightarrow> boolean_evaluation_query option" where
  "decode_query ps =
    (let known = filter (\<lambda>(k, v). k \<in> set query_fields) ps;
         others = filter (\<lambda>(k, v). k \<notin> set query_fields) ps
     in if \<not> distinct (map fst known) then None
        else do {
          d \<leftarrow> (case map_of known ''defaultValue'' of None \<Rightarrow> Some False | Some v \<Rightarrow> bool_from_str v);
          Some
            \<lparr>bq_targeting_key = (case map_of known ''targetingKey'' of
                                   None \<Rightarrow> default_browser_targeting_key | Some v \<Rightarrow> v),
             bq_name = (case map_of known ''name'' of None \<Rightarrow> [] | Some v \<Rightarrow> v),
             bq_default_value = d, bq_attributes = collect_btree others\<rparr>
        })"

section \<open>Answers\<close>

record http_response =
  hr_status :: nat
  hr_body :: json

record boolean_evaluation_response =
  bs_flag_key :: str
  bs_value :: bool
  bs_variation_id :: "str option"
  bs_reason :: str
  bs_used_fallback :: bool

record health_response =
  hs_status :: str
  hs_initialized :: bool

record api_error =
  ae_status :: nat
  ae_message :: str

definition evaluation_json :: "boolean_evaluation_response \<Rightarrow> json" where
  "evaluation_json r =
    JObj
      [(''flagKey'', JStr (bs_flag_key r)), (''value'', JBool (bs_value r)),
       (''variationId'', (case bs_variation_id r of None \<Rightarrow> JNull | Some i \<Rightarrow> JStr i)),
       (''reason'', JStr (bs_reason r)), (''usedFallback'', JBool (bs_used_fallback r))]"

definition health_json :: "health_response \<Rightarrow> json" where
  "health_json h = JObj [(''status'', JStr (hs_status h)), (''initialized'', JBool (hs_initialized h))]"

definition error_json :: "str \<Rightarrow> json" where
  "error_json e = JObj [(''error'', JStr e)]"

definition invalid_targeting_key :: api_error where
  "invalid_targeting_key = \<lparr>ae_status = 422, ae_message = ''targetingKey must not be empty''\<rparr>"

definition error_into_response :: "api_error \<Rightarrow> http_response" where
  "error_into_response e = \<lparr>hr_status = ae_status e, hr_body = error_json (ae_message e)\<rparr>"

fun result_into_response :: "api_error + boolean_evaluation_response \<Rightarrow> http_response" where
  "result_into_response (Inl e) = error_into_response e"
| "result_into_response (Inr r) = \<lparr>hr_status = 200, hr_body = evaluation_json r\<rparr>"

section \<open>Handlers\<close>

definition request_user :: "boolean_evaluation_request \<Rightarrow> fb_user" where
  "request_user r =
    user_builder_build
      (fold (\<lambda>(attribute, v) b. if attribute \<noteq> ''name'' then user_builder_custom attribute v b else b)
        (br_attributes r) (user_builder_name (br_name r) (user_builder_new (br_targeting_key r))))"

definition evaluate_boolean_request ::
  "'r crates \<Rightarrow> eval_env \<Rightarrow> str \<Rightarrow> boolean_evaluation_request \<Rightarrow> ('u, 'o, 'r) client \<Rightarrow>
    (api_error + boolean_evaluation_response) \<times> ('u, 'o, 'r) client" where
  "evaluate_boolean_request x env flag_key r c =
    (if str_is_blank (br_targeting_key r) then (Inl invalid_targeting_key, c)
     else
       (case bool_variation_detail x env flag_key (request_user r) (br_default_value r) c of
          (detail, c') \<Rightarrow>
            let used_fallback = (de_variation_id detail = []);
                variation_id = (if \<not> used_fallback then Some (de_variation_id detail) else None)
            in (Inr \<lparr>bs_flag_key = flag_key, bs_value = de_value detail, bs_variation_id = variation_id,
                     bs_reason = de_reason detail, bs_used_fallback = used_fallback\<rparr>, c')))"

text \<open>The status and \<^verbatim>\<open>initialized\<close> are two calls, between which other threads may act.\<close>

definition readiness :: "client_status \<Rightarrow> bool \<Rightarrow> http_response" where
  "readiness client_status initialized =
    (let (http_status, status) =
           (case client_status of
              ClientReady \<Rightarrow> (200, ''ready'')
            | ClientStale \<Rightarrow> (200, ''stale'')
            | NotReady \<Rightarrow> (503, ''not-ready'')
            | ClientClosed \<Rightarrow> (503, ''closed''))
     in \<lparr>hr_status = http_status,
         hr_body = health_json \<lparr>hs_status = status, hs_initialized = initialized\<rparr>\<rparr>)"

section \<open>Routes\<close>

datatype handler = HandleReadiness | EvaluateGet | EvaluatePost

text \<open>
  A request as the router sees it; \<^verbatim>\<open>rq_json\<close>: its content type is JSON. What axum answers on
  its own account is \<^verbatim>\<open>ax_refuse\<close>.
\<close>

record http_request =
  rq_method :: str
  rq_path :: str
  rq_query :: str
  rq_json :: bool
  rq_body :: str

datatype refusal = NoRoute | NoMethod | BadPath | BadQuery | NotJson | BodyTooLarge | BadBody

record axum =
  ax_captures :: "str \<Rightarrow> str \<Rightarrow> str list option"  \<comment> \<open>pattern and path to the decoded parameters\<close>
  ax_query :: "str \<Rightarrow> (str \<times> str) list"          \<comment> \<open>\<^verbatim>\<open>serde_urlencoded\<close>\<close>
  ax_refuse :: "refusal \<Rightarrow> http_response"

definition routes :: "(str \<times> (str \<times> handler) list) list" where
  "routes =
    [(''/health/ready'', [(''GET'', HandleReadiness)]),
     (''/api/flags/{flag_key}/evaluate'', [(''GET'', EvaluateGet), (''POST'', EvaluatePost)])]"

definition body_limit :: nat where
  "body_limit = 64 * 1024"

definition evaluate_boolean_get ::
  "axum \<Rightarrow> 'r crates \<Rightarrow> eval_env \<Rightarrow> str list \<Rightarrow> str \<Rightarrow> ('u, 'o, 'r) client \<Rightarrow>
    http_response \<times> ('u, 'o, 'r) client" where
  "evaluate_boolean_get ax x env params query c =
    (case params of
       [flag_key] \<Rightarrow>
         (case decode_query (ax_query ax query) of
            None \<Rightarrow> (ax_refuse ax BadQuery, c)
          | Some q \<Rightarrow>
              (case evaluate_boolean_request x env flag_key (request_from_query q) c of
                 (r, c') \<Rightarrow> (result_into_response r, c')))
     | _ \<Rightarrow> (ax_refuse ax BadPath, c))"

definition evaluate_boolean_post ::
  "axum \<Rightarrow> 'r crates \<Rightarrow> eval_env \<Rightarrow> str list \<Rightarrow> bool \<Rightarrow> str \<Rightarrow> ('u, 'o, 'r) client \<Rightarrow>
    http_response \<times> ('u, 'o, 'r) client" where
  "evaluate_boolean_post ax x env params is_json body c =
    (case params of
       [flag_key] \<Rightarrow>
         (if \<not> is_json then (ax_refuse ax NotJson, c)
          else if length body > body_limit then (ax_refuse ax BodyTooLarge, c)
          else
            (case Option.bind (json_parse x body) decode_request of
               None \<Rightarrow> (ax_refuse ax BadBody, c)
             | Some r \<Rightarrow>
                 (case evaluate_boolean_request x env flag_key r c of
                    (r', c') \<Rightarrow> (result_into_response r', c'))))
     | _ \<Rightarrow> (ax_refuse ax BadPath, c))"

text \<open>\<^verbatim>\<open>c2\<close> is the client at the second call of the readiness handler.\<close>

definition serve_request ::
  "axum \<Rightarrow> 'r crates \<Rightarrow> eval_env \<Rightarrow> http_request \<Rightarrow> ('u, 'o, 'r) client \<Rightarrow> ('u, 'o, 'r) client \<Rightarrow>
    http_response \<times> ('u, 'o, 'r) client" where
  "serve_request ax x env rq c2 c =
    (case find (\<lambda>(pattern, ms). ax_captures ax pattern (rq_path rq) \<noteq> None) routes of
       None \<Rightarrow> (ax_refuse ax NoRoute, c)
     | Some (pattern, ms) \<Rightarrow>
         let params = the (ax_captures ax pattern (rq_path rq))
         in (case map_of ms (rq_method rq) of
               None \<Rightarrow> (ax_refuse ax NoMethod, c)
             | Some HandleReadiness \<Rightarrow> (readiness (client_current_status c) (client_initialized c2), c2)
             | Some EvaluateGet \<Rightarrow> evaluate_boolean_get ax x env params (rq_query rq) c
             | Some EvaluatePost \<Rightarrow> evaluate_boolean_post ax x env params (rq_json rq) (rq_body rq) c))"

section \<open>The process\<close>

datatype server_error =
    LoggingError | MissingVariable str | ConfigurationError config_error | BindError | AddressError | ServeError

text \<open>\<^verbatim>\<open>var\<close> is \<^verbatim>\<open>std::env::var(..).ok()\<close>.\<close>

definition variable :: "(str \<Rightarrow> str option) \<Rightarrow> str \<Rightarrow> server_error + str" where
  "variable var name = (case var name of None \<Rightarrow> Inl (MissingVariable name) | Some v \<Rightarrow> Inr v)"

definition server_options ::
  "'r crates \<Rightarrow> 'u url_crate \<Rightarrow> (str \<Rightarrow> str option) \<Rightarrow> server_error + ('u, 'o) fb_options" where
  "server_options x uc var =
    (case variable var ''FEATBIT_ENV_SECRET'' of
       Inl e \<Rightarrow> Inl e
     | Inr secret \<Rightarrow>
         (case variable var ''FEATBIT_STREAMING_URL'' of
            Inl e \<Rightarrow> Inl e
          | Inr s_url \<Rightarrow>
              (case variable var ''FEATBIT_EVENT_URL'' of
                 Inl e \<Rightarrow> Inl e
               | Inr e_url \<Rightarrow>
                   (case build x uc (builder_call (SetEventUrl e_url)
                           (builder_call (SetStreamingUrl s_url) (options_builder_new secret))) of
                      Inl e \<Rightarrow> Inl (ConfigurationError e)
                    | Inr opts \<Rightarrow> Inr opts))))"

definition bind_address :: "(str \<Rightarrow> str option) \<Rightarrow> str" where
  "bind_address var = (case var ''AXUM_BIND_ADDRESS'' of None \<Rightarrow> ''127.0.0.1:3000'' | Some a \<Rightarrow> a)"

text \<open>
  What happens to the process: logging starts, the address binds and has a local address, and
  \<^verbatim>\<open>serve\<close>, which handles requests beside the client's own threads and ends with success or an
  error. Each way out of \<^verbatim>\<open>main\<close> drops the last handle of the client, and dropping it closes
  it (again, after the explicit close); a triple holds the waits of one close.
\<close>

record ('u, 'o, 'r) server_run =
  sr_logging :: bool
  sr_event_error :: "str option"
  sr_sync_error :: "str option"
  sr_bind :: "str \<Rightarrow> bool"
  sr_local_addr :: bool
  sr_serve :: "('u, 'o, 'r) client \<Rightarrow> bool \<times> ('u, 'o, 'r) client"
  sr_close :: "(bool \<times> bool) \<times> (bool \<times> bool) \<times> (bool \<times> bool)"
  sr_drop :: "(bool \<times> bool) \<times> (bool \<times> bool) \<times> (bool \<times> bool)"

definition close_with ::
  "(bool \<times> bool) \<times> (bool \<times> bool) \<times> (bool \<times> bool) \<Rightarrow> ('u, 'o, 'r) client \<Rightarrow> ('u, 'o, 'r) client" where
  "close_with w c = (case w of (sync, e1, e2) \<Rightarrow> client_close sync e1 e2 c)"

definition server_main ::
  "'r crates \<Rightarrow> 'u url_crate \<Rightarrow> (str \<Rightarrow> str option) \<Rightarrow> ('u, 'o, 'r) server_run \<Rightarrow>
    server_error option \<times> ('u, 'o, 'r) client option" where
  "server_main x uc var run =
    (if \<not> sr_logging run then (Some LoggingError, None)
     else
       (case server_options x uc var of
          Inl e \<Rightarrow> (Some e, None)
        | Inr opts \<Rightarrow>
            let flags = with_options x (sr_event_error run) (sr_sync_error run) opts
            in (if \<not> sr_bind run (bind_address var)
                then (Some BindError, Some (close_with (sr_drop run) flags))
                else if \<not> sr_local_addr run
                then (Some AddressError, Some (close_with (sr_drop run) flags))
                else
                  (case sr_serve run flags of
                     (True, flags') \<Rightarrow> (None, Some (close_with (sr_drop run) (close_with (sr_close run) flags')))
                   | (False, flags') \<Rightarrow> (Some ServeError, Some (close_with (sr_drop run) flags'))))))"

text \<open>
  \<^verbatim>\<open>shutdown_signal\<close>: after how many of the operating system's signals it completes. A handler
  that cannot be installed completes at once.
\<close>

datatype os_signal = Interrupt | Terminate | OtherSignal

definition shutdown_signal :: "bool \<Rightarrow> bool \<Rightarrow> os_signal list \<Rightarrow> nat option" where
  "shutdown_signal ctrl_c_installed terminate_installed signals =
    (if \<not> ctrl_c_installed \<or> \<not> terminate_installed then Some 0
     else if Interrupt \<in> set signals \<or> Terminate \<in> set signals
     then Some (Suc (length (takeWhile (\<lambda>s. s = OtherSignal) signals)))
     else None)"

end
