(* ===== verification/Example_Console.thy ===== *)
theory Example_Console
  imports Client_Properties
begin

text \<open>
  \<^verbatim>\<open>examples/fbclient_console.rs\<close>: one evaluation from the command line. What other threads do
  while the client waits for data is \<^verbatim>\<open>threads\<close>; the waits of the close and of the drop at the
  end are arguments.
\<close>

datatype console_output = Usage | ConsoleConfigError config_error | Printed str

definition usage_text :: str where
  "usage_text =
    ''set FEATBIT_ENV_SECRET, FEATBIT_STREAMING_URL, and FEATBIT_EVENT_URL to run this example''"

definition console_user :: fb_user where
  "console_user =
    user_builder_build (user_builder_custom ''country'' ''CN''
      (user_builder_name ''Example User'' (user_builder_new ''example-user'')))"

definition show_bool :: "bool \<Rightarrow> str" where
  "show_bool b = (if b then ''true'' else ''false'')"

definition console_line :: "bool evaluation_detail \<Rightarrow> str" where
  "console_line detail =
    (let variation_id = (if de_variation_id detail = [] then ''<fallback>'' else de_variation_id detail)
     in de_key detail @ '': '' @ show_bool (de_value detail) @ '' (variation: '' @ variation_id @
          '', reason: '' @ de_reason detail @ '')'')"

text \<open>Output and, when a client was made, the client left at the end.\<close>

definition console_main ::
  "'r crates \<Rightarrow> 'u url_crate \<Rightarrow> (str \<Rightarrow> str option) \<Rightarrow> str option \<Rightarrow> str option \<Rightarrow>
    (('u, 'o, 'r) client \<Rightarrow> ('u, 'o, 'r) client) \<Rightarrow> eval_env \<Rightarrow>
    (('u, 'o, 'r) client \<Rightarrow> ('u, 'o, 'r) client) \<Rightarrow> (('u, 'o, 'r) client \<Rightarrow> ('u, 'o, 'r) client) \<Rightarrow>
    console_output \<times> ('u, 'o, 'r) client option" where
  "console_main x uc var event_error sync_error threads env close drop_last =
    (case (var ''FEATBIT_ENV_SECRET'', var ''FEATBIT_STREAMING_URL'', var ''FEATBIT_EVENT_URL'') of
       (Some secret, Some s_url, Some e_url) \<Rightarrow>
         (case build x uc (builder_call (SetEventUrl e_url)
                 (builder_call (SetStreamingUrl s_url) (options_builder_new secret))) of
            Inl e \<Rightarrow> (ConsoleConfigError e, None)
          | Inr opts \<Rightarrow>
              let client = threads (with_options x event_error sync_error opts);
                  (detail, client') = bool_variation_detail x env ''example-flag'' console_user False client
              in (Printed (console_line detail), Some (drop_last (close client'))))
     | _ \<Rightarrow> (Usage, None))"

text \<open>The builder of the example's user leaves exactly what it was given.\<close>

lemma console_user_values [simp]:
  "u_key console_user = ''example-user''" "user_value_of console_user ''name'' = ''Example User''"
  "user_value_of console_user ''country'' = ''CN''"
  by (simp_all add: console_user_def user_builder_build_def user_builder_custom_def user_builder_name_def
      user_builder_new_def user_value_of_def)

end
