(* ===== verification/Client_Interleaving.thy ===== *)
theory Client_Interleaving
  imports Client_Properties
begin

text \<open>
  One evaluation among other threads. The call loads the closed flag, whether data has arrived,
  the status and the snapshot one after another, and acts on the client (recorder, observer) at
  the end; between any two of these the other threads may take any steps. A call without
  interference is the special case in which all the states are one.
\<close>

definition evaluation_available_at ::
  "('u, 'o, 'r) client \<Rightarrow> ('u, 'o, 'r) client \<Rightarrow> ('u, 'o, 'r) client \<Rightarrow> bool" where
  "evaluation_available_at c1 c2 c3 =
    (\<not> cl_closed c1 \<and> client_initialized c2 \<and> tracker_status (cl_status c3) \<in> {Ready, Stale})"

definition attempt_at ::
  "'r crates \<Rightarrow> str \<Rightarrow> fb_user \<Rightarrow> (str \<Rightarrow> observation_error + 'a) \<Rightarrow> ('u, 'o, 'r) client \<Rightarrow>
    ('u, 'o, 'r) client \<Rightarrow> ('u, 'o, 'r) client \<Rightarrow> ('u, 'o, 'r) client \<Rightarrow> 'a outcome" where
  "attempt_at x key u converter c1 c2 c3 c4 =
    (if \<not> evaluation_available_at c1 c2 c3 then Inl (Inl ClientNotReady)
     else
       (case evaluate x (cl_snapshot c4) key u of
          Inl e \<Rightarrow> Inl (Inl (evaluation_error_from e))
        | Inr result \<Rightarrow>
            (case converter (var_value (er_variation result)) of
               Inl e \<Rightarrow> Inl (Inr e) | Inr v \<Rightarrow> Inr (result, v))))"

definition typed_detail_at ::
  "'r crates \<Rightarrow> eval_env \<Rightarrow> str \<Rightarrow> fb_user \<Rightarrow> 'a \<Rightarrow> (str \<Rightarrow> observation_error + 'a) \<Rightarrow>
    ('u, 'o, 'r) client \<Rightarrow> ('u, 'o, 'r) client \<Rightarrow> ('u, 'o, 'r) client \<Rightarrow> ('u, 'o, 'r) client \<Rightarrow>
    ('u, 'o, 'r) client \<Rightarrow> 'a evaluation_detail \<times> ('u, 'o, 'r) client" where
  "typed_detail_at x env key u dflt converter c1 c2 c3 c4 c5 =
    (let r = attempt_at x key u converter c1 c2 c3 c4
     in (outcome_detail (ee_now env) key dflt r, after_attempt env key u r c5))"

lemma undisturbed_call:
  "typed_detail_at x env key u dflt conv c c c c c = evaluate_typed_detail x env key u dflt conv c"
  by (simp add: typed_detail_at_def typed_detail_contract attempt_at_def attempt_def evaluation_available_at_def Let_def
      evaluation_available_def)

text \<open>
  C8. A call among other threads is still right: if it decides, then on one snapshot that was
  published during the call, by the reference decision, and an online client has then received
  data; a client that was closed before the call, or had no data and has none when it looks,
  gets the default; and whatever the call leaves behind is a state the client can reach.
\<close>

theorem interleaved_call_is_right:
  assumes "reachable x opts c1" and "client_steps x c1 c2" and "client_steps x c2 c3"
    and "client_steps x c3 c4" and "client_steps x c4 c5"
  shows "(case attempt_at x key u conv c1 c2 c3 c4 of
      Inl (Inl ClientNotReady) \<Rightarrow> cl_closed c1 \<or> \<not> client_initialized c2 \<or> client_current_status c3 \<in> {NotReady, ClientClosed}
    | Inl (Inl e) \<Rightarrow> (\<exists>e'. e = evaluation_error_from e' \<and>
        spec_evaluate x (map_of (sn_flags (cl_snapshot c4))) (map_of (sn_segments (cl_snapshot c4))) key u = Inl e')
    | Inl (Inr e) \<Rightarrow> (\<exists>result. conv (var_value (er_variation result)) = Inl e \<and>
        spec_evaluate x (map_of (sn_flags (cl_snapshot c4))) (map_of (sn_segments (cl_snapshot c4))) key u = Inr result)
    | Inr (result, v) \<Rightarrow> \<not> cl_closed c1 \<and> (opt_offline opts \<or> sn_populated (cl_snapshot c4)) \<and>
        conv (var_value (er_variation result)) = Inr v \<and>
        spec_evaluate x (map_of (sn_flags (cl_snapshot c4))) (map_of (sn_segments (cl_snapshot c4))) key u = Inr result) \<and>
    reachable x opts (snd (typed_detail_at x env key u dflt conv c1 c2 c3 c4 c5))"
proof -
  note c2 = reachable_steps [OF assms(1,2)]
  note c4 = reachable_steps [OF reachable_steps [OF c2 assms(3)] assms(4)]
  note c5 = reachable_steps [OF c4 assms(5)]
  have last: "reachable x opts (snd (typed_detail_at x env key u dflt conv c1 c2 c3 c4 c5))"
    using reachable_steps [OF c5 after_attempt_steps] by (simp add: typed_detail_at_def Let_def)
  show ?thesis
  proof (cases "evaluation_available_at c1 c2 c3")
    case False
    then have "cl_closed c1 \<or> \<not> client_initialized c2 \<or> client_current_status c3 \<in> {NotReady, ClientClosed}"
      by (cases "tracker_status (cl_status c3)") (auto simp: evaluation_available_at_def client_current_status_def)
    with last False show ?thesis by (simp add: attempt_at_def)
  next
    case True
    have "client_initialized c4"
      using reachable_initialized [OF c2 rtranclp_trans [OF assms(3,4)]] True
      by (simp add: evaluation_available_at_def)
    then have data: "opt_offline opts \<or> sn_populated (cl_snapshot c4)"
      using initialized_populated [OF c4] by blast
    have spec: "evaluate x (cl_snapshot c4) key u = spec_evaluate x (map_of (sn_flags (cl_snapshot c4)))
        (map_of (sn_segments (cl_snapshot c4))) key u"
      by (rule evaluate_spec [OF client_ok_snapshot [OF reachable_ok [OF c4]]])
    have no_ready: "evaluation_error_from e \<noteq> ClientNotReady" for e by (cases e) simp_all
    from True last data spec show ?thesis
      by (auto simp: attempt_at_def evaluation_available_at_def split: sum.splits evaluation_error.splits
          dest: no_ready [THEN notE])
  qed
qed

theorem interleaved_call_is_right_witness:
  "reachable sample_crates (sample_client_options True)
    (snd (typed_detail_at sample_crates sample_env ''f'' sample_user False parse_bool sample_offline_client
      sample_offline_client sample_offline_client sample_offline_client (close_flag sample_offline_client)))"
  by (rule interleaved_call_is_right [OF sample_reachable rtranclp.rtrancl_refl rtranclp.rtrancl_refl
        rtranclp.rtrancl_refl r_into_rtranclp [where r = "client_step sample_crates", OF step_close_flag], THEN conjunct2])

end
