(* ===== verification/End_To_End.thy ===== *)
theory End_To_End
  imports Client_Interleaving Wire
begin

text \<open>
  From the server's data to the application's value: what a client serves once a full data set
  in the protocol's encoding has arrived, across deserialization, the store, the index, the
  status and the evaluation.
\<close>

text \<open>The object of a key in a data set: the last one, as later entries overwrite earlier ones.\<close>

definition sent_flag :: "data_set \<Rightarrow> str \<Rightarrow> feature_flag option" where
  "sent_flag d k = find (\<lambda>f. ff_key f = k \<and> k \<noteq> []) (rev (ds_feature_flags d))"

definition sent_segment :: "data_set \<Rightarrow> str \<Rightarrow> segment option" where
  "sent_segment d k = find (\<lambda>g. sg_id g = k \<and> k \<noteq> []) (rev (ds_segments d))"

lemma populate_maps:
  "map_of (sn_flags (populate x d)) = sent_flag d" "map_of (sn_segments (populate x d)) = sent_segment d"
  by (simp_all add: fun_eq_iff populate_flags populate_segments sent_flag_def sent_segment_def)

text \<open>A value that an application gets for a decision on flags and segments.\<close>

definition decided_value ::
  "'r crates \<Rightarrow> (str \<Rightarrow> feature_flag option) \<Rightarrow> (str \<Rightarrow> segment option) \<Rightarrow> str \<Rightarrow> fb_user \<Rightarrow> 'a \<Rightarrow>
    (str \<Rightarrow> observation_error + 'a) \<Rightarrow> 'a" where
  "decided_value x flags segments key u dflt conv =
    (case spec_evaluate x flags segments key u of
       Inl e \<Rightarrow> dflt
     | Inr result \<Rightarrow> (case conv (var_value (er_variation result)) of Inl e \<Rightarrow> dflt | Inr v \<Rightarrow> v))"

lemma served_value:
  assumes "reachable x opts c" and "evaluation_available c"
  shows "fst (evaluate_typed_value x env key u dflt conv c) =
    decided_value x (map_of (sn_flags (cl_snapshot c))) (map_of (sn_segments (cl_snapshot c))) key u dflt conv"
  using assms(2) attempt_spec [OF assms, of key u conv]
  by (simp add: typed_value_contract decided_value_def split: sum.splits)

lemma received_full:
  assumes "reachable x opts c" and "cl_synchronizer c \<noteq> None" and "\<not> cl_closed c"
    and "parse_envelope x payload = Some e" and "env_message_type e = ''data-sync''" and "ds_event_type (env_data e) = ''full''"
  defines "c' \<equiv> c\<lparr>cl_snapshot := populate x (env_data e), cl_status := tracker_set Ready (cl_status c)\<rparr>"
  shows "client_step x c c'" "reachable x opts c'" "client_current_status c' = ClientReady" "evaluation_available c'"
proof -
  have "apply_message x payload (cl_snapshot c) (cl_status c) =
      (AppliedFull, populate x (env_data e), tracker_set Ready (cl_status c))"
    using assms(4-6) by (simp add: apply_message_def)
  then show step: "client_step x c c'"
    unfolding c'_def by (intro step_effect [OF assms(2)]) (rule effect_message)
  then show "reachable x opts c'" by (blast intro: reachable_steps [OF assms(1)])
  show "client_current_status c' = ClientReady" "evaluation_available c'"
    using assms(3) by (simp_all add: c'_def client_current_status_def evaluation_available_def client_initialized_def)
qed

text \<open>
  C4. What the server sends is what the application gets: when a message arrives whose JSON is
  a full data set in the protocol's encoding, with whatever fields a newer server adds, an open
  online client is ready, and every typed method returns the conversion of the variation that
  the reference decision selects on the flags and segments sent, or the default.
\<close>

theorem sent_data_is_served:
  assumes "reachable x opts c" and "cl_synchronizer c \<noteq> None" and "\<not> cl_closed c"
    and "json_parse x payload = Some (encode_envelope ex \<lparr>env_message_type = ''data-sync'', env_data = d\<rparr>)"
    and "unknown ex" and "ds_event_type d = ''full''"
    and "\<forall>f \<in> set (ds_feature_flags d). is_i64 (ff_updated_at f)" and "\<forall>g \<in> set (ds_segments d). is_i64 (sg_updated_at g)"
  shows "\<exists>c'. client_step x c c' \<and> reachable x opts c' \<and> client_current_status c' = ClientReady \<and>
    fst (evaluate_typed_value x env key u dflt conv c') = decided_value x (sent_flag d) (sent_segment d) key u dflt conv"
proof -
  have "parse_envelope x payload = Some \<lparr>env_message_type = ''data-sync'', env_data = d\<rparr>"
    using assms(4-8) by (simp add: parse_envelope_def decode_envelope_encode)
  note received = received_full [OF assms(1-3) this, simplified, OF assms(6)]
  with served_value [OF received(2,4), of env key u dflt conv] show ?thesis
    by (intro exI conjI) (assumption | simp add: populate_maps)+
qed

definition sample_full :: data_set where
  "sample_full = \<lparr>ds_event_type = ''full'', ds_feature_flags = [sample_flag 1 True], ds_segments = []\<rparr>"

definition sending_crates :: "unit crates" where
  "sending_crates = sample_crates\<lparr>json_parse := \<lambda>s. Some (encode_envelope []
    \<lparr>env_message_type = ''data-sync'', env_data = sample_full\<rparr>)\<rparr>"

theorem sent_data_is_served_witness:
  "\<exists>c' :: (str, unit, unit) client. reachable sending_crates (sample_client_options False) c' \<and>
    client_current_status c' = ClientReady \<and>
    fst (evaluate_typed_value sending_crates sample_env ''f'' sample_user False parse_bool c') = True"
proof -
  let ?c = "with_options sending_crates None None (sample_client_options False) :: (str, unit, unit) client"
  have c: "cl_synchronizer ?c \<noteq> None" "\<not> cl_closed ?c"
    by (simp_all add: with_options_def sample_client_options_def synchronizer_start_def worker_spawn_def Let_def)
  have "rollout_of_key sending_crates ''fu1'' = Fin False (1 / 2)"
    using sample_position [of "''fu1''"] by (simp add: rollout_of_key_def sending_crates_def)
  then have "decided_value sending_crates (sent_flag sample_full) (sent_segment sample_full) ''f'' sample_user False parse_bool = True"
    by (simp add: decided_value_def sent_flag_def sample_full_def spec_evaluate_def decide_def pick_def dispatch_key_def
        sample_rollout_def in_rollout_between flag_variation_def evaluator_result_def parse_bool_def)
  moreover have "json_parse sending_crates [] = Some (encode_envelope [] \<lparr>env_message_type = ''data-sync'', env_data = sample_full\<rparr>)"
    by (simp add: sending_crates_def)
  ultimately show ?thesis
    using sent_data_is_served [OF sample_reachable c, of "[]" "[]" sample_full sample_env "''f''" sample_user False parse_bool]
    by (force simp: unknown_def sample_full_def is_i64_def i64_min_def i64_max_def)
qed

end
