(* ===== verification/Sessions.thy ===== *)
theory Sessions
  imports End_To_End
begin

text \<open>
  What the store holds after any number of sessions: the newest of what the synchronizer has
  received since the last full data set. Nothing is assumed of the server or the network; each
  session may be cut anywhere.
\<close>

section \<open>The messages of a session\<close>

fun event_data :: "conn_event \<Rightarrow> str option" where
  "event_data (Incoming (Received (TextMsg p)) stop w) = Some p"
| "event_data (Incoming (Received (BinaryMsg p)) stop w) = Some p"
| "event_data ev = None"

definition session_data :: "conn_event list \<Rightarrow> str list" where
  "session_data evs = List.map_filter event_data evs"

lemma session_data_simps [simp]:
  "session_data [] = []"
  "session_data (ev # evs) = (case event_data ev of None \<Rightarrow> session_data evs | Some p \<Rightarrow> p # session_data evs)"
  by (simp_all add: session_data_def map_filter_simps split: option.split)

text \<open>The data sets among the messages, and what one makes of the store.\<close>

definition data_of :: "'r crates \<Rightarrow> str \<Rightarrow> data_set option" where
  "data_of x p =
    (case parse_envelope x p of
       None \<Rightarrow> None
     | Some e \<Rightarrow>
         if env_message_type e = ''data-sync'' \<and> ds_event_type (env_data e) \<in> {''full'', ''patch''}
         then Some (env_data e) else None)"

definition store_data :: "'r crates \<Rightarrow> data_set \<Rightarrow> 'r data_snapshot \<Rightarrow> 'r data_snapshot" where
  "store_data x d s = (if ds_event_type d = ''full'' then populate x d else snd (patch x d s))"

definition stored :: "'r crates \<Rightarrow> str list \<Rightarrow> 'r data_snapshot \<Rightarrow> 'r data_snapshot" where
  "stored x ps = fold (store_data x) (List.map_filter (data_of x) ps)"

lemma map_filter_append: "List.map_filter f (xs @ ys) = List.map_filter f xs @ List.map_filter f ys"
  by (simp add: List.map_filter_def)

lemma stored_simps [simp]: "stored x [] s = s" "stored x (ps @ qs) s = stored x qs (stored x ps s)"
  by (simp_all add: stored_def map_filter_append map_filter_simps)

lemma stored_Cons: "stored x (p # ps) s = stored x ps (stored x [p] s)"
  using stored_simps(2) [of x "[p]" ps s] by simp

lemma apply_message_stored: "apply_message x p s t = (r, s', t') \<Longrightarrow> s' = stored x [p] s"
  by (auto simp: apply_message_def stored_def data_of_def store_data_def map_filter_simps Let_def
      split: option.splits if_splits prod.splits patch_result.splits)

section \<open>What a session stores\<close>

lemma handle_apply_result_store:
  "cs_store (snd (handle_apply_result r stop w c)) = cs_store c"
  "cs_applied (snd (handle_apply_result r stop w c)) = cs_applied c"
  by (cases rule: send_on_cases [of "data_sync_request 0" stop w c];
      auto simp: handle_apply_result_def send_data_sync_def send_on_def Let_def
        split: apply_result.splits socket_send.splits)+

lemma receive_data_stored:
  assumes "receive_data x opts p stop w c = (r, c')"
  shows "(r \<noteq> None \<and> cs_store c' = cs_store c \<and> cs_applied c' = cs_applied c) \<or>
    (cs_store c' = stored x [p] (cs_store c) \<and> length (cs_applied c') = Suc (length (cs_applied c)))"
proof -
  obtain q s t where msg: "apply_message x p (cs_store c) (cs_tracker c) = (q, s, t)" by (metis prod_cases3)
  define d where "d = c\<lparr>cs_store := s, cs_tracker := t, cs_applied := cs_applied c @ [q]\<rparr>"
  have "s = stored x [p] (cs_store c)" by (rule apply_message_stored [OF msg])
  with assms handle_apply_result_store [of q stop w d] show ?thesis
    by (auto simp: receive_data_def apply_payload_def msg d_def split: if_splits)
qed

lemma connection_step_stored:
  assumes "connection_step x opts ev c = (r, c')"
  obtains (silent) "event_data ev = None \<or> r \<noteq> None" "cs_store c' = cs_store c" "cs_applied c' = cs_applied c"
  | (data) p where "event_data ev = Some p" "cs_store c' = stored x [p] (cs_store c)"
      "length (cs_applied c') = Suc (length (cs_applied c))"
proof (cases "event_data ev")
  case None
  have sent: "cs_store c' = cs_store c \<and> cs_applied c' = cs_applied c"
    if "after_send c (send_on m stop w c) = (r, c')" for m stop w
    using that by (cases rule: send_on_cases [of m stop w c]) (auto simp: after_send_def)
  have "cs_store c' = cs_store c \<and> cs_applied c' = cs_applied c"
    using assms None sent
    by (cases ev rule: event_data.cases) (auto simp: connection_step_def Let_def split: if_splits)
  with None silent show ?thesis by blast
next
  case (Some p)
  then obtain stop w where "receive_data x opts p stop w c = (r, c')"
    using assms by (cases ev rule: event_data.cases) (auto simp: connection_step_def)
  from receive_data_stored [OF this] Some silent data show ?thesis by blast
qed

text \<open>
  A session stores a prefix of its messages, each applied once; all of them while it lives on.
\<close>

lemma run_connection_stored:
  assumes "run_connection x opts evs c = (r, c')"
  shows "\<exists>ps. prefix ps (session_data evs) \<and> cs_store c' = stored x ps (cs_store c) \<and>
    length (cs_applied c') = length (cs_applied c) + length ps \<and> (r = None \<longrightarrow> ps = session_data evs)"
  using assms
proof (induction evs arbitrary: c)
  case (Cons ev evs)
  obtain r1 c1 where step: "connection_step x opts ev c = (r1, c1)" by fastforce
  then show ?case
  proof (cases rule: connection_step_stored)
    case silent
    show ?thesis
    proof (cases r1)
      case None
      with Cons.prems step Cons.IH [of c1] silent show ?thesis by auto
    next
      case (Some e)
      with Cons.prems step silent show ?thesis by (intro exI [of _ "[]"]) auto
    qed
  next
    case (data p)
    show ?thesis
    proof (cases r1)
      case None
      with Cons.prems step have "run_connection x opts evs c1 = (r, c')" by simp
      from Cons.IH [OF this] obtain ps where "prefix ps (session_data evs)" "cs_store c' = stored x ps (cs_store c1)"
        "length (cs_applied c') = length (cs_applied c1) + length ps" "r = None \<longrightarrow> ps = session_data evs" by blast
      with data stored_Cons [of x p ps] show ?thesis by (intro exI [of _ "p # ps"]) simp
    next
      case (Some e)
      with Cons.prems step data show ?thesis by (intro exI [of _ "[p]"]) auto
    qed
  qed
qed simp

lemma break_loop_stored:
  "break_loop l = (nx, l') \<Longrightarrow> nx \<noteq> Suspended \<and> ls_store l' = ls_store l \<and> ls_applied l' = ls_applied l"
  by (auto simp: break_loop_def)

lemma pause_stored:
  "pause opts e l = (nx, l') \<Longrightarrow> nx \<noteq> Suspended \<and> ls_store l' = ls_store l \<and> ls_applied l' = ls_applied l"
  by (auto simp: pause_def break_loop_def Let_def split: if_splits)

lemma connected_stored:
  assumes "run_connection x opts (le_events e) c = (r, c')" and "connected x opts e c l = (nx, l')"
  shows "ls_store l' = cs_store c' \<and> ls_applied l' = ls_applied l @ cs_applied c' \<and> (nx = Suspended \<longrightarrow> r = None)"
proof (cases r)
  case None
  with assms show ?thesis by (auto simp: connected_def Let_def)
next
  case (Some q)
  define k where "k = l\<lparr>ls_store := cs_store c', ls_tracker := cs_tracker c', ls_sent := ls_sent l @ cs_sent c',
    ls_applied := ls_applied l @ cs_applied c'\<rparr>"
  define m where "m = (if tracker_status (ls_tracker k) = Ready \<and> opt_keep_alive_interval opts \<le> le_elapsed e
    then k\<lparr>ls_retry := 0\<rparr> else k)"
  have m: "ls_store m = cs_store c'" "ls_applied m = ls_applied l @ cs_applied c'" by (simp_all add: m_def k_def)
  have "connected x opts e c l = (case q of
      Stopped \<Rightarrow> break_loop m
    | Terminal code \<Rightarrow> (Finished, m\<lparr>ls_tracker := tracker_set Closed (ls_tracker m)\<rparr>)
    | Reconnect \<Rightarrow> pause opts e (m\<lparr>ls_force_full := False\<rparr>)
    | Resync \<Rightarrow> pause opts e (m\<lparr>ls_force_full := True\<rparr>))"
    unfolding connected_def Let_def assms(1) m_def k_def Some prod.case option.case by (rule refl)
  with assms(2) m show ?thesis
    using break_loop_stored [of m nx l'] pause_stored [of opts e "m\<lparr>ls_force_full := False\<rparr>" nx l']
      pause_stored [of opts e "m\<lparr>ls_force_full := True\<rparr>" nx l']
    by (cases q) auto
qed

lemma loop_step_stored:
  assumes "loop_step x uc opts e l = (nx, l')"
  shows "\<exists>ps. prefix ps (session_data (le_events e)) \<and> ls_store l' = stored x ps (ls_store l) \<and>
    length (ls_applied l') = length (ls_applied l) + length ps \<and> (nx = Suspended \<longrightarrow> ps = session_data (le_events e))"
proof -
  define l1 where "l1 = l\<lparr>ls_tracker := set_stale_if_initialized (ls_tracker l)\<rparr>"
  define c where "c = \<lparr>cs_store = ls_store l1, cs_tracker = ls_tracker l1, cs_awaiting = ls_force_full l1,
    cs_sent = [], cs_applied = []\<rparr>"
  have idle: ?thesis if "nx \<noteq> Suspended \<and> ls_store l' = ls_store l \<and> ls_applied l' = ls_applied l"
    using that by (intro exI [of _ "[]"]) simp
  have conn: ?thesis if "connected x opts e c' l1 = (nx, l')" "cs_store c' = cs_store c" "cs_applied c' = []" for c'
  proof -
    obtain r d where run: "run_connection x opts (le_events e) c' = (r, d)" by fastforce
    from run_connection_stored [OF run] connected_stored [OF run that(1)] that(2,3) show ?thesis
      by (auto simp: c_def l1_def)
  qed
  have "(\<exists>c'. connected x opts e c' l1 = (nx, l') \<and> cs_store c' = cs_store c \<and> cs_applied c' = []) \<or>
      nx \<noteq> Suspended \<and> ls_store l' = ls_store l \<and> ls_applied l' = ls_applied l"
    using assms break_loop_stored [of l nx l'] break_loop_stored [of l1 nx l'] pause_stored [of opts e l1 nx l']
    unfolding loop_step_def send_data_sync_def send_on_def Let_def l1_def [symmetric] c_def [symmetric]
    by (auto simp: c_def l1_def split: if_splits sum.splits socket_send.splits)
  with conn idle show ?thesis by blast
qed


section \<open>The newest since the last full data set\<close>





definition newest_in :: "('a \<Rightarrow> int) \<Rightarrow> 'a set \<Rightarrow> 'a option \<Rightarrow> bool" where
  "newest_in ver A old =
    (case old of None \<Rightarrow> A = {} | Some a \<Rightarrow> a \<in> A \<and> (\<forall>b \<in> A. ver b \<le> ver a))"

lemma newest_in_empty [simp]: "newest_in ver {} None"
  and newest_in_option [simp]: "newest_in ver (set_option a) a"
  by (simp_all add: newest_in_def split: option.splits)




section \<open>The status a session shows\<close>

text \<open>
  The status after messages with given results: \<open>un\<close> says whether a conflict is unresolved and
  \<open>init\<close> whether data has ever been ready.
\<close>

definition shown :: "bool \<Rightarrow> bool \<Rightarrow> apply_result list \<Rightarrow> sync_status" where
  "shown un init rs =
    (if un then Stale else if list_ex (\<lambda>r. r \<noteq> Ignored) rs then Ready else if init then Stale else Starting)"

definition status_ok :: "bool \<Rightarrow> 'r conn_state \<Rightarrow> bool" where
  "status_ok a c =
    (tracker_status (cs_tracker c) =
       shown (unresolved a (cs_applied c)) (tracker_initialized (cs_tracker c)) (cs_applied c) \<and>
     (\<not> unresolved a (cs_applied c) \<and> list_ex (\<lambda>r. r \<noteq> Ignored) (cs_applied c) \<longrightarrow>
       tracker_initialized (cs_tracker c)))"

lemma handle_apply_result_tracker:
  "cs_tracker (snd (handle_apply_result r stop w c)) =
    (if cs_awaiting c \<and> r \<noteq> AppliedFull then tracker_set Stale (cs_tracker c) else cs_tracker c)"
  by (cases rule: send_on_cases [of "data_sync_request 0" stop w c])
    (auto simp: handle_apply_result_def send_data_sync_def send_on_def Let_def
      split: apply_result.splits socket_send.splits)

lemma receive_data_status:
  assumes "conn_ok a c" and "status_ok a c" and "receive_data x opts p stop w c = (r, c')"
  shows "status_ok a c'"
proof (cases "unat (opt_max_ws_message_size opts) < length p")
  case True
  with assms(2,3) show ?thesis by (auto simp: receive_data_def)
next
  case False
  obtain q s t where msg: "apply_message x p (cs_store c) (cs_tracker c) = (q, s, t)" by (metis prod_cases3)
  define d where "d = c\<lparr>cs_store := s, cs_tracker := t, cs_applied := cs_applied c @ [q]\<rparr>"
  from False msg assms(3) have h: "handle_apply_result q stop w d = (r, c')"
    by (simp add: receive_data_def apply_payload_def d_def)
  have c': "cs_applied c' = cs_applied c @ [q]"
    "cs_tracker c' = (if cs_awaiting c \<and> q \<noteq> AppliedFull then tracker_set Stale t else t)"
    using handle_apply_result_store(2) [of q stop w d] handle_apply_result_tracker [of q stop w d]
    by (simp_all add: h) (simp_all add: d_def)
  have aw: "cs_awaiting c = unresolved a (cs_applied c)" using assms(1) by (simp add: conn_ok_def)
  show ?thesis
    using assms(2) apply_message_status [OF msg] aw
    by (cases q) (auto simp: status_ok_def shown_def c' split: if_splits)
qed

lemma connection_step_status:
  assumes "conn_ok a c" and "status_ok a c" and "connection_step x opts ev c = (r, c')"
  shows "status_ok a c'"
proof -
  have sent: "status_ok a d" if "after_send c (send_on m stop w c) = (q, d)" for m stop w q d
    using that assms(2) by (cases rule: send_on_cases [of m stop w c]) (auto simp: after_send_def status_ok_def)
  from assms(2) have "status_ok a (c\<lparr>cs_sent := m\<rparr>)" for m by (simp add: status_ok_def)
  with assms sent receive_data_status [OF assms(1,2)] show ?thesis
    by (auto simp: connection_step_def Let_def split: conn_event.splits incoming.splits message.splits)
qed

lemma run_connection_status:
  assumes "conn_ok a c" and "status_ok a c" and "run_connection x opts evs c = (r, c')"
  shows "status_ok a c'"
  using assms
proof (induction evs arbitrary: c)
  case (Cons ev evs)
  obtain r1 c1 where step: "connection_step x opts ev c = (r1, c1)" by fastforce
  from connection_step_status [OF Cons.prems(1,2) step] have s: "status_ok a c1" .
  show ?case
  proof (cases r1)
    case None
    with connection_step_ok [OF Cons.prems(1) step] have "conn_ok a c1" by simp
    with Cons.IH s Cons.prems(3) step None show ?thesis by simp
  qed (use s Cons.prems(3) step in simp)
qed simp

text \<open>Between sessions.\<close>

definition loop_status :: "'r loop_state \<Rightarrow> bool" where
  "loop_status l =
    (tracker_status (ls_tracker l) = shown (unresolved False (ls_applied l)) (tracker_initialized (ls_tracker l)) [])"

lemma pause_status:
  assumes "pause opts e l = (Continue, l')"
    and "tracker_status (ls_tracker l) = shown un (tracker_initialized (ls_tracker l)) rs"
    and "\<not> un \<and> list_ex (\<lambda>r. r \<noteq> Ignored) rs \<longrightarrow> tracker_initialized (ls_tracker l)" and "un = unresolved False (ls_applied l)"
  shows "loop_status l'"
  using assms
  by (cases "tracker_initialized (ls_tracker l)")
    (auto simp: pause_def break_loop_def loop_status_def shown_def Let_def split: if_splits)

lemma connected_status:
  fixes l :: "'r loop_state"
  assumes "loop_ok x l" and "loop_status l"
    and "connected x opts e \<lparr>cs_store = ls_store l, cs_tracker = ls_tracker l, cs_awaiting = ls_force_full l,
      cs_sent = m, cs_applied = []\<rparr> l = (nx, l')"
  shows "(nx = Continue \<longrightarrow> loop_status l') \<and>
    (nx = Suspended \<longrightarrow> (\<exists>c :: 'r conn_state. status_ok (unresolved False (ls_applied l)) c \<and>
      ls_tracker l' = cs_tracker c \<and> ls_applied l' = ls_applied l @ cs_applied c))"
proof -
  define c where "c = \<lparr>cs_store = ls_store l, cs_tracker = ls_tracker l, cs_awaiting = ls_force_full l,
    cs_sent = m, cs_applied = []\<rparr>"
  let ?a = "unresolved False (ls_applied l)"
  obtain r c' where run: "run_connection x opts (le_events e) c = (r, c')" by fastforce
  have a: "ls_force_full l = ?a" using assms(1) by (simp add: loop_ok_def)
  have "conn_ok ?a c" "status_ok ?a c"
    using assms(2) by (auto simp: conn_ok_def status_ok_def loop_status_def shown_def c_def a)
  from run_connection_status [OF this run] have st: "status_ok ?a c'" .
  show ?thesis
  proof (cases r)
    case None
    then have "nx = Suspended \<and> ls_tracker l' = cs_tracker c' \<and> ls_applied l' = ls_applied l @ cs_applied c'"
      using assms(3) unfolding c_def [symmetric] by (auto simp: connected_def run Let_def)
    with st show ?thesis by (intro conjI impI exI [of _ c']) simp_all
  next
    case (Some q)
    have go: "loop_status l'" if "pause opts e k = (Continue, l')" "ls_tracker k = cs_tracker c'"
      "ls_applied k = ls_applied l @ cs_applied c'" for k :: "'r loop_state"
      by (rule pause_status [OF that(1), where un = "unresolved ?a (cs_applied c')" and rs = "cs_applied c'"])
        (use st in \<open>simp_all add: status_ok_def that(2,3) unresolved_append\<close>)
    define k where "k retry force = l\<lparr>ls_store := cs_store c', ls_tracker := cs_tracker c', ls_sent := ls_sent l @ cs_sent c',
      ls_applied := ls_applied l @ cs_applied c', ls_retry := retry, ls_force_full := force\<rparr>" for retry force
    define retry where "retry = (if tracker_status (cs_tracker c') = Ready \<and>
      opt_keep_alive_interval opts \<le> le_elapsed e then 0 else ls_retry l)"
    have "(case q of
        Stopped \<Rightarrow> break_loop (k retry (ls_force_full l))
      | Terminal code \<Rightarrow> break_loop (k retry (ls_force_full l))
      | Reconnect \<Rightarrow> pause opts e (k retry False)
      | Resync \<Rightarrow> pause opts e (k retry True)) = (nx, l')"
      using assms(3) unfolding connected_def c_def [symmetric] run Some
      by (cases l) (auto simp: k_def retry_def Let_def break_loop_def split: connection_end.splits if_splits)
    then have "(nx = Finished \<or> (\<exists>force. pause opts e (k retry force) = (nx, l'))) \<and> nx \<noteq> Suspended"
      using pause_stored [of opts e _ nx l'] by (cases q) (auto simp: break_loop_def)
    with go show ?thesis by (auto simp: k_def)
  qed
qed

lemma set_stale_status: "loop_status l \<Longrightarrow> loop_status (l\<lparr>ls_tracker := set_stale_if_initialized (ls_tracker l)\<rparr>)"
  by (cases "tracker_initialized (ls_tracker l)") (auto simp: loop_status_def shown_def)

lemma loop_step_status:
  fixes l :: "'r loop_state"
  assumes "loop_ok x l" and "loop_status l" and "loop_step x uc opts e l = (nx, l')"
  shows "(nx = Continue \<longrightarrow> loop_status l') \<and>
    (nx = Suspended \<longrightarrow> (\<exists>c :: 'r conn_state. status_ok (unresolved False (ls_applied l)) c \<and>
      ls_tracker l' = cs_tracker c \<and> ls_applied l' = ls_applied l @ cs_applied c))"
proof -
  define l1 where "l1 = l\<lparr>ls_tracker := set_stale_if_initialized (ls_tracker l)\<rparr>"
  have s: "loop_status l1" unfolding l1_def by (rule set_stale_status [OF assms(2)])
  have "tracker_status (ls_tracker l1) \<noteq> Ready"
    unfolding l1_def using assms(1) by (simp add: loop_ok_def set_stale_not_ready)
  with assms(1) have l1: "loop_ok x l1" by (auto simp: loop_ok_def l1_def)
  define c where "c = \<lparr>cs_store = ls_store l1, cs_tracker = ls_tracker l1, cs_awaiting = ls_force_full l1,
    cs_sent = [], cs_applied = []\<rparr>"
  from assms(3) consider "break_loop l = (nx, l')" | "break_loop l1 = (nx, l')" | "pause opts e l1 = (nx, l')"
    | v where "connected x opts e (c\<lparr>cs_sent := cs_sent c @ [v]\<rparr>) l1 = (nx, l')"
    unfolding loop_step_def l1_def [symmetric] c_def [symmetric] Let_def send_data_sync_def
    by (cases rule: send_on_cases [of "data_sync_request (if ls_force_full l1 then 0 else sn_version (ls_store l1))"
          "le_send_stop e" "le_send_write e" c])
      (auto split: if_splits sum.splits)
  then show ?thesis
  proof cases
    case 3
    with pause_stored [OF 3] pause_status [of opts e l1 l' _ "[]"] s show ?thesis by (auto simp: loop_status_def)
  next
    case (4 v)
    from connected_status [OF l1 s 4 [unfolded c_def, simplified]] show ?thesis by (simp add: l1_def)
  qed (auto simp: break_loop_def)
qed

lemma run_status:
  assumes "loop_ok x l" and "loop_status l" and "run_sync_loop x uc opts es l = (Continue, l')"
  shows "loop_ok x l' \<and> loop_status l'"
  using assms
proof (induction es arbitrary: l)
  case (Cons e es)
  obtain nx l1 where step: "loop_step x uc opts e l = (nx, l1)" by fastforce
  with Cons.prems(3) have nx: "nx = Continue" by (cases nx) auto
  with step Cons.prems(3) have run: "run_sync_loop x uc opts es l1 = (Continue, l')" by simp
  from loop_step_ok [OF Cons.prems(1) step] nx have "loop_ok x l1" by (simp add: next_ok_def)
  moreover from loop_step_status [OF Cons.prems(1,2) step] nx have "loop_status l1" by simp
  ultimately show ?case using Cons.IH run by blast
qed simp

text \<open>
  C6. A session that lives on shows what it has received: after any earlier sessions, each of
  its messages has been applied, and the status is Stale while a conflict is unresolved, Ready
  once data has been applied in this session, and before that Stale when there is earlier data
  and Starting when there is none. Whenever it is Ready the client is initialized.
\<close>

theorem live_session_shows_its_data:
  fixes l l' :: "'r loop_state"
  assumes "sync_run x uc opts es = (Continue, l)" and "loop_step x uc opts e l = (Suspended, l')"
  shows "\<exists>recent. ls_applied l' = ls_applied l @ recent \<and> length recent = length (session_data (le_events e)) \<and>
    tracker_status (ls_tracker l') =
      (if unresolved False (ls_applied l') then Stale
       else if list_ex (\<lambda>r. r \<noteq> Ignored) recent then Ready
       else if tracker_initialized (ls_tracker l') then Stale else Starting) \<and>
    (tracker_status (ls_tracker l') = Ready \<longrightarrow> tracker_initialized (ls_tracker l'))"
proof -
  have "loop_ok x (loop_start store_new (tracker_new Starting False))" by (rule loop_start_ok [OF store_new_ok])
  moreover have "loop_status (loop_start store_new (tracker_new Starting False))"
    by (simp add: loop_status_def loop_start_def shown_def)
  ultimately have "loop_ok x l" "loop_status l"
    using run_status assms(1) unfolding sync_run_def by blast+
  from loop_step_status [OF this assms(2)] obtain c :: "'r conn_state" where
    c: "status_ok (unresolved False (ls_applied l)) c" "ls_tracker l' = cs_tracker c" "ls_applied l' = ls_applied l @ cs_applied c"
    by blast
  have "length (cs_applied c) = length (session_data (le_events e))"
    using loop_step_stored [OF assms(2)] by (auto simp: c(3))
  with c show ?thesis
    by (intro exI [of _ "cs_applied c"]) (auto simp: status_ok_def shown_def unresolved_append)
qed

text \<open>
  C21. The next session repairs an unresolved conflict: when the loop goes round and the
  connection is made and written to, the first message asks for everything (version 0) when a
  conflict is unresolved, and otherwise for what is newer than the store, whose version is 0
  while it is empty.
\<close>

theorem conflicts_request_full_sync:
  assumes "sync_run x uc opts es = (Continue, l)"
    and "\<not> le_stop_at_top e" and "\<not> le_stop_connecting e" and "\<not> le_send_stop e" and "le_send_write e = Written"
    and "connect uc opts (le_start e) (le_now e) (le_request_error e) (le_header_error e) (le_net e) = Inr ()"
  shows "\<exists>rest. ls_sent (snd (loop_step x uc opts e l)) =
    ls_sent l @ data_sync_request (if unresolved False (ls_applied l) then 0 else sn_version (ls_store l)) # rest"
proof -
  have "ls_force_full l = unresolved False (ls_applied l)"
  proof (cases "es = []")
    case True
    with assms(1) show ?thesis by (auto simp: sync_run_def loop_start_def)
  next
    case False
    from sync_run_ok [OF this assms(1)] show ?thesis by (simp add: next_ok_def loop_ok_def)
  qed
  with loop_step_sent [OF assms(2-6), of x l] show ?thesis by simp
qed

section \<open>Witnesses\<close>

text \<open>A round whose connection is made, with what happens on it.\<close>

definition session_round :: "conn_event list \<Rightarrow> loop_env" where
  "session_round evs =
    \<lparr>le_stop_at_top = False, le_stop_connecting = False, le_start = 2, le_now = 0, le_request_error = None,
     le_header_error = None, le_net = NetConnected, le_send_stop = False, le_send_write = Written,
     le_events = evs, le_elapsed = 0, le_jitter = 100, le_stop_sleeping = False\<rparr>"

abbreviation session_opts :: "(str, unit) fb_options" where
  "session_opts \<equiv> sample_client_options False"

lemma session_connect: "connect sample_url_crate session_opts 2 0 None None NetConnected = Inr ()"
proof -
  have "str_trim_end_matches (CHR ''='') ''abc='' = ''abc''" by (simp add: str_trim_end_matches_def)
  then show ?thesis
    by (simp add: connect_def streaming_url_def connection_token_def sample_client_options_def is_ascii_def byte_of_def Let_def)
qed

lemma session_simps [simp]:
  "le_events (session_round evs) = evs" "le_jitter (session_round evs) = 100" "le_stop_sleeping (session_round evs) = False"
  "unat (opt_max_ws_message_size session_opts) = 1000"
  by (simp_all add: session_round_def sample_client_options_def)

lemma session_opens:
  "loop_step x sample_url_crate session_opts (session_round evs) l = connected x session_opts (session_round evs)
    \<lparr>cs_store = ls_store l, cs_tracker = set_stale_if_initialized (ls_tracker l), cs_awaiting = ls_force_full l,
     cs_sent = [data_sync_request (if ls_force_full l then 0 else sn_version (ls_store l))], cs_applied = []\<rparr>
    (l\<lparr>ls_tracker := set_stale_if_initialized (ls_tracker l)\<rparr>)"
  by (rule loop_step_opens) (simp_all add: session_round_def session_connect)

definition data_event :: conn_event where
  "data_event = Incoming (Received (TextMsg [])) False Written"

lemma sending_parse: "parse_envelope sending_crates p = Some \<lparr>env_message_type = ''data-sync'', env_data = sample_full\<rparr>"
  by (simp add: parse_envelope_def sending_crates_def decode_envelope_encode unknown_def sample_full_def
      is_i64_def i64_min_def i64_max_def)


theorem live_session_shows_its_data_witness:
  "\<exists>l l'. sync_run sending_crates sample_url_crate session_opts [session_round [Incoming EndOfStream False Written]] = (Continue, l) \<and>
    loop_step sending_crates sample_url_crate session_opts (session_round [data_event]) l = (Suspended, l') \<and>
    tracker_status (ls_tracker l) = Starting \<and> tracker_status (ls_tracker l') = Ready"
proof -
  obtain l where l: "sync_run sending_crates sample_url_crate session_opts
      [session_round [Incoming EndOfStream False Written]] = (Continue, l)"
    "tracker_status (ls_tracker l) = Starting" "ls_applied l = []"
    by (simp add: sync_run_def session_opens connected_def connection_step_def loop_start_def reconnect_end_def pause_def Let_def)
  obtain l' where l': "loop_step sending_crates sample_url_crate session_opts (session_round [data_event]) l = (Suspended, l')"
    "ls_applied l' = [AppliedFull]"
    using l(3) by (simp add: session_opens connected_def data_event_def connection_step_def receive_data_def
        apply_payload_def apply_message_def sending_parse handle_apply_result_def sample_full_def Let_def)
  from live_session_shows_its_data [OF l(1) l'(1)] l l' have "tracker_status (ls_tracker l') = Ready"
    by (auto simp: unresolved_def)
  with l l' show ?thesis by blast
qed

text \<open>A patch that carries two different versions of a flag under one version number.\<close>

definition conflicting_data :: data_set where
  "conflicting_data =
    \<lparr>ds_event_type = ''patch'', ds_feature_flags = [sample_flag 1 True, sample_flag 1 False], ds_segments = []\<rparr>"

definition conflicting_crates :: "unit crates" where
  "conflicting_crates = sample_crates\<lparr>json_parse := \<lambda>s. Some (encode_envelope []
    \<lparr>env_message_type = ''data-sync'', env_data = conflicting_data\<rparr>)\<rparr>"

lemma conflicting_parse: "parse_envelope conflicting_crates [] =
    Some \<lparr>env_message_type = ''data-sync'', env_data = conflicting_data\<rparr>"
  unfolding parse_envelope_def conflicting_crates_def
  by (simp add: decode_envelope_encode unknown_def conflicting_data_def is_i64_def i64_min_def i64_max_def)

lemma conflicting_patch: "fst (patch conflicting_crates conflicting_data store_new) = VersionConflict"
  "sn_version (snd (patch conflicting_crates conflicting_data store_new)) = 1"
  by (simp_all add: patch_def conflicting_data_def store_new_def patch_flag_def patch_item_def flag_eq_def Let_def)

text \<open>
  The conflict leaves a store of version 1 and the connection ends before the full data set
  comes: the next session asks for version 0 first.
\<close>

theorem conflicts_request_full_sync_witness:
  "\<exists>l rest. sync_run conflicting_crates sample_url_crate session_opts
      [session_round [data_event, Incoming EndOfStream False Written]] = (Continue, l) \<and>
    unresolved False (ls_applied l) \<and> sn_version (ls_store l) = 1 \<and>
    ls_sent (snd (loop_step conflicting_crates sample_url_crate session_opts (session_round []) l)) =
      ls_sent l @ data_sync_request 0 # rest"
proof -
  obtain s where s: "patch conflicting_crates conflicting_data store_new = (VersionConflict, s)" "sn_version s = 1"
    using conflicting_patch by (cases "patch conflicting_crates conflicting_data store_new") simp
  obtain l where l: "sync_run conflicting_crates sample_url_crate session_opts
      [session_round [data_event, Incoming EndOfStream False Written]] = (Continue, l)"
    "unresolved False (ls_applied l)" "sn_version (ls_store l) = 1"
    using s by (simp add: sync_run_def session_opens connected_def data_event_def connection_step_def receive_data_def
        apply_payload_def apply_message_def conflicting_parse handle_apply_result_def conflicting_data_def loop_start_def
        send_data_sync_def send_on_def send_socket_message_def reconnect_end_def pause_def unresolved_def Let_def)
  from conflicts_request_full_sync [OF l(1), of "session_round []"] l show ?thesis
    by (simp add: session_round_def session_connect)
qed

end
