(* ===== verification/Example_Properties.thy ===== *)
theory Example_Properties
  imports Example_Server Example_Console Sessions
begin

text \<open>
  What a caller of the example service gets: the reference decision for the user that the
  request describes, the same over GET and POST; what its readiness probe means; and that the
  process leaves no client open behind it.
\<close>

section \<open>Maps read by serde\<close>

lemma fold_btree_insert:
  assumes "sorted_wrt (<) (map fst m)"
  shows "sorted_wrt (<) (map fst (fold (\<lambda>(k, v). btree_insert k v) kvs m)) \<and>
    map_of (fold (\<lambda>(k, v). btree_insert k v) kvs m) = map_of m ++ map_of (rev kvs)"
  using assms
proof (induction kvs arbitrary: m)
  case (Cons kv kvs)
  obtain k v where kv: "kv = (k, v)" by fastforce
  have "sorted_wrt (<) (map fst (btree_insert k v m))" "map_of (btree_insert k v m) = (map_of m)(k \<mapsto> v)"
    using Cons.prems by (simp_all add: strict_sorted_btree_insert map_of_btree_insert)
  with Cons.IH [of "btree_insert k v m"] show ?case
    by (simp add: kv map_add_upd_left map_of_append fun_eq_iff map_add_def split: option.splits)
qed simp

lemma sorted_map_eqI:
  assumes "sorted_wrt (<) (map fst m)" and "sorted_wrt (<) (map fst n)" and "set m = set n"
  shows "m = (n :: (str \<times> 'v) list)"
proof -
  have dist: "distinct (map fst m)" "distinct (map fst n)" and sorted: "sorted (map fst m)" "sorted (map fst n)"
    using assms(1,2) by (simp_all add: strict_sorted_iff)
  have "map fst m = map fst n"
    using dist sorted assms(3) by (metis set_map sorted_distinct_set_unique)
  moreover have "inj_on fst (set m \<union> set n)" using dist assms(3) by (simp add: distinct_map)
  ultimately show ?thesis by (rule map_inj_on)
qed

lemma collect_btree_sorted [simp]: "sorted_wrt (<) (map fst (collect_btree kvs))"
  using fold_btree_insert [of "[]" kvs] by (simp add: collect_btree_def)

lemma collect_btree_distinct: "distinct (map fst kvs) \<Longrightarrow> set (collect_btree kvs) = set kvs"
proof -
  assume d: "distinct (map fst kvs)"
  have dc: "distinct (map fst (collect_btree kvs))" using collect_btree_sorted [of kvs] by (simp add: strict_sorted_iff)
  have dr: "distinct (map fst (rev kvs))" using d by (simp flip: rev_map)
  have "map_of (collect_btree kvs) = map_of (rev kvs)"
    using fold_btree_insert [of "[]" kvs] by (simp add: collect_btree_def)
  then have "(k, v) \<in> set (collect_btree kvs) \<longleftrightarrow> (k, v) \<in> set (rev kvs)" for k v
    using dc dr by (metis map_of_eq_Some_iff)
  then show ?thesis by auto
qed

lemma collect_btree_eqI:
  "distinct (map fst kvs) \<Longrightarrow> sorted_wrt (<) (map fst m) \<Longrightarrow> set kvs = set m \<Longrightarrow> collect_btree kvs = m"
  by (rule sorted_map_eqI) (simp_all add: collect_btree_distinct)

section \<open>Requests, written and read\<close>

definition encode_request :: "boolean_evaluation_request \<Rightarrow> json" where
  "encode_request r =
    JObj
      [(''targetingKey'', JStr (br_targeting_key r)), (''name'', JStr (br_name r)),
       (''attributes'', JObj (map (\<lambda>(k, v). (k, JStr v)) (br_attributes r))),
       (''defaultValue'', JBool (br_default_value r))]"

definition encode_query :: "boolean_evaluation_request \<Rightarrow> (str \<times> str) list" where
  "encode_query r =
    [(''targetingKey'', br_targeting_key r), (''name'', br_name r), (''defaultValue'', show_bool (br_default_value r))] @
    br_attributes r"

lemma those_map_Some_id: "those (map (\<lambda>a. Some (f a)) as) = Some (map f as)"
  by (induction as) simp_all

lemma decode_encode_request:
  assumes "sorted_wrt (<) (map fst (br_attributes r))"
  shows "decode_request (encode_request r) = Some r"
proof -
  have "those (map ((\<lambda>(k, j). map_option (Pair k) (decode_str j)) \<circ> (\<lambda>(k, v). (k, JStr v))) m) = Some m" for m :: "(str \<times> str) list"
    by (induction m) auto
  moreover have "collect_btree (br_attributes r) = br_attributes r"
    using assms by (intro collect_btree_eqI) (simp_all add: strict_sorted_iff)
  ultimately show ?thesis
    by (simp add: decode_request_def encode_request_def field_required_def field_or_def)
qed

lemma bool_from_show_bool [simp]: "bool_from_str (show_bool b) = Some b"
  by (cases b) (simp_all add: bool_from_str_def show_bool_def)

lemma set_filter_by_key: "set (filter (\<lambda>(k, v). P k) ps) = {kv \<in> set ps. P (fst kv)}"
  by auto

text \<open>
  C31. Query parameters are read whatever their order: any arrangement of the parameters that a
  request is written as gives back the request, with the parameters that are no fields as its
  attributes.
\<close>

theorem query_roundtrip:
  assumes "sorted_wrt (<) (map fst (br_attributes r))" and "fst ` set (br_attributes r) \<inter> set query_fields = {}"
    and "distinct ps" and "set ps = set (encode_query r)"
  shows "map_option request_from_query (decode_query ps) = Some r"
proof -
  define known where "known = filter (\<lambda>(k, v). k \<in> set query_fields) ps"
  define others where "others = filter (\<lambda>(k, v). k \<notin> set query_fields) ps"
  define fields where "fields = {(''targetingKey'', br_targeting_key r), (''name'', br_name r),
      (''defaultValue'', show_bool (br_default_value r))}"
  have "set ps = fields \<union> set (br_attributes r)"
    using assms(4) by (simp add: encode_query_def fields_def)
  moreover have "fst ` fields \<subseteq> set query_fields" by (simp add: fields_def query_fields_def)
  ultimately have known: "set known = fields" and attrs: "set others = set (br_attributes r)"
    using assms(2) unfolding known_def others_def by (auto simp: set_filter_by_key)
  have "distinct known" "distinct others"
    using assms(3) by (simp_all add: known_def others_def)
  then have keys: "distinct (map fst known)" "distinct (map fst others)"
    using assms(1) by (simp_all add: distinct_map known attrs strict_sorted_iff) (simp add: fields_def)
  from keys(1) have "map_of known k = Some v \<longleftrightarrow> (k, v) \<in> set known" for k v by simp
  then have "map_of known ''targetingKey'' = Some (br_targeting_key r)" "map_of known ''name'' = Some (br_name r)"
    "map_of known ''defaultValue'' = Some (show_bool (br_default_value r))"
    unfolding known fields_def by simp_all
  moreover have "collect_btree others = br_attributes r"
    using keys(2) assms(1) attrs by (rule collect_btree_eqI)
  ultimately show ?thesis
    using keys(1) by (simp add: decode_query_def request_from_query_def Let_def flip: known_def others_def)
qed

section \<open>The user of a request\<close>

lemma fold_custom:
  "fold (\<lambda>(attribute, v) b. if P attribute then user_builder_custom attribute v b else b) as b =
    b\<lparr>ub_custom := fold (\<lambda>(k, v). btree_insert k v) (filter (\<lambda>(k, v). P k) as) (ub_custom b)\<rparr>"
  by (induction as arbitrary: b) (auto simp: user_builder_custom_def)

lemma request_user_custom:
  "u_key (request_user r) = br_targeting_key r" "u_name (request_user r) = br_name r"
  "u_custom (request_user r) = collect_btree (filter (\<lambda>(k, v). k \<noteq> ''name'') (br_attributes r))"
  by (simp_all add: request_user_def fold_custom user_builder_build_def user_builder_name_def user_builder_new_def
      collect_btree_def)

lemma map_of_filter_key: "P k \<Longrightarrow> map_of (filter (\<lambda>(j, v). P j) m) k = map_of m k"
  by (induction m) auto

text \<open>
  Targeting sees the request's attributes, except that the built-in properties are the
  targeting key and the name, whatever attributes of these names say.
\<close>

lemma request_user_values:
  assumes "sorted_wrt (<) (map fst (br_attributes r))"
  shows "user_ok (request_user r)"
    and "user_value_of (request_user r) p =
      (if p = ''keyId'' then br_targeting_key r else if p = ''name'' then br_name r
       else case map_of (br_attributes r) p of None \<Rightarrow> [] | Some v \<Rightarrow> v)"
proof -
  have sorted: "sorted_wrt (<) (map fst (filter (\<lambda>(k, v). k \<noteq> ''name'') (br_attributes r)))"
    using assms by (simp add: sorted_wrt_map sorted_wrt_filter)
  then have same: "collect_btree (filter (\<lambda>(k, v). k \<noteq> ''name'') (br_attributes r)) =
      filter (\<lambda>(k, v). k \<noteq> ''name'') (br_attributes r)"
    by (intro collect_btree_eqI) (simp_all add: strict_sorted_iff)
  show "user_ok (request_user r)"
    using sorted by (simp add: user_ok_def request_user_custom same)
  show "user_value_of (request_user r) p =
      (if p = ''keyId'' then br_targeting_key r else if p = ''name'' then br_name r
       else case map_of (br_attributes r) p of None \<Rightarrow> [] | Some v \<Rightarrow> v)"
    using map_of_filter_key [where P = "\<lambda>k. k \<noteq> ''name''" and m = "br_attributes r"]
    by (simp add: user_value_of_def request_user_custom same)
qed

section \<open>What the service answers\<close>

text \<open>
  C25. The service answers with the reference decision: for a blank targeting key it refuses,
  otherwise the value is the boolean of the variation that the reference decision selects on
  the published data for the user the request describes, or the request's default; a fallback
  is flagged and carries no variation id.
\<close>

theorem server_answers_reference_decision:
  assumes "reachable x opts c"
  shows "fst (evaluate_boolean_request x env flag_key r c) =
    (if str_is_blank (br_targeting_key r) then Inl invalid_targeting_key
     else
       let fallback = (\<lambda>reason. Inr \<lparr>bs_flag_key = flag_key, bs_value = br_default_value r, bs_variation_id = None,
             bs_reason = reason, bs_used_fallback = True\<rparr>)
       in if \<not> evaluation_available c then fallback ''client not ready''
          else
            (case spec_evaluate x (map_of (sn_flags (cl_snapshot c))) (map_of (sn_segments (cl_snapshot c))) flag_key
                    (request_user r) of
               Inl e \<Rightarrow> fallback (evaluation_error_display (evaluation_error_from e))
             | Inr result \<Rightarrow>
                 (case parse_bool (var_value (er_variation result)) of
                    Inl e \<Rightarrow> fallback ''type mismatch''
                  | Inr b \<Rightarrow> Inr \<lparr>bs_flag_key = flag_key, bs_value = b,
                      bs_variation_id = (if var_id (er_variation result) = [] then None else Some (var_id (er_variation result))),
                      bs_reason = snd (reason_detail (er_reason result)),
                      bs_used_fallback = (var_id (er_variation result) = [])\<rparr>)))"
proof -
  have display: "snd (evaluation_failure_detail e) = evaluation_error_display e" for e by (cases e) simp_all
  have mismatch: "e = TypeMismatch" if "parse_bool s = Inl e" for s e
    using that by (auto simp: parse_bool_def split: if_splits)
  show ?thesis
  proof (cases "evaluation_available c")
    case True
    with attempt_spec [OF assms True, of flag_key "request_user r" parse_bool] show ?thesis
      by (auto simp: evaluate_boolean_request_def bool_variation_detail_def typed_detail_contract detail_fallback_def Let_def
          display conversion_failure_detail_def split: sum.splits dest: mismatch)
  next
    case False
    then show ?thesis
      by (simp add: evaluate_boolean_request_def bool_variation_detail_def typed_detail_contract attempt_unavailable
          detail_fallback_def Let_def)
  qed
qed

definition evaluate_pattern :: str where
  "evaluate_pattern = ''/api/flags/{flag_key}/evaluate''"

lemma routes_evaluate:
  assumes "ax_captures ax ''/health/ready'' path = None" and "ax_captures ax evaluate_pattern path = Some params"
  shows "find (\<lambda>(pattern, ms). ax_captures ax pattern path \<noteq> None) routes =
    Some (evaluate_pattern, [(''GET'', EvaluateGet), (''POST'', EvaluatePost)])"
  using assms by (simp add: routes_def evaluate_pattern_def)

lemma get_and_post:
  assumes "ax_captures ax ''/health/ready'' path = None" and "ax_captures ax evaluate_pattern path = Some params"
  shows "serve_request ax x env \<lparr>rq_method = ''GET'', rq_path = path, rq_query = query, rq_json = j, rq_body = b\<rparr> c2 c =
      evaluate_boolean_get ax x env params query c"
    and "serve_request ax x env \<lparr>rq_method = ''POST'', rq_path = path, rq_query = query, rq_json = j, rq_body = b\<rparr> c2 c =
      evaluate_boolean_post ax x env params j b c"
  unfolding serve_request_def http_request.select_convs routes_evaluate [OF assms] by (simp_all add: assms(2))

text \<open>
  GET and POST are one interface: a request for the evaluation route is answered alike,
  with the same effect on the client, whether it arrives as query parameters or as the JSON
  document of the same request.
\<close>

theorem get_and_post_agree:
  assumes "ax_captures ax ''/health/ready'' path = None" and "ax_captures ax evaluate_pattern path = Some params"
    and "decode_query (ax_query ax query) = Some q"
    and "json_parse x body = Some (encode_request (request_from_query q))" and "length body \<le> body_limit"
  shows "serve_request ax x env \<lparr>rq_method = ''GET'', rq_path = path, rq_query = query, rq_json = j, rq_body = b\<rparr> c2 c =
    serve_request ax x env \<lparr>rq_method = ''POST'', rq_path = path, rq_query = query', rq_json = True, rq_body = body\<rparr> c2 c"
proof -
  have "sorted_wrt (<) (map fst (br_attributes (request_from_query q)))"
    using assms(3) by (auto simp: decode_query_def request_from_query_def Let_def bind_eq_Some_conv split: if_splits)
  then have "Option.bind (json_parse x body) decode_request = Some (request_from_query q)"
    using assms(4) by (simp add: decode_encode_request)
  then show ?thesis
    using assms(3,5)
    by (simp add: get_and_post [OF assms(1,2)] evaluate_boolean_get_def evaluate_boolean_post_def split: list.splits)
qed

section \<open>The readiness probe\<close>

text \<open>
  A probe that says ready means data: when the handler answers that the client is ready,
  it answers 200 with the initialized flag set, although it asks the client twice, and an
  online client has published a data set by then.
\<close>

theorem ready_answer_means_data:
  assumes "reachable x opts c" and "client_steps x c c2" and "client_current_status c = ClientReady"
  shows "readiness (client_current_status c) (client_initialized c2) =
      \<lparr>hr_status = 200, hr_body = health_json \<lparr>hs_status = ''ready'', hs_initialized = True\<rparr>\<rparr> \<and>
    (opt_offline opts \<or> sn_populated (cl_snapshot c2))"
proof -
  have "client_initialized c"
    using reachable_ok [OF assms(1)] assms(3)
    by (cases "tracker_status (cl_status c)")
      (auto simp: client_ok_def client_current_status_def client_initialized_def split: if_splits)
  then have i: "client_initialized c2" by (rule reachable_initialized [OF assms(1,2)])
  moreover from this have "opt_offline opts \<or> sn_populated (cl_snapshot c2)"
    using initialized_populated [OF reachable_steps [OF assms(1,2)]] by blast
  ultimately show ?thesis using assms(3) by (simp add: readiness_def)
qed

text \<open>
  C32. A probe that says stale does not: after a patch with a version conflict that arrives
  before the client is initialized, the probe answers 200, as for cached data that remains safe
  to evaluate. The patch has populated the store, but the client stays uninitialized, and it
  answers every request with the default.
\<close>

theorem probe_passes_before_initialization:
  assumes "reachable x opts c" and "cl_synchronizer c \<noteq> None" and "\<not> client_initialized c"
    and "parse_envelope x payload = Some envelope" and "env_message_type envelope = ''data-sync''"
    and "ds_event_type (env_data envelope) = ''patch''"
    and "fst (patch x (env_data envelope) (cl_snapshot c)) = VersionConflict"
    and "apply_message x payload (cl_snapshot c) (cl_status c) = (result, s, t)"
    and "c' = c\<lparr>cl_snapshot := s, cl_status := t\<rparr>"
  shows "client_step x c c' \<and> reachable x opts c' \<and> sn_populated (cl_snapshot c') \<and>
    readiness (client_current_status c') (client_initialized c') =
      \<lparr>hr_status = 200, hr_body = health_json \<lparr>hs_status = ''stale'', hs_initialized = False\<rparr>\<rparr> \<and>
    fst (evaluate_boolean_request x env flag_key r c') =
      (if str_is_blank (br_targeting_key r) then Inl invalid_targeting_key
       else Inr \<lparr>bs_flag_key = flag_key, bs_value = br_default_value r, bs_variation_id = None,
              bs_reason = ''client not ready'', bs_used_fallback = True\<rparr>)"
proof -
  have "s = snd (patch x (env_data envelope) (cl_snapshot c))" "t = tracker_set Stale (cl_status c)"
    using assms(4-8) by (cases "patch x (env_data envelope) (cl_snapshot c)"; simp add: apply_message_def)+
  then have c': "sn_populated (cl_snapshot c')" "client_current_status c' = ClientStale" "\<not> client_initialized c'"
    using assms(3) by (simp_all add: assms(9) patch_populated client_current_status_def client_initialized_def)
  then have na: "\<not> evaluation_available c'" by (simp add: evaluation_available_def)
  have step: "client_step x c c'"
    unfolding assms(9) by (rule step_effect [OF assms(2) effect_message [OF assms(8)]])
  have "reachable x opts c'" using step by (blast intro: reachable_steps [OF assms(1)])
  moreover have "fst (evaluate_boolean_request x env flag_key r c') =
      (if str_is_blank (br_targeting_key r) then Inl invalid_targeting_key
       else Inr \<lparr>bs_flag_key = flag_key, bs_value = br_default_value r, bs_variation_id = None,
              bs_reason = ''client not ready'', bs_used_fallback = True\<rparr>)"
    using na by (simp add: evaluate_boolean_request_def bool_variation_detail_def typed_detail_contract
        attempt_unavailable detail_fallback_def Let_def)
  ultimately show ?thesis using step c' by (simp add: readiness_def)
qed

section \<open>The process\<close>

lemma close_with_steps: "client_steps x c (close_with w c)"
  by (cases w rule: prod_cases3)
    (simp only: close_with_def case_prod_conv, rule converse_rtranclp_into_rtranclp [OF step_close_flag client_close_steps])

lemma close_with_shut: "cl_closed (close_with w c) \<and> gate_shut (cl_event_processor (close_with w c))"
  by (cases w rule: prod_cases3)
    (simp add: close_with_def client_close_shut, simp add: client_close_def close_flag_def close_events_def)

text \<open>
  C33. The process leaves no client open: however it ends after it has made a client, whether
  the address does not bind, serving fails, or serving ends with the shutdown signal, the client
  is closed, and whatever its threads still do, it evaluates nothing more and its event
  processor accepts nothing.
\<close>

theorem server_leaves_client_closed:
  assumes "server_main x uc var run = (err, Some c)"
    and "\<And>c0 :: ('u, 'o, 'r) client. client_steps x c0 (snd (sr_serve run c0))"
    and "client_steps x c c'"
  shows "cl_closed c' \<and> \<not> evaluation_available c' \<and> \<not> is_accepting (cl_event_processor c')"
proof -
  obtain w and opts :: "('u, 'o) fb_options" and c0 :: "('u, 'o, 'r) client" where c: "c = close_with w c0" and c0: "reachable x opts c0"
  proof -
    from assms(1) obtain opts :: "('u, 'o) fb_options" where main: "server_options x uc var = Inr opts"
      by (auto simp: server_main_def split: if_splits sum.splits)
    define flags where "flags = with_options x (sr_event_error run) (sr_sync_error run) opts"
    have flags: "reachable x opts flags" unfolding flags_def by (rule sample_reachable)
    have served: "reachable x opts (snd (sr_serve run flags))"
      by (rule reachable_steps [OF flags assms(2)])
    from assms(1) main consider "c = close_with (sr_drop run) flags"
      | "c = close_with (sr_drop run) (close_with (sr_close run) (snd (sr_serve run flags)))"
      | "c = close_with (sr_drop run) (snd (sr_serve run flags))"
      by (auto simp: server_main_def Let_def split: if_splits prod.splits bool.splits simp flip: flags_def)
    then show thesis
      using that flags served reachable_steps [OF served close_with_steps] by cases blast+
  qed
  have ok: "client_ok x opts c"
    unfolding c by (rule reachable_ok [OF reachable_steps [OF c0 close_with_steps]])
  have "cl_closed c" and shut: "gate_shut (cl_event_processor c)"
    unfolding c by (simp_all add: close_with_shut)
  then have "cl_closed c'" using clients.steps_closed [OF assms(3) ok] by simp
  moreover have "gate_shut (cl_event_processor c')" using event_gate.steps_closed [OF assms(3) ok shut] by simp
  ultimately show ?thesis by (auto simp: closed_unavailable gate_shut_def is_accepting_def)
qed

section \<open>The console example\<close>

text \<open>The line printed carries the reference decision for the example's flag and user.\<close>

lemma console_prints_reference_decision:
  assumes "var ''FEATBIT_ENV_SECRET'' = Some secret" and "var ''FEATBIT_STREAMING_URL'' = Some s_url"
    and "var ''FEATBIT_EVENT_URL'' = Some e_url"
    and "build x uc (builder_call (SetEventUrl e_url) (builder_call (SetStreamingUrl s_url) (options_builder_new secret))) =
      Inr opts"
    and "client_steps x (with_options x err1 err2 opts) c" and "evaluation_available c"
  shows "\<exists>rest. fst (console_main x uc var err1 err2 (\<lambda>_. c) env close drop_last) =
    Printed (''example-flag: '' @ show_bool (decided_value x (map_of (sn_flags (cl_snapshot c)))
      (map_of (sn_segments (cl_snapshot c))) ''example-flag'' console_user False parse_bool) @ rest)"
proof -
  have "reachable x opts c" using assms(5) by (auto simp: reachable_def)
  from served_value [OF this assms(6), of env "''example-flag''" console_user False parse_bool]
  have detail: "de_value (fst (bool_variation_detail x env ''example-flag'' console_user False c)) =
      decided_value x (map_of (sn_flags (cl_snapshot c))) (map_of (sn_segments (cl_snapshot c))) ''example-flag'' console_user
        False parse_bool"
    and "de_key (fst (bool_variation_detail x env ''example-flag'' console_user False c)) = ''example-flag''"
    by (cases "attempt x ''example-flag'' console_user parse_bool c";
        auto simp: bool_variation_detail_def typed_value_contract typed_detail_contract detail_fallback_def)+
  then show ?thesis
    using assms(1-4)
    by (simp add: console_main_def console_line_def Let_def case_prod_beta del: builder_call.simps)
qed

section \<open>Witnesses\<close>

definition sample_request :: boolean_evaluation_request where
  "sample_request =
    \<lparr>br_targeting_key = ''u1'', br_name = ''User'', br_attributes = [(''country'', ''FR''), (''plan'', ''pro'')],
     br_default_value = False\<rparr>"

definition sample_axum :: axum where
  "sample_axum =
    \<lparr>ax_captures = (\<lambda>pattern path. if pattern = evaluate_pattern then Some [''f''] else None),
     ax_query = (\<lambda>query. rev (encode_query sample_request)),
     ax_refuse = (\<lambda>refusal. \<lparr>hr_status = 400, hr_body = JNull\<rparr>)\<rparr>"

lemma sample_request_simps [simp]:
  "sorted_wrt (<) (map fst (br_attributes sample_request))" "br_targeting_key sample_request = ''u1''"
  "br_default_value sample_request = False"
  by (simp_all add: sample_request_def)

lemma sample_key_not_blank [simp]: "\<not> str_is_blank ''u1''"
  by (simp add: str_is_blank_def str_trim_start.simps white_space_def)

theorem query_roundtrip_witness:
  "map_option request_from_query (decode_query (rev (encode_query sample_request))) = Some sample_request"
  by (rule query_roundtrip) (simp_all add: sample_request_def query_fields_def encode_query_def insert_commute)

theorem server_answers_reference_decision_witness:
  "fst (evaluate_boolean_request sample_crates sample_env ''g'' sample_request sample_offline_client) =
    Inr \<lparr>bs_flag_key = ''g'', bs_value = False, bs_variation_id = None, bs_reason = ''flag not found'',
         bs_used_fallback = True\<rparr>"
proof -
  have "map_of (sn_flags (cl_snapshot sample_offline_client)) ''g'' = None"
    unfolding sample_offline_client by (simp add: populate_def populate_item_def Let_def)
  then show ?thesis
    by (simp add: server_answers_reference_decision [OF sample_reachable] sample_offline_client(2) spec_evaluate_def
        request_user_custom)
qed

theorem get_and_post_agree_witness:
  "\<exists>q. decode_query (rev (encode_query sample_request)) = Some q \<and>
    serve_request sample_axum (sample_crates\<lparr>json_parse := \<lambda>s. Some (encode_request (request_from_query q))\<rparr>) sample_env
      \<lparr>rq_method = ''GET'', rq_path = [], rq_query = [], rq_json = False, rq_body = []\<rparr> sample_offline_client
      sample_offline_client =
    serve_request sample_axum (sample_crates\<lparr>json_parse := \<lambda>s. Some (encode_request (request_from_query q))\<rparr>) sample_env
      \<lparr>rq_method = ''POST'', rq_path = [], rq_query = [], rq_json = True, rq_body = []\<rparr> sample_offline_client
      sample_offline_client"
proof -
  obtain q where q: "decode_query (rev (encode_query sample_request)) = Some q"
    by (simp add: decode_query_def encode_query_def query_fields_def sample_request_def Let_def)
  then show ?thesis
    by (intro exI [of _ q] conjI get_and_post_agree) (simp_all add: sample_axum_def evaluate_pattern_def)
qed

theorem ready_answer_means_data_witness:
  "hr_status (readiness (client_current_status sample_offline_client) (client_initialized (close_flag sample_offline_client))) = 200"
proof -
  have "client_current_status sample_offline_client = ClientReady"
    by (simp add: with_options_def sample_client_options_def client_current_status_def Let_def)
  then show ?thesis
    using ready_answer_means_data [OF sample_reachable r_into_rtranclp [where r = "client_step sample_crates", OF step_close_flag],
        of None None "sample_client_options True"]
    by simp
qed

theorem probe_passes_before_initialization_witness:
  "\<exists>c :: (str, unit, unit) client. reachable conflicting_crates (sample_client_options False) c \<and>
    map_of (sn_flags (cl_snapshot c)) ''f'' = Some (sample_flag 1 True) \<and>
    hr_status (readiness (client_current_status c) (client_initialized c)) = 200"
proof -
  let ?c = "with_options conflicting_crates None None (sample_client_options False) :: (str, unit, unit) client"
  have c: "cl_synchronizer ?c \<noteq> None" "\<not> client_initialized ?c" "cl_snapshot ?c = store_new"
    by (simp_all add: with_options_def sample_client_options_def synchronizer_start_def worker_spawn_def client_initialized_def
        Let_def)
  obtain q s t where m: "apply_message conflicting_crates [] (cl_snapshot ?c) (cl_status ?c) = (q, s, t)"
    by (metis prod_cases3)
  have "s = snd (patch conflicting_crates conflicting_data store_new)"
    using m conflicting_patch(1) unfolding c(3) apply_message_def conflicting_parse
    by (auto simp: conflicting_data_def split: prod.splits patch_result.splits)
  then have "map_of (sn_flags s) ''f'' = Some (sample_flag 1 True)"
    by (simp add: patch_flags conflicting_data_def newer_def)
  with probe_passes_before_initialization [OF sample_reachable c(1,2) conflicting_parse _ _ _ m refl] show ?thesis
    using conflicting_patch(1) by (intro exI [of _ "?c\<lparr>cl_snapshot := s, cl_status := t\<rparr>"])
      (simp add: c(3), simp add: conflicting_data_def)
qed

definition sample_run :: "(str, unit, unit) server_run" where
  "sample_run =
    \<lparr>sr_logging = True, sr_event_error = None, sr_sync_error = None, sr_bind = (\<lambda>a. True), sr_local_addr = True,
     sr_serve = (\<lambda>c. (True, c)), sr_close = ((True, True), (True, True), (True, True)),
     sr_drop = ((True, True), (True, True), (True, True))\<rparr>"

definition sample_variables :: "str \<Rightarrow> str option" where
  "sample_variables name =
    (if name = ''FEATBIT_ENV_SECRET'' then Some ''abc='' else if name = ''FEATBIT_STREAMING_URL'' then Some DEFAULT_STREAMING_URL
     else if name = ''FEATBIT_EVENT_URL'' then Some DEFAULT_EVENT_URL else None)"

theorem server_leaves_client_closed_witness:
  "\<exists>c. server_main sample_crates sample_url_crate sample_variables sample_run = (None, Some c) \<and> cl_closed c"
proof -
  obtain opts where b: "build sample_crates sample_url_crate (options_builder_new ''abc='' :: unit fb_options_builder) = Inr opts"
    by (rule sample_options)
  have same: "builder_call (SetEventUrl DEFAULT_EVENT_URL) (builder_call (SetStreamingUrl DEFAULT_STREAMING_URL)
      (options_builder_new ''abc='')) = (options_builder_new ''abc='' :: unit fb_options_builder)"
    by (simp add: options_builder_new_def)
  have "server_options sample_crates sample_url_crate sample_variables = Inr opts"
    unfolding server_options_def variable_def sample_variables_def using b same by (simp del: builder_call.simps)
  then obtain c where main: "server_main sample_crates sample_url_crate sample_variables sample_run = (None, Some c)"
    by (simp add: server_main_def sample_run_def Let_def)
  have "\<And>c0. client_steps sample_crates c0 (snd (sr_serve sample_run c0))" by (simp add: sample_run_def)
  from server_leaves_client_closed [OF main this rtranclp.rtrancl_refl] main show ?thesis by blast
qed

end
