(* ===== verification/Client_Spec.thy ===== *)
theory Client_Spec
  imports End_To_End
begin

text \<open>
  The client as an application may think of it: maps of flags and segments, whether data has
  arrived, a status and a closed flag, changed only by the messages received, by losing and
  ending the synchronization and by closing. There is no index, no thread, no queue. The client
  with all its threads is a replay of this machine on what happened to it, and its typed
  methods are functions of the replayed state.
\<close>

section \<open>The abstract machine\<close>

record spec_client =
  sp_flags :: "str \<Rightarrow> feature_flag option"
  sp_segments :: "str \<Rightarrow> segment option"
  sp_initialized :: bool
  sp_status :: sync_status
  sp_closed :: bool

text \<open>Per key, the newest of what is held and what an update carries.\<close>

definition merge_flags :: "data_set \<Rightarrow> (str \<Rightarrow> feature_flag option) \<Rightarrow> str \<Rightarrow> feature_flag option" where
  "merge_flags d m k =
    (if k = [] then m k else newest ff_updated_at (filter (\<lambda>f. ff_key f = k) (ds_feature_flags d)) (m k))"

definition merge_segments :: "data_set \<Rightarrow> (str \<Rightarrow> segment option) \<Rightarrow> str \<Rightarrow> segment option" where
  "merge_segments d m k =
    (if k = [] then m k else newest sg_updated_at (filter (\<lambda>g. sg_id g = k) (ds_segments d)) (m k))"

definition merge_data :: "data_set \<Rightarrow> spec_client \<Rightarrow> spec_client" where
  "merge_data d s = s\<lparr>sp_flags := merge_flags d (sp_flags s), sp_segments := merge_segments d (sp_segments s)\<rparr>"

text \<open>
  An update conflicts when it carries an object of the version, but not the content, that its
  key has at that point: in the store or earlier in the update.
\<close>

fun clash ::
  "('a \<Rightarrow> str) \<Rightarrow> ('a \<Rightarrow> int) \<Rightarrow> ('a \<Rightarrow> 'a \<Rightarrow> bool) \<Rightarrow> 'a list \<Rightarrow> (str \<Rightarrow> 'a option) \<Rightarrow> bool" where
  "clash key ver eqv [] m = False"
| "clash key ver eqv (a # as) m =
    (if key a = [] then clash key ver eqv as m
     else (case m (key a) of None \<Rightarrow> False | Some b \<Rightarrow> ver b = ver a \<and> \<not> eqv b a) \<or>
       clash key ver eqv as (m(key a := newer ver a (m (key a)))))"

definition conflicting :: "data_set \<Rightarrow> spec_client \<Rightarrow> bool" where
  "conflicting d s =
    (clash ff_key ff_updated_at flag_eq (ds_feature_flags d) (sp_flags s) \<or>
     clash sg_id sg_updated_at segment_eq (ds_segments d) (sp_segments s))"

text \<open>
  What happens to a client: a message is received, its data is marked stale, its
  synchronization is marked ended, or it is closed.
\<close>

datatype client_label = LMessage str | LStale | LEnded | LClose

definition spec_data :: "data_set \<Rightarrow> spec_client \<Rightarrow> spec_client" where
  "spec_data d s =
    (if ds_event_type d = ''full'' then
       s\<lparr>sp_flags := sent_flag d, sp_segments := sent_segment d, sp_initialized := True, sp_status := Ready\<rparr>
     else if ds_event_type d = ''patch'' then
       (if conflicting d s then (merge_data d s)\<lparr>sp_status := Stale\<rparr>
        else (merge_data d s)\<lparr>sp_initialized := True, sp_status := Ready\<rparr>)
     else s)"

fun spec_apply :: "'r crates \<Rightarrow> client_label \<Rightarrow> spec_client \<Rightarrow> spec_client" where
  "spec_apply x (LMessage payload) s =
    (case parse_envelope x payload of
       None \<Rightarrow> s
     | Some e \<Rightarrow> if env_message_type e = ''data-sync'' then spec_data (env_data e) s else s)"
| "spec_apply x LStale s = s\<lparr>sp_status := Stale\<rparr>"
| "spec_apply x LEnded s = s\<lparr>sp_status := Closed\<rparr>"
| "spec_apply x LClose s = s\<lparr>sp_closed := True\<rparr>"

text \<open>Before anything has happened: the bootstrap's data offline, nothing online.\<close>

definition spec_start :: "('u, 'o) fb_options \<Rightarrow> spec_client" where
  "spec_start opts =
    (if opt_offline opts
     then \<lparr>sp_flags = (case opt_bootstrap opts of None \<Rightarrow> (\<lambda>k. None) | Some b \<Rightarrow> sent_flag (env_data b)),
           sp_segments = (case opt_bootstrap opts of None \<Rightarrow> (\<lambda>k. None) | Some b \<Rightarrow> sent_segment (env_data b)),
           sp_initialized = True, sp_status = Ready, sp_closed = False\<rparr>
     else \<lparr>sp_flags = (\<lambda>k. None), sp_segments = (\<lambda>k. None), sp_initialized = False, sp_status = Starting,
           sp_closed = False\<rparr>)"

definition spec_value ::
  "'r crates \<Rightarrow> spec_client \<Rightarrow> str \<Rightarrow> fb_user \<Rightarrow> 'a \<Rightarrow> (str \<Rightarrow> observation_error + 'a) \<Rightarrow> 'a" where
  "spec_value x s key u dflt conv =
    (if \<not> sp_closed s \<and> sp_initialized s \<and> sp_status s \<in> {Ready, Stale}
     then decided_value x (sp_flags s) (sp_segments s) key u dflt conv
     else dflt)"

section \<open>What happened to a client\<close>

text \<open>
  The steps of the client and its threads with what they say happened: each write of the
  shared snapshot, status or closed flag is labelled, and every other step writes none of them.
\<close>

inductive labelled :: "'r crates \<Rightarrow> ('u, 'o, 'r) client \<Rightarrow> client_label list \<Rightarrow> ('u, 'o, 'r) client \<Rightarrow> bool" for x where
  lab_message: "cl_synchronizer c \<noteq> None \<Longrightarrow> apply_message x payload (cl_snapshot c) (cl_status c) = (r, s, t) \<Longrightarrow>
    labelled x c [LMessage payload] (c\<lparr>cl_snapshot := s, cl_status := t\<rparr>)"
| lab_stale: "cl_synchronizer c \<noteq> None \<Longrightarrow> labelled x c [LStale] (c\<lparr>cl_status := tracker_set Stale (cl_status c)\<rparr>)"
| lab_ended: "cl_synchronizer c \<noteq> None \<Longrightarrow> labelled x c [LEnded] (c\<lparr>cl_status := tracker_set Closed (cl_status c)\<rparr>)"
| lab_close: "labelled x c [LClose] (close_flag c)"
| lab_close_synchronizer: "cl_closed c \<Longrightarrow> c' = close_synchronizer sync c \<Longrightarrow>
    labelled x c (if cl_status c' = cl_status c then [] else [LEnded]) c'"
| lab_silent: "client_step x c c' \<Longrightarrow> same_core c c' \<Longrightarrow> labelled x c [] c'"

inductive_cases labelledE: "labelled x c ls c'"

lemma labelled_step: "labelled x c ls c' \<Longrightarrow> client_step x c c'"
proof (induction rule: labelled.induct)
  case (lab_stale c)
  then show ?case using step_effect [OF _ effect_stale, of c x] by simp
next
  case (lab_ended c)
  then show ?case using step_effect [OF _ effect_closed, of c x] by simp
qed (auto intro: step_effect effect_message step_close_flag step_close_synchronizer)

lemma step_labelled: "client_step x c c' \<Longrightarrow> \<exists>ls. labelled x c ls c'"
proof -
  assume step: "client_step x c c'"
  from core_steps [OF step] show ?thesis
  proof (elim disjE conjE exE)
    fix s t assume e: "cl_synchronizer c \<noteq> None" "sync_effect x (cl_snapshot c, cl_status c) (s, t)"
      "c' = c\<lparr>cl_snapshot := s, cl_status := t\<rparr>"
    from e(2) show ?thesis
    proof cases
      case (effect_message payload r)
      with e lab_message show ?thesis by blast
    next
      case effect_stale
      with e lab_stale [OF e(1), of x] show ?thesis by auto
    next
      case effect_closed
      with e lab_ended [OF e(1), of x] show ?thesis by auto
    qed
  next
    fix e1 e2 assume "c' = close_events e1 e2 c"
    then have "same_core c c'" by (simp add: same_core_def close_events_def)
    with step lab_silent show ?thesis by blast
  qed (use step lab_silent lab_close lab_close_synchronizer in blast)+
qed

text \<open>The history of a client since its construction, which may find that no thread can be spawned.\<close>

inductive client_trace ::
  "'r crates \<Rightarrow> ('u, 'o) fb_options \<Rightarrow> client_label list \<Rightarrow> ('u, 'o, 'r) client \<Rightarrow> bool" for x opts where
  trace_start: "client_trace x opts (if opt_offline opts \<or> sync_error = None then [] else [LEnded])
    (with_options x event_error sync_error opts)"
| trace_step: "client_trace x opts ls c \<Longrightarrow> labelled x c ks c' \<Longrightarrow> client_trace x opts (ls @ ks) c'"

lemma reachable_trace: "reachable x opts c \<longleftrightarrow> (\<exists>ls. client_trace x opts ls c)"
proof
  assume "reachable x opts c"
  then obtain e1 e2 where "client_steps x (with_options x e1 e2 opts) c" by (auto simp: reachable_def)
  then show "\<exists>ls. client_trace x opts ls c"
  proof (induction rule: rtranclp_induct)
    case (step c c')
    with step_labelled [OF step.hyps(2)] show ?case by (blast intro: trace_step)
  qed (blast intro: trace_start)
next
  assume "\<exists>ls. client_trace x opts ls c"
  then obtain ls where "client_trace x opts ls c" by blast
  then show "reachable x opts c"
  proof induction
    case (trace_start sync_error event_error)
    then show ?case by (auto simp: reachable_def)
  next
    case (trace_step ls c ks c')
    with labelled_step show ?case by (blast intro: reachable_steps)
  qed
qed

section \<open>The client replays it\<close>

definition client_abs :: "('u, 'o, 'r) client \<Rightarrow> spec_client" where
  "client_abs c =
    \<lparr>sp_flags = map_of (sn_flags (cl_snapshot c)), sp_segments = map_of (sn_segments (cl_snapshot c)),
     sp_initialized = client_initialized c, sp_status = tracker_status (cl_status c), sp_closed = cl_closed c\<rparr>"

lemma same_core_abs: "same_core c c' \<Longrightarrow> client_abs c' = client_abs c"
  by (simp add: same_core_def client_abs_def client_initialized_def)

lemma patch_maps:
  "map_of (sn_flags (snd (patch x d s))) = merge_flags d (map_of (sn_flags s))"
  "map_of (sn_segments (snd (patch x d s))) = merge_segments d (map_of (sn_segments s))"
  by (simp_all add: fun_eq_iff merge_flags_def merge_segments_def patch_flags patch_segments)

lemma patch_fold_clash:
  assumes "fold (patch_item key ver eqv prep) as (m, p, ch, cf) = (m', p', ch', cf')"
  shows "cf' \<longleftrightarrow> cf \<or> clash key ver eqv as (map_of m)"
  using assms
proof (induction as arbitrary: m p ch cf)
  case (Cons a as)
  obtain m1 p1 ch1 cf1 where step: "patch_item key ver eqv prep a (m, p, ch, cf) = (m1, p1, ch1, cf1)"
    by (metis prod_cases4)
  then have m1: "map_of m1 = (if key a = [] then map_of m else (map_of m)(key a := newer ver a (map_of m (key a))))"
    by (auto simp: patch_item_def newer_def update_conv' Let_def split: if_splits option.splits)
  have cf1: "cf1 \<longleftrightarrow> cf \<or> key a \<noteq> [] \<and>
      (case map_of m (key a) of None \<Rightarrow> False | Some b \<Rightarrow> ver b = ver a \<and> \<not> eqv b a)"
    using step by (auto simp: patch_item_def Let_def split: if_splits option.splits)
  from Cons.prems step have "fold (patch_item key ver eqv prep) as (m1, p1, ch1, cf1) = (m', p', ch', cf')" by simp
  from Cons.IH [OF this] show ?case by (auto simp: m1 cf1)
qed simp

lemma patch_conflicting: "fst (patch x d (cl_snapshot c)) = VersionConflict \<longleftrightarrow> conflicting d (client_abs c)"
proof -
  have *: "cf' \<longleftrightarrow> conflicting d (client_abs c)"
    if "fold (patch_flag x) (ds_feature_flags d) (sn_flags s, psn_flags (sn_prepared s), False, False) = (f, pf, ch, cf)"
      "fold (patch_segment x) (ds_segments d) (sn_segments s, psn_segments (sn_prepared s), ch, cf) = (g, pg, ch', cf')"
      "s = cl_snapshot c" for s f pf ch cf g pg ch' cf'
    using patch_fold_clash [OF that(1) [unfolded patch_flag_def]] patch_fold_clash [OF that(2) [unfolded patch_segment_def]]
    by (simp add: conflicting_def client_abs_def that(3))
  show ?thesis
    by (cases rule: patch_cases [of x d "cl_snapshot c"]) (use * in \<open>simp_all split: if_splits\<close>)
qed

lemma abs_with_shared:
  "client_abs (c\<lparr>cl_snapshot := s, cl_status := t\<rparr>) =
    \<lparr>sp_flags = map_of (sn_flags s), sp_segments = map_of (sn_segments s), sp_initialized = tracker_initialized t,
     sp_status = tracker_status t, sp_closed = cl_closed c\<rparr>"
  by (simp add: client_abs_def client_initialized_def)

lemma message_abs:
  assumes "apply_message x payload (cl_snapshot c) (cl_status c) = (r, s, t)"
  shows "client_abs (c\<lparr>cl_snapshot := s, cl_status := t\<rparr>) = spec_apply x (LMessage payload) (client_abs c)"
proof (cases "parse_envelope x payload")
  case None
  with assms show ?thesis by (auto simp: apply_message_def)
next
  case (Some e)
  obtain q p where p: "patch x (env_data e) (cl_snapshot c) = (q, p)" by fastforce
  then have snd_p: "p = snd (patch x (env_data e) (cl_snapshot c))" by simp
  have q: "q = VersionConflict \<longleftrightarrow> conflicting (env_data e) (client_abs c)"
    using patch_conflicting [of x "env_data e" c] p by simp
  have merged: "map_of (sn_flags p) = merge_flags (env_data e) (map_of (sn_flags (cl_snapshot c)))"
    "map_of (sn_segments p) = merge_segments (env_data e) (map_of (sn_segments (cl_snapshot c)))"
    by (simp_all add: snd_p patch_maps)
  show ?thesis
    using assms Some p q merged
    by (cases q)
      (auto simp: apply_message_def abs_with_shared spec_data_def merge_data_def Let_def populate_maps
        client_abs_def client_initialized_def split: if_splits)
qed

lemma labelled_abs: "labelled x c ls c' \<Longrightarrow> client_abs c' = fold (spec_apply x) ls (client_abs c)"
proof (induction rule: labelled.induct)
  case (lab_message c payload r s t)
  from message_abs [OF lab_message.hyps(2)] show ?case by simp
next
  case (lab_close_synchronizer c c' sync)
  obtain b where "cl_status c' = (if b then tracker_set Closed (cl_status c) else cl_status c)"
    using close_synchronizer_status lab_close_synchronizer by blast
  moreover have "cl_status c = tracker_set Closed (cl_status c) \<Longrightarrow> tracker_status (cl_status c) = Closed"
    by (metis tracker_set_simps(1))
  ultimately show ?case
    using lab_close_synchronizer by (cases b) (auto simp: client_abs_def client_initialized_def)
qed (auto simp: client_abs_def client_initialized_def close_flag_def same_core_def)

lemma start_abs:
  "client_abs (with_options x event_error sync_error opts) =
    fold (spec_apply x) (if opt_offline opts \<or> sync_error = None then [] else [LEnded]) (spec_start opts)"
  by (auto simp: client_abs_def client_initialized_def with_options_def spec_start_def populate_maps store_new_def
      synchronizer_start_def worker_spawn_def Let_def split: option.splits)

lemma trace_abs: "client_trace x opts ls c \<Longrightarrow> client_abs c = fold (spec_apply x) ls (spec_start opts)"
proof (induction rule: client_trace.induct)
  case (trace_start sync_error event_error)
  show ?case by (rule start_abs)
next
  case (trace_step ls c ks c')
  from labelled_abs [OF trace_step.hyps(2)] trace_step.IH show ?case by simp
qed

text \<open>Nothing is received offline.\<close>

lemma offline_labelled: "labelled x c ls c' \<Longrightarrow> cl_synchronizer c = None \<Longrightarrow> set ls \<subseteq> {LEnded, LClose}"
  by (induction rule: labelled.induct) (auto split: if_splits)

lemma offline_trace: "client_trace x opts ls c \<Longrightarrow> opt_offline opts \<Longrightarrow> set ls \<subseteq> {LEnded, LClose}"
proof (induction rule: client_trace.induct)
  case (trace_step ls c ks c')
  from trace_step.hyps(1) have "reachable x opts c" using reachable_trace by blast
  then have "cl_synchronizer c = None" using reachable_ok trace_step.prems by (fastforce simp: client_ok_def)
  with trace_step offline_labelled show ?case by fastforce
qed simp

section \<open>Properties\<close>

text \<open>
  C2. The client refines its specification: every state that the client and its threads can
  reach has a history, and whatever happened, the state is the replay of that history on maps
  of flags and segments: full data replaces, patches merge by version, a conflict or a lost
  connection makes stale; offline nothing is received. What a typed method returns is the
  function of the replayed state.
\<close>

theorem client_refines_specification:
  assumes "reachable x opts c"
  shows "(\<exists>ls. client_trace x opts ls c) \<and>
    (\<forall>ls. client_trace x opts ls c \<longrightarrow>
      client_abs c = fold (spec_apply x) ls (spec_start opts) \<and>
      (opt_offline opts \<longrightarrow> set ls \<subseteq> {LEnded, LClose}) \<and>
      fst (evaluate_typed_value x env key u dflt conv c) =
        spec_value x (fold (spec_apply x) ls (spec_start opts)) key u dflt conv)"
proof -
  have "fst (evaluate_typed_value x env key u dflt conv c) = spec_value x (client_abs c) key u dflt conv"
  proof (cases "evaluation_available c")
    case True
    with served_value [OF assms True] show ?thesis
      by (simp add: spec_value_def client_abs_def evaluation_available_def)
  next
    case False
    then show ?thesis
      by (simp add: typed_value_contract attempt_unavailable)
        (auto simp: spec_value_def client_abs_def evaluation_available_def)
  qed
  then show ?thesis using assms reachable_trace [of x opts c] trace_abs offline_trace by metis
qed

text \<open>A history that is replayed: a full data set arrives and then the connection is lost.\<close>

theorem client_refines_specification_witness:
  "\<exists>c :: (str, unit, unit) client.
    client_trace sending_crates (sample_client_options False) [LMessage [], LStale] c \<and>
    sp_flags (client_abs c) ''f'' = Some (sample_flag 1 True) \<and> sp_status (client_abs c) = Stale \<and>
    fst (evaluate_typed_value sending_crates sample_env ''f'' sample_user False parse_bool c) = True"
proof -
  let ?x = sending_crates and ?o = "sample_client_options False :: (str, unit) fb_options"
  let ?c = "with_options ?x None None ?o :: (str, unit, unit) client"
  have sync: "cl_synchronizer ?c \<noteq> None"
    by (simp add: with_options_def sample_client_options_def synchronizer_start_def worker_spawn_def Let_def)
  have parse: "parse_envelope ?x [] = Some \<lparr>env_message_type = ''data-sync'', env_data = sample_full\<rparr>"
    by (simp add: parse_envelope_def sending_crates_def decode_envelope_encode unknown_def sample_full_def
        is_i64_def i64_min_def i64_max_def)
  obtain r s t where m: "apply_message ?x [] (cl_snapshot ?c) (cl_status ?c) = (r, s, t)" by (metis prod_cases3)
  define c1 where "c1 = ?c\<lparr>cl_snapshot := s, cl_status := t\<rparr>"
  define c where "c = c1\<lparr>cl_status := tracker_set Stale (cl_status c1)\<rparr>"
  have c1_sync: "cl_synchronizer c1 \<noteq> None" using sync by (simp add: c1_def)
  have "client_trace ?x ?o ([] @ [LMessage []]) c1"
    unfolding c1_def using trace_start [of ?x ?o None None]
    by (intro trace_step [OF _ lab_message [OF sync m]]) simp
  from trace_step [OF this lab_stale [OF c1_sync]]
  have tr: "client_trace ?x ?o [LMessage [], LStale] c" by (simp add: c_def)
  then have "reachable ?x ?o c" using reachable_trace by blast
  note replay = client_refines_specification [OF this, of sample_env "''f''" sample_user False parse_bool,
      THEN conjunct2, rule_format, OF tr]
  have "rollout_of_key ?x ''fu1'' = Fin False (1 / 2)"
    using sample_position [of "''fu1''"] by (simp add: rollout_of_key_def sending_crates_def)
  then have "decided_value ?x (sent_flag sample_full) (sent_segment sample_full) ''f'' sample_user False parse_bool = True"
    by (simp add: decided_value_def sent_flag_def sample_full_def spec_evaluate_def decide_def pick_def dispatch_key_def
        sample_rollout_def in_rollout_between flag_variation_def evaluator_result_def parse_bool_def)
  with replay tr show ?thesis
    by (intro exI [of _ c]) (simp add: parse spec_data_def spec_start_def sample_client_options_def spec_value_def
        sent_flag_def sample_full_def)
qed

end
