(* ===== verification/Delivery.thy ===== *)
theory Delivery
  imports Events
begin

text \<open>
  Analytics events from end to end: the messages that recording and flushing have put into the
  channel, in their order, against what the worker has answered. A flush message ends a group of
  payloads; the worker's reports are about exactly these groups.
\<close>

section \<open>What went into the channel\<close>

text \<open>The messages that a step adds at the end of the queue.\<close>

definition new_messages ::
  "event_processor_inner \<times> 'u event_worker \<Rightarrow> event_processor_inner \<times> 'u event_worker \<Rightarrow> event_message list" where
  "new_messages s s' = drop (length (pr_queue (fst s))) (pr_queue (fst s'))"

inductive recorded_run ::
  "event_processor_inner \<times> 'u event_worker \<Rightarrow> event_message list \<Rightarrow> event_processor_inner \<times> 'u event_worker \<Rightarrow> bool"
  for s0 where
  run_start: "recorded_run s0 [] s0"
| run_step: "recorded_run s0 h s \<Longrightarrow> event_step s s' \<Longrightarrow> recorded_run s0 (h @ new_messages s s') s'"

lemma recorded_run_steps: "event_step\<^sup>*\<^sup>* s0 s \<Longrightarrow> \<exists>h. recorded_run s0 h s"
  by (induction rule: rtranclp_induct) (auto intro: recorded_run.intros)

section \<open>Groups\<close>

text \<open>The payloads before each flush message since the one before it, and those after the last.\<close>

fun cover :: "event_message \<Rightarrow> payload_event list list \<times> payload_event list \<Rightarrow> payload_event list list \<times> payload_event list" where
  "cover (PayloadMsg e) (groups, current) = (groups, current @ [pe_payload e])"
| "cover (FlushMsg has_reply) (groups, current) = (groups @ [current], [])"

definition groups :: "event_message list \<Rightarrow> payload_event list list" where
  "groups ms = fst (fold cover ms ([], []))"

lemma fold_cover_extends: "\<exists>ext. fst (fold cover ms gc) = fst gc @ ext"
proof (induction ms arbitrary: gc)
  case (Cons m ms)
  obtain g c where gc: "gc = (g, c)" by fastforce
  show ?case
  proof (cases m)
    case (PayloadMsg e)
    with Cons.IH [of "cover m gc"] show ?thesis by (simp add: gc)
  next
    case (FlushMsg b)
    with Cons.IH [of "cover m gc"] show ?thesis by (auto simp: gc)
  qed
qed simp

lemma groups_append_nth:
  "k < length (groups ms) \<Longrightarrow> k < length (groups (ms @ ns)) \<and> groups (ms @ ns) ! k = groups ms ! k"
  using fold_cover_extends [of ns "fold cover ms ([], [])"] by (auto simp: groups_def nth_append)

section \<open>The worker keeps the groups\<close>

text \<open>What of the worker's accounts concerns the groups: those reported, and the current one.\<close>

definition reported :: "'u event_worker \<Rightarrow> payload_event list list \<times> payload_event list" where
  "reported w = (map (\<lambda>(delivered, taken, acked). taken) (ew_reports w), ew_taken w)"

lemma reported_remember [simp]: "reported (remember_delivery_failure q w) = reported w"
  by (simp add: reported_def remember_delivery_failure_def)

lemma reported_flush: "flush env (w, c) = (outcome, w', c') \<Longrightarrow> 0 < batch_size w \<Longrightarrow> reported w' = reported w"
  using flush_effect [of env w c outcome w' c'] by (simp add: reported_def)

lemma reported_process:
  assumes "process msg env (w, c) = (keep, reply, w', c')" and "0 < batch_size w"
  shows "reported w' = cover msg (reported w)"
  using assms(1)
proof (cases rule: process_cases)
  case (batch e a c1 outcome w1)
  with reported_flush [OF batch(4)] assms(2) have "reported w' = reported (buffering e a w)" by simp
  with batch(1) show ?thesis by (simp add: reported_def buffering_def)
next
  case (flushed has_reply outcome w1)
  with flush_effect [OF flushed(2) assms(2)] show ?thesis by (simp add: reported_def answered_def)
qed (simp_all add: reported_def buffering_def)

section \<open>What the worker acknowledges\<close>

text \<open>Everything the server has acknowledged, in order.\<close>

definition all_acked :: "'u event_worker \<Rightarrow> payload_event list" where
  "all_acked w = concat (map (\<lambda>(delivered, taken, acked). acked) (ew_reports w)) @ ew_acked w"

text \<open>Acknowledged or still buffered, as a list in the order of the channel.\<close>

abbreviation kept :: "'u event_worker \<Rightarrow> payload_event list" where
  "kept w \<equiv> all_acked w @ map pe_payload (ew_buffer w)"

lemma deliver_chunks_acks:
  assumes "deliver_chunks cs i env d w = (outcome, w')"
  shows "ew_reports w' = ew_reports w \<and>
    (\<exists>acks. ew_acked w' = ew_acked w @ acks \<and> subseq acks (map pe_payload (concat cs)))"
  using assms
proof (induction cs arbitrary: i d w)
  case (Cons chunk cs)
  show ?case
  proof (cases "fst (env i) \<and> fst (send (ew_client w) (wc_max_attempts (ew_config w)) (snd (env i))) = Succeeded")
    case True
    with Cons.prems have "deliver_chunks cs (Suc i) env d (w\<lparr>ew_acked := ew_acked w @ map pe_payload chunk\<rparr>) = (outcome, w')"
      by (simp add: serialize_events_def)
    from Cons.IH [OF this] show ?thesis by (auto intro: list_emb_append_mono)
  next
    case False
    then consider "w' = w \<or> w' = w\<lparr>ew_delivery_stopped := True, ew_shared_stopped := True\<rparr>"
      | j where "deliver_chunks cs j env False w = (outcome, w')"
      using Cons.prems by (auto simp: serialize_events_def outcome_cancelled_def split: if_splits delivery.splits)
    then show ?thesis
    proof cases
      case 2
      from Cons.IH [OF this] show ?thesis by (auto intro: subseq_drop_many)
    qed auto
  qed
qed simp

lemma flush_kept:
  assumes "flush env (w, c) = (outcome, w', c')" and "0 < batch_size w"
  shows "subseq (all_acked w') (kept w)" "ew_buffer w' = []"
proof -
  show "ew_buffer w' = []" using flush_effect [OF assms] by simp
  show "subseq (all_acked w') (kept w)"
  proof (cases "ew_delivery_stopped w \<or> ew_buffer w = []")
    case True
    with assms(1) have "all_acked w' = all_acked w" by (auto simp: flush_def all_acked_def split: if_splits)
    then show ?thesis by (simp add: subseq_rev_drop_many)
  next
    case False
    then obtain w1 where d: "deliver_chunks (chunks_of (batch_size w) (ew_buffer w)) 0 env True w = (outcome, w1)"
      and w1: "w' = w1\<lparr>ew_buffer := []\<rparr>"
      using assms(1) by (auto simp: flush_def deliver_events_def batch_size_def split: prod.splits)
    from deliver_chunks_acks [OF d] obtain acks where "ew_reports w1 = ew_reports w" "ew_acked w1 = ew_acked w @ acks"
      "subseq acks (map pe_payload (ew_buffer w))"
      using concat_chunks_of [OF assms(2), of "ew_buffer w"] by auto
    then show ?thesis by (simp add: w1 all_acked_def subseq_append')
  qed
qed

lemma all_acked_remember [simp]: "all_acked (remember_delivery_failure q w) = all_acked w"
  by (simp add: all_acked_def remember_delivery_failure_def)

definition payloads :: "event_message list \<Rightarrow> payload_event list" where
  "payloads ms = map pe_payload (queued ms)"

lemma payloads_simps [simp]:
  "payloads [] = []" "payloads (PayloadMsg e # ms) = pe_payload e # payloads ms" "payloads (FlushMsg b # ms) = payloads ms"
  "payloads (ms @ ns) = payloads ms @ payloads ns"
  by (simp_all add: payloads_def)

lemma process_kept:
  assumes "process msg env (w, c) = (keep, reply, w', c')" and "0 < batch_size w"
  shows "subseq (kept w') (kept w @ payloads [msg])"
  using assms(1)
proof (cases rule: process_cases)
  case (dropped e a c1)
  then have "kept w' = kept w" by (simp add: all_acked_def)
  then show ?thesis by (simp only: subseq_rev_drop_many subseq_order.order_refl)
next
  case (buffered e a)
  then have "kept w' = kept w @ payloads [msg]" by (simp add: buffering_def all_acked_def)
  then show ?thesis by (simp only: subseq_order.order_refl)
next
  case (batch e a c1 outcome w1)
  have "kept (buffering e a w) = kept w @ payloads [msg]" using batch(1) by (simp add: buffering_def all_acked_def)
  with flush_kept [OF batch(4)] assms(2) batch show ?thesis by simp
next
  case (flushed has_reply outcome w1)
  then have "kept w' = kept w1" by (simp add: answered_def all_acked_def)
  with flush_kept [OF flushed(2) assms(2)] flushed(1) show ?thesis by simp
qed

section \<open>The history invariant\<close>

text \<open>The accounts of a worker that has taken the given messages from the channel.\<close>

definition accounts :: "event_message list \<Rightarrow> 'u event_worker \<Rightarrow> bool" where
  "accounts taken w = (fold cover taken ([], []) = reported w \<and> subseq (kept w) (payloads taken))"

lemma accounts_process:
  assumes "accounts taken w" and "process msg env (w, c) = (keep, reply, w', c')" and "0 < batch_size w"
  shows "accounts (taken @ [msg]) w'"
proof -
  have "subseq (kept w @ payloads [msg]) (payloads taken @ payloads [msg])"
    using assms(1) by (simp only: accounts_def subseq_append)
  from subseq_order.order_trans [OF process_kept [OF assms(2,3)] this]
  have "subseq (kept w') (payloads (taken @ [msg]))" by (simp only: payloads_simps(4))
  with assms(1) reported_process [OF assms(2,3)] show ?thesis by (simp add: accounts_def)
qed

lemma accounts_flush:
  assumes "accounts taken w" and "flush env (w, c) = (outcome, w', c')" and "0 < batch_size w"
  shows "accounts taken (remember_delivery_failure outcome w')"
  using assms(1) flush_kept [OF assms(2,3)] reported_flush [OF assms(2,3)]
  by (auto simp: accounts_def intro: subseq_order.order_trans)

lemma accounts_exit: "accounts taken w \<Longrightarrow> accounts taken (w\<lparr>ew_buffer := []\<rparr>)"
proof -
  assume a: "accounts taken w"
  have "kept (w\<lparr>ew_buffer := []\<rparr>) = all_acked w" by (simp add: all_acked_def)
  then have "subseq (kept (w\<lparr>ew_buffer := []\<rparr>)) (kept w)" by (simp add: subseq_rev_drop_many)
  with a show ?thesis by (auto simp: accounts_def reported_def intro: subseq_order.order_trans)
qed

text \<open>
  While the worker lives, the history is what it has taken from the channel followed by the
  queue; when it ends, the rest of the history is lost and nothing is added any more.
\<close>

definition history_inv :: "event_message list \<Rightarrow> event_processor_inner \<times> 'u event_worker \<Rightarrow> bool" where
  "history_inv h s =
    (case s of (p, w) \<Rightarrow>
       worker_safe w \<and>
       (\<exists>taken rest. h = taken @ rest \<and> accounts taken w \<and>
          (if pr_receiver_alive p then worker_ok w \<and> rest = pr_queue p else pr_queue p = [])))"

lemma inner_close_receiver: "inner_close e1 e2 p = (ds, p') \<Longrightarrow> pr_receiver_alive p' = pr_receiver_alive p"
  by (auto simp: inner_close_def wait_for_worker_def shutdown_try_send_def Let_def
      split: if_splits prod.splits worker_wait.splits)

lemma record_inner_receiver: "record_inner raced n payload p = (b, p') \<Longrightarrow> pr_receiver_alive p' = pr_receiver_alive p"
  by (auto simp: record_inner_def channel_try_send_def log_event_queue_overflow_def mark_event_queue_available_def Let_def
      split: if_splits prod.splits option.splits)

lemma flush_safe:
  "flush env (w, c) = (outcome, w', c') \<Longrightarrow> worker_safe w \<Longrightarrow> worker_safe (remember_delivery_failure outcome w')"
  using flush_effect [of env w c outcome w' c'] by (auto simp: worker_safe_def reports_honest_def batch_size_def)

lemma history_step:
  assumes "event_step s s'" and "history_inv h s"
  shows "history_inv (h @ new_messages s s') s'"
  using assms(1)
proof (cases rule: event_step_cases)
  case (step_record raced n payload p b p' w)
  then show ?thesis
    using assms(2) record_inner_receiver [OF step_record(3)]
    by (cases rule: record_inner_cases [of raced n payload p])
      (auto simp: history_inv_def new_messages_def split: if_splits)
next
  case (step_flush p w b)
  with assms(2) show ?thesis by (auto simp: history_inv_def new_messages_def)
next
  case (step_close e1 e2 p ds p' w)
  with assms(2) inner_close_simps [OF step_close(3)] inner_close_receiver [OF step_close(3)] show ?thesis
    by (auto simp: history_inv_def new_messages_def split: if_splits)
next
  case (step_process p msg rest env w keep reply w' c')
  with assms(2) obtain taken where inv: "h = taken @ msg # rest" "accounts taken w" "worker_ok w" "pr_receiver_alive p"
    by (auto simp: history_inv_def split: if_splits)
  have "accounts (taken @ [msg]) w'"
    by (rule accounts_process [OF inv(2) step_process(4)]) (use inv(3) in \<open>simp add: worker_ok_def\<close>)
  with step_process inv process_ok [OF step_process(4) inv(3)] worker_ok_safe show ?thesis
    by (auto simp: history_inv_def new_messages_def intro!: exI [of _ "taken @ [msg]"])
next
  case (step_timer env w p outcome w' c')
  then have safe: "worker_safe w" and b: "0 < batch_size w" using assms(2) by (auto simp: history_inv_def worker_safe_def)
  from step_timer assms(2) flush_safe [OF step_timer(3) safe] flush_ok [OF step_timer(3)]
    accounts_flush [OF _ step_timer(3) b] show ?thesis
    by (auto simp: history_inv_def new_messages_def split: if_splits)
next
  case (step_exit p w)
  with assms(2) show ?thesis
    by (auto simp: history_inv_def new_messages_def worker_safe_def reports_honest_def batch_size_def
        intro: accounts_exit)
qed

lemma history_run: "recorded_run s0 h s \<Longrightarrow> history_inv [] s0 \<Longrightarrow> history_inv h s"
  by (induction rule: recorded_run.induct) (auto intro: history_step)

lemma history_start:
  assumes "event_processor_new opts None = Active p0" and "0 < unat (wc_max_events_per_request cfg)"
  shows "history_inv [] (p0, event_worker_new cfg client stopped)"
  using assms event_worker_new_ok [OF assms(2), of client stopped] worker_ok_safe
  by (auto simp: history_inv_def accounts_def all_acked_def event_processor_new_def worker_spawn_def event_worker_new_def
      reported_def split: if_splits)

section \<open>Properties\<close>

text \<open>
  C11. A flush that is answered with true has delivered: however recording threads, flushes,
  closes and the worker interleave, the k-th answer is about the payloads that went into the
  channel between the flush message before it and its own, and if it is true, the server has
  acknowledged exactly these since, each once and in the order in which they were recorded.
\<close>

theorem flush_answers_cover_recorded_events:
  assumes "event_processor_new opts None = Active p0" and "0 < unat (wc_max_events_per_request cfg)"
    and "recorded_run (p0, event_worker_new cfg client stopped) h (p, w)"
    and "k < length (ew_reports w)" and "ew_reports w ! k = (delivered, taken, acked)"
  shows "k < length (groups h) \<and> taken = groups h ! k \<and> (if delivered then acked = groups h ! k else True)"
proof -
  from history_run [OF assms(3) history_start [OF assms(1,2)]] obtain past rest
    where h: "h = past @ rest" and r: "fold cover past ([], []) = reported w" and safe: "worker_safe w"
    by (auto simp: history_inv_def accounts_def)
  have "groups past = map (\<lambda>(delivered, taken, acked). taken) (ew_reports w)"
    using r by (simp add: groups_def reported_def)
  with assms(4,5) have "k < length (groups past)" "groups past ! k = taken" by simp_all
  with groups_append_nth [of k past rest] have k: "k < length (groups h)" "groups h ! k = taken" by (simp_all add: h)
  have "(delivered, taken, acked) \<in> set (ew_reports w)" using assms(4,5) nth_mem by metis
  with safe have "delivered \<longrightarrow> taken = acked" by (auto simp: worker_safe_def reports_honest_def)
  with k show ?thesis by simp
qed

text \<open>
  At most once and in order: whatever fails, is retried or cancelled, and however the
  threads interleave, the payloads that the server has acknowledged are a subsequence of those
  that recording put into the channel.
\<close>

theorem events_are_delivered_at_most_once:
  assumes "event_processor_new opts None = Active p0" and "0 < unat (wc_max_events_per_request cfg)"
    and "recorded_run (p0, event_worker_new cfg client stopped) h (p, w)"
  shows "subseq (all_acked w) (payloads h)"
proof -
  from history_run [OF assms(3) history_start [OF assms(1,2)]] obtain taken rest
    where "h = taken @ rest" "subseq (kept w) (payloads taken)"
    by (auto simp: history_inv_def accounts_def)
  then have "subseq (kept w) (payloads h)" by (simp add: subseq_rev_drop_many)
  moreover have "subseq (all_acked w) (kept w)" by (simp add: subseq_rev_drop_many)
  ultimately show ?thesis by (rule subseq_order.order_trans [rotated])
qed

section \<open>A shutdown without failures\<close>

text \<open>What a round takes from the channel.\<close>

fun round_payloads :: "try_shutdown \<times> selected \<Rightarrow> payload_event list" where
  "round_payloads (t, SelMessage (PayloadMsg e) env) = [pe_payload e]"
| "round_payloads (t, sel) = []"

text \<open>Every batch is accepted in the end: it serializes, and one of its attempts succeeds.\<close>

definition accepted_batches :: "http_client option \<Rightarrow> usize \<Rightarrow> deliver_env \<Rightarrow> bool" where
  "accepted_batches client max_attempts env =
    (\<forall>i. fst (env i) \<and> fst (send client max_attempts (snd (env i))) = Succeeded)"

fun cooperative :: "http_client option \<Rightarrow> usize \<Rightarrow> try_shutdown \<times> selected \<Rightarrow> bool" where
  "cooperative client n (t, sel) =
    (t \<in> {TryEmpty, TryMessage Graceful} \<and>
     (case sel of
        SelShutdown s \<Rightarrow> s = Some Graceful
      | SelMessage msg env \<Rightarrow> accepted_batches client n env
      | SelReceiverClosed env \<Rightarrow> False
      | SelDefault env \<Rightarrow> accepted_batches client n env))"

abbreviation accepting_worker :: "'u event_worker \<Rightarrow> deliver_env \<Rightarrow> bool" where
  "accepting_worker w \<equiv> accepted_batches (ew_client w) (wc_max_attempts (ew_config w))"

lemma deliver_chunks_accepted:
  assumes "accepting_worker w env"
  shows "deliver_chunks cs i env d w =
    (\<lparr>fo_delivered = d, fo_keep_running = True\<rparr>, w\<lparr>ew_acked := ew_acked w @ map pe_payload (concat cs)\<rparr>)"
  using assms
proof (induction cs arbitrary: i w)
  case (Cons chunk cs)
  from Cons.prems have "fst (env i)" "fst (send (ew_client w) (wc_max_attempts (ew_config w)) (snd (env i))) = Succeeded"
    by (simp_all add: accepted_batches_def)
  with Cons.prems Cons.IH [of "w\<lparr>ew_acked := ew_acked w @ map pe_payload chunk\<rparr>"] show ?case
    by (simp add: serialize_events_def)
qed simp

lemma flush_accepted:
  assumes "accepting_worker w env" and "\<not> ew_delivery_stopped w" and "0 < batch_size w"
  shows "\<exists>c'. flush env (w, c) =
    (outcome_delivered, w\<lparr>ew_acked := ew_acked w @ map pe_payload (ew_buffer w), ew_buffer := []\<rparr>, c')"
  using assms(2) deliver_chunks_accepted [OF assms(1)] concat_chunks_of [OF assms(3), of "ew_buffer w"]
  by (simp add: flush_def deliver_events_def batch_size_def outcome_delivered_def)

text \<open>
  As long as nothing fails: what is acknowledged or buffered is what was taken, no failure is
  remembered, and every answer is true.
\<close>

definition all_is_well :: "payload_event list \<Rightarrow> 'u event_worker \<Rightarrow> bool" where
  "all_is_well h w =
    (all_acked w @ map pe_payload (ew_buffer w) = h \<and> \<not> ew_delivery_stopped w \<and> \<not> ew_unreported_failure w \<and>
     0 < batch_size w \<and> list_all fst (ew_reports w))"

lemma flush_well:
  assumes "all_is_well h w" and "accepting_worker w env"
  shows "\<exists>w' c'. flush env (w, c) = (outcome_delivered, w', c') \<and> all_is_well h w' \<and> ew_buffer w' = [] \<and>
    ew_client w' = ew_client w \<and> ew_config w' = ew_config w"
proof -
  obtain c' where "flush env (w, c) =
      (outcome_delivered, w\<lparr>ew_acked := ew_acked w @ map pe_payload (ew_buffer w), ew_buffer := []\<rparr>, c')"
    using flush_accepted [OF assms(2), of c] assms(1) by (auto simp: all_is_well_def)
  with assms(1) show ?thesis by (simp add: all_is_well_def all_acked_def batch_size_def)
qed

lemma remember_delivered [simp]: "remember_delivery_failure outcome_delivered w = w"
  by (simp add: remember_delivery_failure_def outcome_delivered_def)

lemma process_well:
  assumes "all_is_well h w" and "accepting_worker w env" and "process msg env (w, c) = (keep, reply, w', c')"
  shows "keep \<and> all_is_well (h @ round_payloads (t, SelMessage msg env)) w' \<and>
    ew_client w' = ew_client w \<and> ew_config w' = ew_config w"
  using assms(3)
proof (cases rule: process_cases)
  case (dropped e a c1)
  with assms(1) show ?thesis by (simp add: all_is_well_def)
next
  case (buffered e a)
  with assms(1) show ?thesis by (auto simp: all_is_well_def all_acked_def buffering_def batch_size_def)
next
  case (batch e a c1 outcome w1)
  have "all_is_well (h @ [pe_payload e]) (buffering e a w)"
    using assms(1) by (auto simp: all_is_well_def all_acked_def buffering_def batch_size_def)
  moreover have "accepting_worker (buffering e a w) env" using assms(2) by (simp add: buffering_def)
  ultimately show ?thesis
    using flush_well [of "h @ [pe_payload e]" "buffering e a w" env c1] batch
    by (auto simp: buffering_def) (simp_all add: outcome_delivered_def)
next
  case (flushed has_reply outcome w1)
  with flush_well [OF assms(1,2), of c] show ?thesis
    by (auto simp: answered_def all_is_well_def all_acked_def batch_size_def outcome_delivered_def)
qed

lemma round_well:
  assumes "all_is_well h w" and "cooperative (ew_client w) (wc_max_attempts (ew_config w)) r"
  shows "\<exists>closing' w' c'. worker_round (fst r) (snd r) closing (w, c) = (WorkerGoesOn closing', w', c') \<and>
    all_is_well (h @ round_payloads r) w' \<and> ew_client w' = ew_client w \<and> ew_config w' = ew_config w"
proof -
  obtain t sel where r: "r = (t, sel)" by fastforce
  from assms(2) r have t: "t = TryEmpty \<or> t = TryMessage Graceful" by simp
  show ?thesis
  proof (cases sel)
    case (SelShutdown s)
    with assms r t show ?thesis by (auto simp: worker_round_def)
  next
    case (SelMessage msg env)
    with assms(2) r have "accepting_worker w env" by simp
    obtain keep reply w' c' where p: "process msg env (w, c) = (keep, reply, w', c')" by (metis prod_cases4)
    with process_well [OF assms(1) \<open>accepting_worker w env\<close> p, of t] t show ?thesis by (auto simp: worker_round_def r SelMessage Let_def)
  next
    case (SelReceiverClosed env)
    with assms(2) r show ?thesis by simp
  next
    case (SelDefault env)
    with assms(2) r have "accepting_worker w env" by simp
    from flush_well [OF assms(1) this, of c] obtain w' c' where
      "flush env (w, c) = (outcome_delivered, w', c')" "all_is_well h w'"
      "ew_client w' = ew_client w" "ew_config w' = ew_config w" by blast
    with t assms(1) show ?thesis
      by (auto simp: worker_round_def r SelDefault Let_def outcome_delivered_def remember_delivery_failure_def)
  qed
qed

text \<open>
  C13. A clean shutdown loses nothing: when every batch is accepted within its attempts and the
  worker ends because the channel is closed and empty, every payload it took from the channel
  has been acknowledged, exactly once and in order, whatever flushes, timers and graceful
  shutdown signals came in between, and every flush was answered with true.
\<close>

theorem clean_shutdown_delivers_everything:
  assumes "0 < unat (wc_max_events_per_request cfg)"
    and "list_all (cooperative client (wc_max_attempts cfg)) rounds"
    and "accepted_batches client (wc_max_attempts cfg) env"
    and "t \<in> {TryEmpty, TryMessage Graceful}"
  shows "case worker_run (rounds @ [(t, SelReceiverClosed env)]) closing (event_worker_new cfg client stopped, c) of
    (ending, w, c') \<Rightarrow> ending = WorkerEnds \<and> all_acked w = concat (map round_payloads rounds) \<and>
      ew_buffer w = [] \<and> list_all fst (ew_reports w)"
proof -
  have main: "case worker_run (rounds @ [(t, SelReceiverClosed env)]) closing (w, c) of
      (ending, w', c') \<Rightarrow> ending = WorkerEnds \<and> all_acked w' = h @ concat (map round_payloads rounds) \<and>
        ew_buffer w' = [] \<and> list_all fst (ew_reports w')"
    if "all_is_well h w" "ew_client w = client" "ew_config w = cfg" for h closing w c
    using that assms(2)
  proof (induction rounds arbitrary: h closing w c)
    case Nil
    with flush_well [of h w env c] assms(3) obtain w' c' where
      "flush env (w, c) = (outcome_delivered, w', c')" "all_is_well h w'" "ew_buffer w' = []" by auto
    with assms(4) show ?case by (auto simp: worker_round_def all_is_well_def Let_def)
  next
    case (Cons r rounds)
    obtain closing' w' c' where r: "worker_round (fst r) (snd r) closing (w, c) = (WorkerGoesOn closing', w', c')"
      "all_is_well (h @ round_payloads r) w'" "ew_client w' = client" "ew_config w' = cfg"
      using round_well [of h w r closing c] Cons.prems by auto
    with Cons.IH [OF r(2-4), of closing' c'] Cons.prems show ?case
      by (cases r) simp
  qed
  have "all_is_well [] (event_worker_new cfg client stopped)"
    using assms(1) by (simp add: all_is_well_def all_acked_def event_worker_new_def batch_size_def)
  from main [OF this] have "case worker_run (rounds @ [(t, SelReceiverClosed env)]) closing
        (event_worker_new cfg client stopped, c) of
      (ending, w', c') \<Rightarrow> ending = WorkerEnds \<and> all_acked w' = [] @ concat (map round_payloads rounds) \<and>
        ew_buffer w' = [] \<and> list_all fst (ew_reports w')"
    by (simp only: event_worker_new_def event_worker.select_convs)
  then show ?thesis by simp
qed

section \<open>Witnesses\<close>

abbreviation sample_worker :: "unit event_worker" where
  "sample_worker \<equiv> event_worker_new sample_config sample_client False"

text \<open>The sample worker takes one event from the channel and then delivers it for a flush.\<close>

lemma sample_takes:
  "\<exists>w c'. process (PayloadMsg e) sample_deliveries (sample_worker, c) = (True, None, w, c') \<and>
    (\<exists>e'. pe_payload e' = pe_payload e \<and> w = sample_worker\<lparr>ew_taken := [pe_payload e], ew_buffer := [e']\<rparr>)"
proof -
  obtain a c1 where "mark_dequeued (pe_admission e) c = (a, c1)" by fastforce
  then show ?thesis
    by (auto simp: process_def event_worker_new_def sample_config_def Let_def intro: exI [of _ "e\<lparr>pe_admission := a\<rparr>"])
qed

lemma sample_delivers:
  assumes "w = sample_worker\<lparr>ew_taken := [pe_payload e], ew_buffer := [e]\<rparr>"
  shows "\<exists>w' c'. process (FlushMsg True) sample_deliveries (w, c) = (True, Some True, w', c') \<and>
    ew_reports w' = [(True, [pe_payload e], [pe_payload e])]"
proof -
  have "deliver_events [e] sample_deliveries w = (outcome_delivered, w\<lparr>ew_acked := [pe_payload e]\<rparr>)"
    by (simp add: deliver_events_def sample_chunks serialize_events_def sample_send assms event_worker_new_def
        sample_config_def outcome_delivered_def) (simp add: sample_deliveries_def)
  then have "flush sample_deliveries (w, c) =
      (outcome_delivered, w\<lparr>ew_acked := [pe_payload e], ew_buffer := []\<rparr>, drop_events [e] c)"
    by (simp add: flush_def) (simp add: assms event_worker_new_def)
  then show ?thesis
    by (simp add: process_def Let_def outcome_delivered_def) (simp add: assms event_worker_new_def)
qed

text \<open>One event is recorded, flushed and acknowledged.\<close>

lemma sample_delivered_run:
  obtains opts :: "(str, unit) fb_options" and p0 h p and w :: "unit event_worker"
  where "event_processor_new opts None = Active p0" "recorded_run (p0, sample_worker) h (p, w)"
    "ew_reports w = [(True, [pe_payload sample_event], [pe_payload sample_event])]"
proof -
  obtain opts where b: "build sample_crates sample_url_crate (options_builder_new ''abc='' :: unit fb_options_builder) = Inr opts"
    by (rule sample_options)
  note opts = sample_built(3,4,6,7) [OF b]
  obtain p0 where p0: "event_processor_new opts None = Active p0" by (rule processor_online [OF opts(1,2)])
  define payload where "payload = pe_payload sample_event"
  obtain e p1 where rec: "record_inner False 7 payload p0 = (True, p1)" and q1: "pr_queue p1 = [PayloadMsg e]"
    and e: "pe_payload e = payload" and alive: "pr_receiver_alive p1"
  proof (cases rule: record_inner_cases [of False 7 payload p0])
    case (refused p')
    moreover have "fst (record_inner False 7 payload p0)"
      using p0 opts by (auto simp: event_processor_new_def worker_spawn_def record_inner_def queue_full_def try_reserve_def
          capacity_new_def counter_next_def checked_add_def usize_max_def channel_try_send_def
          DEFAULT_MAX_EVENT_QUEUE_SIZE_BYTES_def Let_def)
    ultimately show thesis by simp
  next
    case (accepted a c)
    moreover have "pr_queue p0 = []" using p0 by (auto simp: event_processor_new_def worker_spawn_def split: if_splits)
    ultimately show thesis using that [OF accepted(1), of "\<lparr>pe_payload = payload, pe_admission = a\<rparr>"] by simp
  qed
  obtain w1 c1 e' where take: "process (PayloadMsg e) sample_deliveries (sample_worker, pr_capacity p1) = (True, None, w1, c1)"
    and w1: "pe_payload e' = payload" "w1 = sample_worker\<lparr>ew_taken := [pe_payload e'], ew_buffer := [e']\<rparr>"
    using sample_takes [of e "pr_capacity p1"] e by auto
  define p2 where "p2 = p1\<lparr>pr_queue := [], pr_capacity := c1, pr_delivery_stopped := ew_shared_stopped w1\<rparr>"
  define p3 where "p3 = p2\<lparr>pr_queue := [FlushMsg True]\<rparr>"
  obtain w2 c2 where answer: "process (FlushMsg True) sample_deliveries (w1, pr_capacity p3) = (True, Some True, w2, c2)"
    and w2: "ew_reports w2 = [(True, [payload], [payload])]"
    using sample_delivers [OF w1(2), of "pr_capacity p3"] w1(1) by auto
  define p4 where "p4 = p3\<lparr>pr_queue := [], pr_capacity := c2, pr_delivery_stopped := ew_shared_stopped w2\<rparr>"
  have "event_step (p0, sample_worker) (p1, sample_worker)" by (rule step_record [OF rec])
  moreover have "event_step (p1, sample_worker) (p2, w1)" unfolding p2_def by (rule step_process [OF q1 take])
  moreover have "event_step (p2, w1) (p3, w1)"
    unfolding p3_def using step_flush [of p2 w1 True] alive by (simp add: p2_def)
  moreover have "event_step (p3, w1) (p4, w2)" unfolding p4_def
    by (rule step_process [OF _ answer]) (simp add: p3_def)
  ultimately obtain h where "recorded_run (p0, sample_worker) h (p4, w2)"
    by (meson recorded_run.intros)
  with p0 w2 show thesis by (intro that [of opts p0 h p4 w2]) (simp_all add: payload_def)
qed

lemma sample_batch: "0 < unat (wc_max_events_per_request sample_config)"
  by (simp add: sample_config_def)

theorem flush_answers_cover_recorded_events_witness:
  "\<exists>(opts :: (str, unit) fb_options) p0 h p w. event_processor_new opts None = Active p0 \<and>
    recorded_run (p0, sample_worker) h (p, w) \<and> 0 < length (groups h) \<and> groups h ! 0 = [pe_payload sample_event]"
proof (rule sample_delivered_run)
  fix opts :: "(str, unit) fb_options" and p0 h p and w :: "unit event_worker"
  assume r: "event_processor_new opts None = Active p0" "recorded_run (p0, sample_worker) h (p, w)"
    "ew_reports w = [(True, [pe_payload sample_event], [pe_payload sample_event])]"
  then have "0 < length (groups h) \<and> groups h ! 0 = [pe_payload sample_event]"
    using flush_answers_cover_recorded_events [OF r(1) sample_batch r(2), of 0 True] by simp
  with r(1,2) show ?thesis by blast
qed

theorem events_are_delivered_at_most_once_witness:
  "\<exists>(opts :: (str, unit) fb_options) p0 h p w. event_processor_new opts None = Active p0 \<and>
    recorded_run (p0, sample_worker) h (p, w) \<and> all_acked w \<noteq> [] \<and> subseq (all_acked w) (payloads h)"
proof (rule sample_delivered_run)
  fix opts :: "(str, unit) fb_options" and p0 h p and w :: "unit event_worker"
  assume r: "event_processor_new opts None = Active p0" "recorded_run (p0, sample_worker) h (p, w)"
    "ew_reports w = [(True, [pe_payload sample_event], [pe_payload sample_event])]"
  then have "all_acked w \<noteq> []" by (simp add: all_acked_def)
  with events_are_delivered_at_most_once [OF r(1) sample_batch r(2)] r(1,2) show ?thesis by blast
qed

theorem clean_shutdown_delivers_everything_witness:
  "\<exists>(w :: unit event_worker) c'. worker_run (sample_rounds @ [(TryEmpty, SelReceiverClosed sample_deliveries)]) False
      (sample_worker, capacity_new 5 100) = (WorkerEnds, w, c') \<and> all_acked w = [pe_payload sample_event]"
proof -
  have acc: "accepted_batches sample_client (wc_max_attempts sample_config) sample_deliveries"
    using sample_send by (simp add: accepted_batches_def sample_config_def sample_deliveries_def)
  have rounds: "list_all (cooperative sample_client (wc_max_attempts sample_config)) sample_rounds"
    using acc by (simp add: sample_rounds_def)
  from clean_shutdown_delivers_everything [OF sample_batch rounds acc, of TryEmpty False False "capacity_new 5 100"]
  show ?thesis by (auto simp: sample_rounds_def split: prod.splits)
qed

end
