(* ===== verification/System.thy ===== *)
theory System
  imports Client_Spec Delivery
begin

text \<open>
  The whole of it: the client with its synchronizer and its application threads on one side of
  the channel, and one event worker with the server's acknowledgements on the other. Every
  action of the client is, for the channel, an event step or nothing, so what \<open>Delivery\<close> proves
  of the channel holds of the client's events, and the consent that the client asks for
  recording reaches the server.
\<close>

section \<open>Steps\<close>

inductive system_step ::
  "'r crates \<Rightarrow> ('u, 'o, 'r) client \<times> 'u event_worker \<Rightarrow> ('u, 'o, 'r) client \<times> 'u event_worker \<Rightarrow> bool" for x where
  sys_client: "client_action x c c' \<Longrightarrow> system_step x (c, w) (c', w)"
| sys_worker: "cl_event_processor c = Active p \<Longrightarrow> worker_step (p, w) (p', w') \<Longrightarrow>
    system_step x (c, w) (c\<lparr>cl_event_processor := Active p'\<rparr>, w')"

definition client_queue :: "('u, 'o, 'r) client \<Rightarrow> event_message list" where
  "client_queue c = (case cl_event_processor c of Disabled \<Rightarrow> [] | Active p \<Rightarrow> pr_queue p)"

text \<open>A run, with the messages that have entered the channel.\<close>

inductive system_run ::
  "'r crates \<Rightarrow> ('u, 'o, 'r) client \<times> 'u event_worker \<Rightarrow> event_message list \<Rightarrow>
    ('u, 'o, 'r) client \<times> 'u event_worker \<Rightarrow> bool" for x and s0 where
  system_start: "system_run x s0 [] s0"
| system_next: "system_run x s0 h s \<Longrightarrow> system_step x s s' \<Longrightarrow>
    system_run x s0 (h @ drop (length (client_queue (fst s))) (client_queue (fst s'))) s'"

lemma system_run_client: "system_run x s0 h s \<Longrightarrow> client_steps x (fst s0) (fst s)"
proof (induction rule: system_run.induct)
  case (system_next h s s')
  from system_next.hyps(2) have "client_step x (fst s) (fst s')"
    by cases (auto intro: step_action step_worker)
  with system_next.IH show ?case by (rule rtranclp.rtrancl_into_rtrancl)
qed simp

section \<open>Consent\<close>

text \<open>
  What the options allow to be recorded: an evaluation needs automatic events or tracking, a
  metric needs tracking, and either needs a user with a key.
\<close>

fun permitted :: "('u, 'o) fb_options \<Rightarrow> payload_event \<Rightarrow> bool" where
  "permitted opts (Evaluation p) =
    (eu_key_id (ep_user p) \<noteq> [] \<and> (opt_allow_track opts \<or> \<not> opt_disable_events opts))"
| "permitted opts (MetricEvent p) = (eu_key_id (mp_user p) \<noteq> [] \<and> opt_allow_track opts)"

text \<open>An action of the client on the channel: none, or an event step that adds what is permitted.\<close>

definition channel_action ::
  "('u, 'o) fb_options \<Rightarrow> 'u event_worker \<Rightarrow> event_processor_inner \<Rightarrow> event_processor_inner \<Rightarrow> bool" where
  "channel_action opts w p p' =
    ((p' = p \<or> event_step (p, w) (p', w)) \<and> list_all (permitted opts) (payloads (new_messages (p, w) (p', w))))"

lemma channel_action_none [simp]: "channel_action opts w p p"
  by (simp add: channel_action_def new_messages_def)

lemma record_inner_action:
  assumes "permitted opts payload"
  shows "channel_action opts w p (snd (record_inner raced n payload p))"
proof -
  have step: "event_step (p, w) (snd (record_inner raced n payload p), w)" by (rule step_record) (rule surjective_pairing)
  then show ?thesis
    using assms by (cases rule: record_inner_cases [of raced n payload p]) (auto simp: channel_action_def new_messages_def)
qed

lemma record_event_action:
  assumes "permitted opts payload"
  shows "\<exists>p'. snd (record_event raced n payload (Active p)) = Active p' \<and> channel_action opts w p p'"
  using record_inner_action [OF assms, of w p raced n] by (simp add: record_event_def case_prod_beta)

lemma record_evaluation_action:
  assumes "opt_allow_track opts \<or> \<not> opt_disable_events opts"
  shows "\<exists>p'. snd (record_evaluation ly raced u e (Active p)) = Active p' \<and> channel_action opts w p p'"
proof (cases "u_key u = []")
  case False
  with assms have "permitted opts (payload_evaluation_at u k i v t)" for k i v t
    by (simp add: payload_evaluation_at_def event_user_from_def)
  from record_event_action [OF this] show ?thesis
    by (simp add: record_evaluation_def record_evaluation_at_def)
qed (simp add: record_evaluation_def record_evaluation_at_def)

lemma record_metric_action:
  assumes "opt_allow_track opts"
  shows "\<exists>p'. snd (record_metric ly raced u name v now (Active p)) = Active p' \<and> channel_action opts w p p'"
proof (cases "u_key u = []")
  case False
  with assms have "permitted opts (payload_metric u name v now)"
    by (simp add: payload_metric_def event_user_from_def)
  from record_event_action [OF this] show ?thesis by (simp add: record_metric_def)
qed (simp add: record_metric_def)

lemma flush_message_action: "pr_receiver_alive p \<Longrightarrow> channel_action opts w p (p\<lparr>pr_queue := pr_queue p @ [FlushMsg b]\<rparr>)"
  using step_flush [of p w b] by (simp add: channel_action_def new_messages_def)

lemma flush_action:
  "\<exists>p'. processor_flush raced (Active p) = Active p' \<and> channel_action opts w p p'"
  "\<exists>p'. snd (flush_and_wait sent reply (Active p)) = Active p' \<and> channel_action opts w p p'"
  using flush_message_action [of p opts w]
  by (auto simp: processor_flush_def flush_and_wait_def channel_try_send_def)

lemma close_action: "\<exists>p'. snd (processor_close e1 e2 (Active p)) = Active p' \<and> channel_action opts w p p'"
proof -
  obtain ds p' where "inner_close e1 e2 p = (ds, p')" by fastforce
  with step_close [OF this, of w] inner_close_simps [OF this] show ?thesis
    by (simp add: processor_close_def channel_action_def new_messages_def)
qed

section \<open>The client acts on the channel\<close>

lemma client_action_channel:
  assumes "client_action x c c'" and "cl_event_processor c = Active p"
  shows "\<exists>p'. cl_event_processor c' = Active p' \<and> channel_action (cl_options c) w p p'"
  using assms(1)
proof cases
  case (act_evaluate env key u r)
  with evaluate_raw_core [OF this] assms(2) show ?thesis by simp
next
  case (act_complete env u raw)
  with assms(2) record_evaluation_action [of "cl_options c" "ee_layout env" "ee_raced env" u "raw_event raw" p w] show ?thesis
    by (auto simp: complete_raw_evaluation_def complete_captured_simp)
next
  case (act_track_event env u event b)
  with assms(2) record_evaluation_action [of "cl_options c" "ee_layout env" "ee_raced env" u event p w] show ?thesis
    by (auto simp: track_eval_event_def tracking_available_def with_processor_def split: if_splits)
next
  case (act_track_flag env u key b)
  with assms(2) record_evaluation_action [of "cl_options c" "ee_layout env" "ee_raced env" u _ p w] show ?thesis
    by (auto simp: track_eval_event_for_flag_def tracking_available_def with_processor_def Let_def
        split: if_splits sum.splits)
next
  case (act_track_metric env u name v b)
  with assms(2) record_metric_action [of "cl_options c" "ee_layout env" "ee_raced env" u name v "unix_millis (ee_now env)" p w]
  show ?thesis
    by (auto simp: track_metric_event_def tracking_available_def with_processor_def split: if_splits)
next
  case (act_flush raced)
  with assms(2) flush_action(1) [of raced p "cl_options c" w] show ?thesis by (simp add: client_flush_def)
next
  case (act_flush_wait sent reply b)
  with assms(2) flush_action(2) [of sent reply p "cl_options c" w] show ?thesis
    by (auto simp: client_flush_and_wait_def with_processor_def)
next
  case (act_close_events e1 e2)
  with assms(2) close_action [of e1 e2 p "cl_options c" w] show ?thesis by (simp add: close_events_def)
qed (use assms(2) in \<open>simp_all add: close_flag_def\<close>)

lemma client_action_options: "client_action x c c' \<Longrightarrow> cl_options c' = cl_options c"
  using core_action [of x c c'] by (auto simp: same_core_def close_flag_def close_events_def)

lemma client_action_disabled:
  "client_action x c c' \<Longrightarrow> cl_event_processor c = Disabled \<Longrightarrow> cl_event_processor c' = Disabled"
  using core_action [of x c c']
  by (auto simp: close_flag_def close_events_def processor_close_gate dest: same_gate_disabled)

lemma worker_step_new: "worker_step s s' \<Longrightarrow> new_messages s s' = []"
  by (cases rule: worker_step.cases) (auto simp: new_messages_def)

lemma system_step_channel:
  assumes "system_step x (c, w) (c', w')" and "cl_event_processor c = Active p"
  shows "\<exists>p'. cl_event_processor c' = Active p' \<and> cl_options c' = cl_options c \<and>
    (p' = p \<and> w' = w \<or> event_step (p, w) (p', w')) \<and>
    list_all (permitted (cl_options c)) (payloads (new_messages (p, w) (p', w')))"
  using assms(1)
proof cases
  case sys_client
  with client_action_channel [OF _ assms(2), of x c' w] client_action_options [of x c c'] show ?thesis
    by (auto simp: channel_action_def)
next
  case (sys_worker q q')
  with assms(2) worker_step_new [of "(p, w)" "(q', w')"] step_work [of "(p, w)" "(q', w')"] show ?thesis by simp
qed

lemma system_run_channel:
  assumes "system_run x (c0, w0) h (c, w)" and "cl_event_processor c0 = Active p0"
  shows "\<exists>p. cl_event_processor c = Active p \<and> cl_options c = cl_options c0 \<and> recorded_run (p0, w0) h (p, w) \<and>
    list_all (permitted (cl_options c0)) (payloads h)"
  using assms(1)
proof (induction "(c, w)" arbitrary: c w rule: system_run.induct)
  case system_start
  with assms(2) show ?case by (auto intro: run_start)
next
  case (system_next h s)
  obtain c1 w1 where s: "s = (c1, w1)" by fastforce
  from system_next.hyps(2) [OF s] obtain p where p: "cl_event_processor c1 = Active p" "cl_options c1 = cl_options c0"
    "recorded_run (p0, w0) h (p, w1)" "list_all (permitted (cl_options c0)) (payloads h)" by blast
  from system_step_channel [OF system_next.hyps(3) [unfolded s] p(1)] obtain p' where
    p': "cl_event_processor c = Active p'" "cl_options c = cl_options c1"
      "p' = p \<and> w = w1 \<or> event_step (p, w1) (p', w)"
      "list_all (permitted (cl_options c0)) (payloads (new_messages (p, w1) (p', w)))"
    unfolding p(2) by blast
  have new: "drop (length (client_queue c1)) (client_queue c) = new_messages (p, w1) (p', w)"
    by (simp add: client_queue_def p(1) p'(1) new_messages_def)
  from p'(3) have "recorded_run (p0, w0) (h @ new_messages (p, w1) (p', w)) (p', w)"
  proof
    assume "p' = p \<and> w = w1"
    with p(3) show ?thesis by (simp add: new_messages_def)
  qed (rule run_step [OF p(3)])
  with p p' show ?case by (simp add: s new)
qed

lemma system_run_disabled:
  assumes "system_run x (c0, w0) h (c, w)" and "cl_event_processor c0 = Disabled"
  shows "cl_event_processor c = Disabled \<and> h = [] \<and> w = w0"
  using assms(1)
proof (induction "(c, w)" arbitrary: c w rule: system_run.induct)
  case (system_next h s)
  obtain c1 w1 where s: "s = (c1, w1)" by fastforce
  from system_next.hyps(2) [OF s] have IH: "cl_event_processor c1 = Disabled" "h = []" "w1 = w0" by simp_all
  from system_next.hyps(3) [unfolded s] have "cl_event_processor c = Disabled \<and> w = w1"
    by cases (use IH client_action_disabled in auto)
  with IH show ?case by (simp add: s client_queue_def)
qed (use assms(2) in simp)

section \<open>Properties\<close>

text \<open>
  C12. What the server gets, across the whole system: with options that \<open>build\<close> accepted, in
  whatever order application threads, synchronizer, closes and the worker act and whatever
  fails, the payloads acknowledged are a subsequence of those the client recorded, and each of
  them was allowed by the options and belongs to a user with a key; offline there are none.
\<close>

theorem server_sees_recorded_consented_events:
  assumes "build x uc b = Inr opts"
    and "system_run x (with_options x err1 err2 opts, event_worker_new (worker_config_from_options uc opts) http stopped) h (c, w)"
  shows "subseq (all_acked w) (payloads h) \<and> list_all (permitted opts) (all_acked w) \<and>
    (if opt_offline opts then all_acked w = [] else True)"
proof (cases "cl_event_processor (with_options x err1 err2 opts)")
  case Disabled
  from system_run_disabled [OF assms(2) this] show ?thesis by (simp add: all_acked_def event_worker_new_def)
next
  case (Active p0)
  have opts: "cl_options (with_options x err1 err2 opts) = opts" by (simp add: with_options_def Let_def case_prod_beta)
  have new: "event_processor_new opts err1 = Active p0" using Active by (simp add: with_options_def Let_def case_prod_beta)
  then have new: "event_processor_new opts None = Active p0" and online: "\<not> opt_offline opts"
    by (auto simp: event_processor_new_def worker_spawn_def split: if_splits option.splits)
  have batch: "0 < unat (wc_max_events_per_request (worker_config_from_options uc opts))"
    using build_options_ok [OF assms(1)] by (auto simp: options_ok_def Validation.capacity_ok_def worker_config_from_options_def)
  from system_run_channel [OF assms(2) Active, unfolded opts] obtain p where
    run: "recorded_run (p0, event_worker_new (worker_config_from_options uc opts) http stopped) h (p, w)"
    and ok: "list_all (permitted opts) (payloads h)" by blast
  from events_are_delivered_at_most_once [OF new batch run] have "subseq (all_acked w) (payloads h)" .
  moreover from this ok have "list_all (permitted opts) (all_acked w)"
    by (auto simp: list_all_iff dest: list_emb_set)
  ultimately show ?thesis using online by simp
qed

section \<open>Witness\<close>

text \<open>A worker that takes one event and then a flush message has the event acknowledged.\<close>

lemma acked_one:
  assumes "all_is_well [] w" and "accepting_worker w env"
    and "process (PayloadMsg e) env (w, c) = (k1, r1, w1, c1)" and "process (FlushMsg True) env (w1, c2) = (k2, r2, w2, c3)"
  shows "all_acked w2 = [pe_payload e]"
proof -
  from process_well [OF assms(1-3), of TryEmpty] have w1: "all_is_well [pe_payload e] w1" "accepting_worker w1 env"
    using assms(2) by simp_all
  from process_well [OF this assms(4), of TryEmpty] have "kept w2 = [pe_payload e]" by (simp add: all_is_well_def)
  moreover have "ew_buffer w2 = []"
    using assms(4) w1(1)
    by (cases rule: process_cases) (auto simp: answered_def all_is_well_def dest: flush_effect)
  ultimately show ?thesis by simp
qed

text \<open>A successful recording only charges the capacity and appends the event.\<close>

lemma record_evaluation_done:
  assumes "fst (record_evaluation ly raced u e (Active p))"
  shows "\<exists>a c. record_evaluation ly raced u e (Active p) = (True, Active
    (p\<lparr>pr_capacity := c, pr_queue := pr_queue p @ [PayloadMsg a], pr_capacity_exceeded := False\<rparr>)) \<and> pr_receiver_alive p"
proof -
  have event: "\<exists>a c. record_event raced n payload (Active p) = (True, Active
      (p\<lparr>pr_capacity := c, pr_queue := pr_queue p @ [PayloadMsg a], pr_capacity_exceeded := False\<rparr>)) \<and> pr_receiver_alive p"
    if "fst (record_event raced n payload (Active p))" for n payload
    using that by (cases rule: record_inner_cases [of raced n payload p]) (auto simp: record_event_def)
  from assms show ?thesis
    by (auto simp: record_evaluation_def record_evaluation_at_def split: if_splits dest!: event)
qed

definition sample_user_event :: fb_evaluation_event where
  "sample_user_event = evaluation_event_at ''f'' ''v'' ''true'' 0 True"

lemma sample_recorded:
  assumes "event_processor_new (opts :: (str, unit) fb_options) None = Active p0" and "\<not> opt_offline opts" "opt_allow_track opts"
    and "opt_max_events_in_queue opts = 10000" "opt_max_event_queue_size_bytes opts = DEFAULT_MAX_EVENT_QUEUE_SIZE_BYTES"
  obtains e a where "record_evaluation sample_layout False sample_user sample_user_event (Active p0) =
    (True, Active (p0\<lparr>pr_capacity := a, pr_queue := [PayloadMsg e], pr_capacity_exceeded := False\<rparr>))"
    "\<not> pr_closed p0" "pr_has_sender p0" "pr_receiver_alive p0" "\<not> pr_delivery_stopped p0"
proof -
  have "fst (record_evaluation sample_layout False sample_user sample_user_event (Active p0))"
    using assms
    by (auto simp: record_evaluation_def sample_user_event_def evaluation_event_at_def record_evaluation_at_def
        sample_not_blank is_accepting_def record_event_def event_processor_new_def worker_spawn_def record_inner_def
        queue_full_def sample_layout_def estimated_evaluation_size_def estimated_user_size_def sample_user_def usize_len_def
        saturating_add_def saturating_mul_def usize_max_def try_reserve_def capacity_new_def counter_next_def
        checked_add_def channel_try_send_def DEFAULT_MAX_EVENT_QUEUE_SIZE_BYTES_def Let_def)
  from record_evaluation_done [OF this] obtain e a where
    "record_evaluation sample_layout False sample_user sample_user_event (Active p0) =
      (True, Active (p0\<lparr>pr_capacity := a, pr_queue := pr_queue p0 @ [PayloadMsg e], pr_capacity_exceeded := False\<rparr>))" by blast
  moreover have "pr_queue p0 = []" "\<not> pr_closed p0" "pr_has_sender p0" "pr_receiver_alive p0" "\<not> pr_delivery_stopped p0"
    using assms(1) by (auto simp: event_processor_new_def worker_spawn_def split: if_splits)
  ultimately show thesis by (auto intro: that)
qed

theorem server_sees_recorded_consented_events_witness:
  "\<exists>(opts :: (str, unit) fb_options) h c w.
    system_run sample_crates (with_options sample_crates None None opts,
      event_worker_new (worker_config_from_options sample_url_crate opts) sample_client False) h (c, w) \<and>
    all_acked w \<noteq> [] \<and> subseq (all_acked w) (payloads h) \<and> list_all (permitted opts) (all_acked w)"
proof -
  obtain opts where b: "build sample_crates sample_url_crate (options_builder_new ''abc='' :: unit fb_options_builder) = Inr opts"
    by (rule sample_options)
  note opts = sample_built [OF b]
  define c0 :: "(str, unit, unit) client" where "c0 = with_options sample_crates None None opts"
  define w0 where "w0 = event_worker_new (worker_config_from_options sample_url_crate opts) sample_client False"
  obtain p0 where p0: "event_processor_new opts None = Active p0" by (rule processor_online [OF opts(3,4)])
  have c0: "cl_event_processor c0 = Active p0" "cl_options c0 = opts" "\<not> cl_closed c0"
    "tracker_status (cl_status c0) \<noteq> Closed"
    using opts p0 by (simp_all add: c0_def with_options_def synchronizer_start_def worker_spawn_def Let_def)
  from sample_recorded [OF p0] opts obtain e a0 where
    track: "record_evaluation sample_layout False sample_user sample_user_event (Active p0) =
      (True, Active (p0\<lparr>pr_capacity := a0, pr_queue := [PayloadMsg e], pr_capacity_exceeded := False\<rparr>))"
    and gate: "\<not> pr_closed p0" "pr_has_sender p0" "pr_receiver_alive p0" "\<not> pr_delivery_stopped p0" by blast
  define p1 where "p1 = p0\<lparr>pr_capacity := a0, pr_queue := [PayloadMsg e], pr_capacity_exceeded := False\<rparr>"
  have "track_eval_event sample_env sample_user sample_user_event c0 = (True, c0\<lparr>cl_event_processor := Active p1\<rparr>)"
    using c0 opts gate track
    by (simp add: track_eval_event_def tracking_available_def with_processor_def sample_env_def p1_def is_accepting_def)
  note track = sys_client [OF act_track_event [OF this]]
  obtain k1 r1 w1 a1 where take: "process (PayloadMsg e) sample_deliveries (w0, pr_capacity p1) = (k1, r1, w1, a1)"
    by (metis prod_cases4)
  define p2 where "p2 = p1\<lparr>pr_queue := [], pr_capacity := a1, pr_delivery_stopped := ew_shared_stopped w1\<rparr>"
  define p3 where "p3 = p2\<lparr>pr_queue := [FlushMsg True]\<rparr>"
  have "client_flush_and_wait True None (c0\<lparr>cl_event_processor := Active p2\<rparr>) = (False, c0\<lparr>cl_event_processor := Active p3\<rparr>)"
    using gate by (simp add: client_flush_and_wait_def with_processor_def flush_and_wait_def p3_def p2_def p1_def)
  note wait = sys_client [OF act_flush_wait [OF this]]
  obtain k2 r2 w2 a2 where answer: "process (FlushMsg True) sample_deliveries (w1, pr_capacity p3) = (k2, r2, w2, a2)"
    by (metis prod_cases4)
  have "system_step sample_crates (c0\<lparr>cl_event_processor := Active p1\<rparr>, w0) (c0\<lparr>cl_event_processor := Active p2\<rparr>, w1)"
    using sys_worker [OF _ work_process [OF _ take], of "c0\<lparr>cl_event_processor := Active p1\<rparr>" "[]"] by (simp add: p2_def p1_def)
  moreover obtain c4 where "system_step sample_crates (c0\<lparr>cl_event_processor := Active p3\<rparr>, w1) (c4, w2)"
    using sys_worker [OF _ work_process [OF _ answer], of "c0\<lparr>cl_event_processor := Active p3\<rparr>" "[]"] by (fastforce simp: p3_def)
  ultimately obtain h where run: "system_run sample_crates (c0, w0) h (c4, w2)"
    using track wait by (meson system_run.intros)
  have "all_is_well [] w0" "accepting_worker w0 sample_deliveries"
    using opts sample_send
    by (simp_all add: w0_def all_is_well_def all_acked_def event_worker_new_def batch_size_def worker_config_from_options_def
        accepted_batches_def) (simp add: sample_deliveries_def)
  from acked_one [OF this take answer] have "all_acked w2 \<noteq> []" by simp
  with run server_sees_recorded_consented_events [OF b run [unfolded c0_def w0_def]] show ?thesis
    unfolding c0_def w0_def by blast
qed

end
