(* ===== verification/Boundaries.thy ===== *)
theory Boundaries
  imports Client_Properties Delivery
begin

text \<open>
  Where the guarantees end: behaviours of the code at the edge of what the properties assume,
  each stated exactly. They show that a hypothesis is needed or that a documented promise has
  to be read narrowly.
\<close>

section \<open>Messages before the answer\<close>

text \<open>
  The code relies on a session beginning with the answer to the request. A change pushed before it raises the
  version of the store, and when the connection ends there, the next request asks only for what
  is newer than the push: what the client missed before is never sent again, although the store
  is called ready.
\<close>

definition flag_named :: "str \<Rightarrow> int \<Rightarrow> feature_flag" where
  "flag_named k v = sample_flag v True\<lparr>ff_key := k\<rparr>"

definition flags_patch :: "feature_flag list \<Rightarrow> data_set" where
  "flags_patch fs = \<lparr>ds_event_type = ''patch'', ds_feature_flags = fs, ds_segments = []\<rparr>"

lemma flag_named_simps [simp]: "ff_key (flag_named k v) = k" "ff_updated_at (flag_named k v) = v"
  by (simp_all add: flag_named_def sample_flag_def)

theorem early_push_leaves_gap:
  fixes x :: "'r crates"
  defines "server \<equiv> [flag_named ''a'' 2, flag_named ''b'' 3]"
  defines "old \<equiv> populate x (flags_patch [flag_named ''a'' 1])"
  defines "pushed \<equiv> snd (patch x (flags_patch [flag_named ''b'' 3]) old)"
  defines "answer \<equiv> flags_patch (filter (\<lambda>f. sn_version pushed < ff_updated_at f) server)"
  shows "sn_version pushed = 3 \<and> answer = flags_patch [] \<and> patch x answer pushed = (Unchanged, pushed) \<and>
    map_of (sn_flags pushed) ''a'' = Some (flag_named ''a'' 1)"
proof -
  have old: "sn_flags old = [(''a'', flag_named ''a'' 1)]" "sn_segments old = []" "sn_populated old"
    by (simp_all add: old_def populate_def populate_item_def flags_patch_def)
  then have pushed: "sn_flags pushed = [(''a'', flag_named ''a'' 1), (''b'', flag_named ''b'' 3)]" "sn_populated pushed"
    "sn_version pushed = 3"
    by (simp_all add: pushed_def patch_def flags_patch_def patch_flag_def patch_item_def)
  then have "answer = flags_patch []" by (simp add: answer_def server_def)
  with pushed show ?thesis by (simp add: flags_patch_def patch_def)
qed

section \<open>The status while a full data set is awaited\<close>

text \<open>
  A patch without a conflict that arrives while a conflict is unresolved makes the status Ready,
  and the data initialized, before the connection marks it stale again: two writes that another
  thread can come between.
\<close>

theorem awaiting_patch_shows_ready:
  assumes "cs_awaiting c" and "parse_envelope x p = Some e" and "env_message_type e = ''data-sync''"
    and "ds_event_type (env_data e) = ''patch''" and "fst (patch x (env_data e) (cs_store c)) \<noteq> VersionConflict"
  shows "\<exists>c1 c2. apply_payload x p c = (AppliedPatch, c1) \<and> cs_awaiting c1 \<and>
    tracker_status (cs_tracker c1) = Ready \<and>
    handle_apply_result AppliedPatch stop w c1 = (None, c2) \<and> cs_awaiting c2 \<and>
    tracker_status (cs_tracker c2) = Stale \<and> tracker_initialized (cs_tracker c2)"
proof -
  obtain r s where p: "patch x (env_data e) (cs_store c) = (r, s)" by fastforce
  with assms have "apply_message x p (cs_store c) (cs_tracker c) = (AppliedPatch, s, tracker_set Ready (cs_tracker c))"
    by (cases r) (simp_all add: apply_message_def)
  with assms(1) show ?thesis by (simp add: apply_payload_def handle_apply_result_def Let_def)
qed

section \<open>What an answer to a flush covers\<close>

text \<open>
  An answer covers the events since the flush message before it. A plain flush is such a
  message: when it fails, nobody is told, and a following flush that waits is answered true.
\<close>

theorem plain_flush_takes_the_failure:
  assumes "0 < batch_size w" and "process (FlushMsg False) env (w, c) = (keep, reply, w1, c1)"
    and "\<not> ew_delivery_stopped w1"
  shows "reply = None \<and> (\<exists>w2 c2. process (FlushMsg True) env' (w1, c1) = (True, Some True, w2, c2))"
proof -
  obtain outcome w0 where f: "flush env (w, c) = (outcome, w0, c1)" and w1: "w1 = answered outcome w0" and "reply = None"
    using assms(2) by (auto simp: process_def answered_def Let_def split: prod.splits)
  moreover have "ew_buffer w1 = []" "\<not> ew_unreported_failure w1"
    using flush_effect [OF f assms(1)] by (simp_all add: w1 answered_def)
  ultimately show ?thesis
    using assms(3) by (simp add: process_def flush_def outcome_delivered_def Let_def)
qed

section \<open>Secrets of a thousand characters\<close>

text \<open>
  The position at which the token splits the secret is written with three digits: a position
  from 1000 on loses its leading digit, and the token names another one.
\<close>

theorem long_position_is_cut:
  "encode_number 1000 3 = encode_number 0 3 \<and> encode_number 1234 3 = encode_number 234 3"
  by code_simp

end
