(* ===== verification/Waiting.thy ===== *)
theory Waiting
  imports Status Machine Options
begin

text \<open>
  Many threads in \<^verbatim>\<open>wait_until_initialized\<close> of \<^verbatim>\<open>src/data_sync/status.rs\<close> while others set
  the status. What a thread does between taking and giving up the lock is one step; blocking on
  the condition variable gives the lock up in the same step. No wake-up is lost.
\<close>

section \<open>One thread\<close>

text \<open>
  Where a waiting thread is: before its first look, about to test under the lock, blocked on
  the condition variable, past its deadline and about to take the lock again, or back.
\<close>

datatype waiter =
    WaitStart duration
  | WaitTest nat
  | WaitBlocked nat
  | WaitLate
  | WaitDone bool

text \<open>\<^verbatim>\<open>now.checked_add(timeout).unwrap_or(now)\<close>; \<open>horizon\<close> is the platform's last instant.\<close>

definition wait_deadline :: "nat \<Rightarrow> nat \<Rightarrow> duration \<Rightarrow> nat" where
  "wait_deadline horizon now timeout = (if now + timeout \<le> horizon then now + timeout else now)"

fun waiter_step :: "nat \<Rightarrow> nat \<Rightarrow> status_tracker \<Rightarrow> waiter \<Rightarrow> waiter" where
  "waiter_step horizon now t (WaitStart timeout) =
    (if tracker_initialized t then WaitDone True else WaitTest (wait_deadline horizon now timeout))"
| "waiter_step horizon now t (WaitTest deadline) =
    (if \<not> tracker_initialized t \<and> tracker_status t \<noteq> Closed then
       if deadline \<le> now then WaitDone (tracker_initialized t) else WaitBlocked deadline
     else WaitDone (tracker_initialized t))"
| "waiter_step horizon now t WaitLate = WaitDone (tracker_initialized t)"
| "waiter_step horizon now t w = w"

text \<open>Woken, a thread takes the lock and tests again.\<close>

fun wake :: "waiter \<Rightarrow> waiter" where
  "wake (WaitBlocked deadline) = WaitTest deadline"
| "wake w = w"

lemma waiter_test_round:
  "waiter_step horizon now t (WaitTest d) = WaitDone b \<longleftrightarrow> wait_loop (if d \<le> now then [DeadlinePassed] else []) t = Some b"
  by (auto simp: wait_loop.simps)

section \<open>All threads\<close>

record wait_state =
  ws_tracker :: status_tracker
  ws_waiters :: "waiter list"

inductive wait_step :: "nat \<Rightarrow> wait_state \<Rightarrow> wait_state \<Rightarrow> bool" for horizon where
  wait_call: "wait_step horizon s (s\<lparr>ws_waiters := ws_waiters s @ [WaitStart timeout]\<rparr>)"
| wait_own: "i < length (ws_waiters s) \<Longrightarrow>
    wait_step horizon s (s\<lparr>ws_waiters := (ws_waiters s)[i := waiter_step horizon now (ws_tracker s) (ws_waiters s ! i)]\<rparr>)"
| wait_spurious: "i < length (ws_waiters s) \<Longrightarrow>
    wait_step horizon s (s\<lparr>ws_waiters := (ws_waiters s)[i := wake (ws_waiters s ! i)]\<rparr>)"
| wait_timeout: "i < length (ws_waiters s) \<Longrightarrow> ws_waiters s ! i = WaitBlocked deadline \<Longrightarrow>
    wait_step horizon s (s\<lparr>ws_waiters := (ws_waiters s)[i := WaitLate]\<rparr>)"
| wait_set: "tracker_set_notify status (ws_tracker s) = (notify, t) \<Longrightarrow>
    wait_step horizon s \<lparr>ws_tracker = t, ws_waiters = (if notify then map wake (ws_waiters s) else ws_waiters s)\<rparr>"

section \<open>The invariant\<close>

text \<open>What is true of a thread, given the tracker: only who has to wait is blocked, and an answer true is right.\<close>

fun waiter_ok :: "status_tracker \<Rightarrow> waiter \<Rightarrow> bool" where
  "waiter_ok t (WaitBlocked d) = (\<not> tracker_initialized t \<and> tracker_status t \<noteq> Closed)"
| "waiter_ok t (WaitDone b) = (b \<longrightarrow> tracker_initialized t)"
| "waiter_ok t w = True"

definition wait_ok :: "wait_state \<Rightarrow> bool" where
  "wait_ok s = (st_status (ws_tracker s) \<in> range sync_status_byte \<and> list_all (waiter_ok (ws_tracker s)) (ws_waiters s))"

lemma waiter_step_ok: "waiter_ok t w \<Longrightarrow> waiter_ok t (waiter_step horizon now t w)"
  by (cases w) auto

lemma wake_ok: "waiter_ok t w \<Longrightarrow> waiter_ok t (wake w)"
  by (cases w) auto

lemma list_all_update: "list_all P xs \<Longrightarrow> P x \<Longrightarrow> list_all P (xs[i := x])"
  by (auto simp: list_all_iff dest!: set_update_subset_insert [THEN subsetD])

lemma set_ok:
  assumes "waiter_ok t w" and "st_status t \<in> range sync_status_byte" and "tracker_set_notify status t = (notify, t')"
  shows "waiter_ok t' (if notify then wake w else w)"
proof (cases w)
  case (WaitBlocked d)
  with assms(1) have t: "\<not> tracker_initialized t" "tracker_status t \<noteq> Closed" by simp_all
  have t': "t' = tracker_set status t" "notify = fst (tracker_set_notify status t)"
    using assms(3) by (simp_all add: tracker_set_def)
  with WaitBlocked set_wakes_waiters [OF t assms(2), of status] show ?thesis by (auto simp del: tracker_set_simps)
next
  case (WaitDone b)
  have "t' = tracker_set status t" using assms(3) by (simp add: tracker_set_def)
  with WaitDone assms(1) show ?thesis by auto
qed simp_all

interpretation waiting: stepping "wait_step horizon" wait_ok for horizon
proof
  fix s s'
  assume step: "wait_step horizon s s'" and ok: "wait_ok s"
  then have at: "waiter_ok (ws_tracker s) (ws_waiters s ! i)" if "i < length (ws_waiters s)" for i
    using that by (simp add: wait_ok_def list_all_length)
  from step show "wait_ok s'"
  proof cases
    case (wait_set status notify t)
    have "st_status t = sync_status_byte status"
      using wait_set(2) by (auto simp: tracker_set_notify_def Let_def)
    then have "st_status t \<in> range sync_status_byte" by (rule range_eqI)
    moreover have "list_all (waiter_ok t) (if notify then map wake (ws_waiters s) else ws_waiters s)"
      using ok set_ok [OF _ _ wait_set(2)] by (auto simp: wait_ok_def list_all_iff split: if_splits)
    ultimately show ?thesis by (simp add: wait_set(1) wait_ok_def)
  qed (use ok at in \<open>auto simp: wait_ok_def intro!: list_all_update waiter_step_ok wake_ok\<close>)
qed

section \<open>Properties\<close>

definition wait_start :: "sync_status \<Rightarrow> bool \<Rightarrow> wait_state" where
  "wait_start status initialized = \<lparr>ws_tracker = tracker_new status initialized, ws_waiters = []\<rparr>"

text \<open>
  C20. No wake-up is lost: however many threads wait while others set the status, once data has
  arrived or the synchronizer has stopped for good no thread is blocked, and each that is still
  in the call returns after at most two steps of its own, whatever its clock says, with whether
  data has arrived; an answer true was never wrong.
\<close>

theorem no_wakeup_is_lost:
  assumes "(wait_step horizon)\<^sup>*\<^sup>* (wait_start status initialized) s" and "w \<in> set (ws_waiters s)"
    and "tracker_initialized (ws_tracker s) \<or> tracker_status (ws_tracker s) = Closed"
  shows "\<exists>b. waiter_step horizon now2 (ws_tracker s) (waiter_step horizon now1 (ws_tracker s) w) = WaitDone b \<and>
    (w = WaitDone b \<or> b = tracker_initialized (ws_tracker s)) \<and> (b \<longrightarrow> tracker_initialized (ws_tracker s))"
proof -
  have "wait_ok (wait_start status initialized)"
    by (simp add: wait_ok_def wait_start_def tracker_new_def)
  from waiting.steps_inv [OF assms(1) this] assms(2) have "waiter_ok (ws_tracker s) w"
    by (simp add: wait_ok_def list_all_iff)
  with assms(3) show ?thesis by (cases w) auto
qed

theorem no_wakeup_is_lost_witness:
  "\<exists>s. (wait_step 100)\<^sup>*\<^sup>* (wait_start Starting False) s \<and> ws_waiters s = [WaitTest 7] \<and>
    waiter_step 100 9 (ws_tracker s) (WaitTest 7) = WaitDone True"
proof -
  define s1 where "s1 = (wait_start Starting False)\<lparr>ws_waiters := [WaitStart 5]\<rparr>"
  define s2 where "s2 = s1\<lparr>ws_waiters := [WaitTest 7]\<rparr>"
  define s3 where "s3 = s2\<lparr>ws_waiters := [WaitBlocked 7]\<rparr>"
  define s4 where "s4 = \<lparr>ws_tracker = tracker_set Ready (ws_tracker s3), ws_waiters = [WaitTest 7]\<rparr>"
  have t: "ws_tracker s1 = tracker_new Starting False" by (simp add: s1_def wait_start_def)
  have "wait_step 100 (wait_start Starting False) s1"
    using wait_call [of 100 "wait_start Starting False" 5] by (simp add: s1_def wait_start_def)
  moreover have "wait_step 100 s1 s2"
    using wait_own [of 0 s1 100 2] by (simp add: t s2_def) (simp add: s1_def wait_deadline_def)
  moreover have "wait_step 100 s2 s3"
    using wait_own [of 0 s2 100 3] by (simp add: s3_def s2_def t)
  moreover have "wait_step 100 s3 s4"
    using wait_set [of Ready s3 True "tracker_set Ready (ws_tracker s3)" 100]
    by (simp add: s4_def s3_def tracker_set_def tracker_set_notify_def Let_def)
  ultimately have run: "(wait_step 100)\<^sup>*\<^sup>* (wait_start Starting False) s4"
    by (meson rtranclp.rtrancl_into_rtrancl rtranclp.rtrancl_refl)
  have "tracker_initialized (ws_tracker s4)" by (simp add: s4_def)
  with no_wakeup_is_lost [OF run, of "WaitTest 7" 9 9] run show ?thesis
    by (intro exI [of _ s4]) (simp add: s4_def)
qed

end
