(* ===== verification/Recording.thy ===== *)
theory Recording
  imports Events
begin

text \<open>
  Recording taken apart: the calls of \<^verbatim>\<open>EventProcessor::record\<close> (\<^verbatim>\<open>src/events.rs\<close>) of any
  number of threads, each atomic access a step of its own, between which other recording
  threads, flushes, closes and the worker act. A thread that has loaded the sender keeps the
  channel open, so it may still send after a close has begun.
\<close>

section \<open>One call\<close>

text \<open>
  Where a call is: before it loads the closed flag, before it loads the flag of a stopped
  delivery, before it loads the sender, before it asks whether the channel is full, before it takes a slot, before it takes its bytes, before it gives the
  slot back, before it sends, or back.
\<close>

datatype recorder =
    RecGate usize payload_event
  | RecStopped usize payload_event
  | RecLoad usize payload_event
  | RecFull usize payload_event
  | RecSlot usize payload_event
  | RecBytes usize payload_event
  | RecUndo usize
  | RecSend event_admission payload_event
  | RecDone bool

abbreviation with_capacity :: "event_capacity \<Rightarrow> event_processor_inner \<Rightarrow> event_processor_inner" where
  "with_capacity c p \<equiv> p\<lparr>pr_capacity := c\<rparr>"

fun recorder_step :: "event_processor_inner \<Rightarrow> recorder \<Rightarrow> event_processor_inner \<times> recorder" where
  "recorder_step p (RecGate n payload) =
    (p, if pr_closed p then RecDone False else RecStopped n payload)"
| "recorder_step p (RecStopped n payload) =
    (p, if pr_delivery_stopped p then RecDone False else RecLoad n payload)"
| "recorder_step p (RecLoad n payload) =
    (p, if \<not> pr_has_sender p then RecDone False else RecFull n payload)"
| "recorder_step p (RecFull n payload) =
    (if queue_full p then (snd (log_event_queue_overflow p), RecDone False) else (p, RecSlot n payload))"
| "recorder_step p (RecSlot n payload) =
    (let c = pr_capacity p
     in case counter_next (cap_max_queued_events c) 1 (cap_queued_events c) of
          None \<Rightarrow> (snd (log_event_queue_overflow p), RecDone False)
        | Some events \<Rightarrow> (with_capacity (c\<lparr>cap_queued_events := events\<rparr>) p, RecBytes n payload))"
| "recorder_step p (RecBytes n payload) =
    (let c = pr_capacity p
     in case counter_next (cap_max_retained_bytes c) n (cap_retained_bytes c) of
          None \<Rightarrow> (p, RecUndo n)
        | Some bytes \<Rightarrow>
            (with_capacity (c\<lparr>cap_retained_bytes := bytes\<rparr>) p,
             RecSend \<lparr>adm_retained_bytes = n, adm_occupies_queue_slot = True\<rparr> payload))"
| "recorder_step p (RecUndo n) =
    (let c = pr_capacity p
     in (snd (log_event_queue_overflow (with_capacity (c\<lparr>cap_queued_events := cap_queued_events c - 1\<rparr>) p)),
         RecDone False))"
| "recorder_step p (RecSend a payload) =
    (case channel_try_send False (PayloadMsg \<lparr>pe_payload = payload, pe_admission = a\<rparr>) p of
       (SendOk, p') \<Rightarrow> (mark_event_queue_available p', RecDone True)
     | (SendFull, p') \<Rightarrow>
         (snd (log_event_queue_overflow (with_capacity (admission_drop a (pr_capacity p')) p')), RecDone False)
     | (SendDisconnected, p') \<Rightarrow> (with_capacity (admission_drop a (pr_capacity p')) p', RecDone False))"
| "recorder_step p (RecDone b) = (p, RecDone b)"

text \<open>Run without interruption, the steps are the call of \<open>Events\<close>.\<close>

fun recorder_run :: "nat \<Rightarrow> event_processor_inner \<Rightarrow> recorder \<Rightarrow> event_processor_inner \<times> recorder" where
  "recorder_run 0 p r = (p, r)"
| "recorder_run (Suc k) p r = (case recorder_step p r of (p', r') \<Rightarrow> recorder_run k p' r')"

lemma recorder_run_record:
  "recorder_run 7 p (RecGate n payload) = (case record_inner False n payload p of (b, p') \<Rightarrow> (p', RecDone b))"
  by (auto simp: eval_nat_numeral record_inner_def try_reserve_def channel_try_send_def mark_event_queue_available_def
      log_event_queue_overflow_def queue_full_def Let_def split: option.splits)

section \<open>All threads\<close>

text \<open>What a call holds of the two counters.\<close>

fun in_flight :: "recorder \<Rightarrow> reservation multiset" where
  "in_flight (RecBytes n payload) = {#SlotTaken n#}"
| "in_flight (RecUndo n) = {#SlotTaken n#}"
| "in_flight (RecSend a payload) = {#Admitted a#}"
| "in_flight r = {#}"

definition all_in_flight :: "recorder list \<Rightarrow> reservation multiset" where
  "all_in_flight rs = (\<Sum>r \<leftarrow> rs. in_flight r)"

lemma all_in_flight_simps [simp]:
  "all_in_flight [] = {#}" "all_in_flight (r # rs) = in_flight r + all_in_flight rs"
  "all_in_flight (rs @ qs) = all_in_flight rs + all_in_flight qs"
  by (simp_all add: all_in_flight_def)

lemma recorder_step_steps:
  assumes "recorder_step p r = (p', r')"
  shows "capacity_steps (pr_capacity p, admissions (queued (pr_queue p)) + in_flight r + R)
    (pr_capacity p', admissions (queued (pr_queue p')) + in_flight r' + R)"
proof (cases r)
  case (RecSlot n payload)
  with assms take_slot [of "pr_capacity p" _ "admissions (queued (pr_queue p)) + R" n] show ?thesis
    by (auto simp: Let_def split: option.splits)
next
  case (RecBytes n payload)
  with assms take_bytes [of "pr_capacity p" n _ "admissions (queued (pr_queue p)) + R"] show ?thesis
    by (auto simp: Let_def split: option.splits)
next
  case (RecUndo n)
  with assms roll_back [of "pr_capacity p" n "admissions (queued (pr_queue p)) + R"] show ?thesis
    by (auto simp: Let_def)
next
  case (RecSend a payload)
  with assms admission_drop_steps [of "pr_capacity p" a "admissions (queued (pr_queue p)) + R"] show ?thesis
    by (auto simp: channel_try_send_def mark_event_queue_available_def add_ac split: if_splits)
qed (use assms in \<open>auto split: if_splits\<close>)

inductive record_step ::
  "event_processor_inner \<times> 'u event_worker \<times> recorder list \<Rightarrow>
    event_processor_inner \<times> 'u event_worker \<times> recorder list \<Rightarrow> bool" where
  rec_call: "record_step (p, w, rs) (p, w, rs @ [RecGate n payload])"
| rec_own: "i < length rs \<Longrightarrow> recorder_step p (rs ! i) = (p', r') \<Longrightarrow> record_step (p, w, rs) (p', w, rs[i := r'])"
| rec_other: "event_step (p, w) (p', w') \<Longrightarrow> record_step (p, w, rs) (p', w', rs)"

lemma in_flight_update:
  assumes "i < length rs"
  shows "\<exists>Q. all_in_flight rs = in_flight (rs ! i) + Q \<and> (\<forall>r. all_in_flight (rs[i := r]) = in_flight r + Q)"
proof (intro exI conjI allI)
  define Q where "Q = all_in_flight (take i rs @ drop (Suc i) rs)"
  show "all_in_flight rs = in_flight (rs ! i) + Q"
    by (subst id_take_nth_drop [OF assms]) (simp add: Q_def add_ac)
  show "all_in_flight (rs[i := r]) = in_flight r + Q" for r
    by (simp add: upd_conv_take_nth_drop [OF assms] Q_def add_ac)
qed

lemma record_step_steps:
  assumes "record_step (p, w, rs) (p', w', rs')" and "0 < batch_size w"
  shows "capacity_steps (pr_capacity p, held (p, w) + all_in_flight rs) (pr_capacity p', held (p', w') + all_in_flight rs') \<and>
    ew_config w' = ew_config w"
  using assms(1)
proof cases
  case (rec_own i r')
  obtain Q where Q: "all_in_flight rs = in_flight (rs ! i) + Q" "all_in_flight (rs[i := r']) = in_flight r' + Q"
    using in_flight_update [OF rec_own(3)] by blast
  from recorder_step_steps [OF rec_own(4), of "admissions (ew_buffer w) + Q"] show ?thesis
    by (simp add: rec_own(1,2) Q add_ac)
next
  case rec_other
  with event_step_steps [of "(p, w)" "(p', w')" "all_in_flight rs"] assms(2) show ?thesis by simp
qed simp

lemma record_steps_steps:
  assumes "record_step\<^sup>*\<^sup>* (p, w, rs) (p', w', rs')" and "0 < batch_size w"
  shows "capacity_steps (pr_capacity p, held (p, w) + all_in_flight rs) (pr_capacity p', held (p', w') + all_in_flight rs') \<and>
    ew_config w' = ew_config w"
  using assms(1)
proof (induction "(p', w', rs')" arbitrary: p' w' rs' rule: rtranclp_induct)
  case (step s)
  obtain q v qs where s: "s = (q, v, qs)" by (cases s)
  from step.hyps(3) [OF s] have IH: "capacity_steps (pr_capacity p, held (p, w) + all_in_flight rs)
      (pr_capacity q, held (q, v) + all_in_flight qs)" "ew_config v = ew_config w" by blast+
  with record_step_steps [OF step.hyps(2) [unfolded s]] assms(2) show ?case
    by (auto simp: batch_size_def intro: rtranclp_trans)
qed simp

section \<open>Properties\<close>

definition flight_bytes :: "recorder list \<Rightarrow> nat" where
  "flight_bytes rs = (\<Sum>r \<leftarrow> rs. case r of RecSend a payload \<Rightarrow> unat (adm_retained_bytes a) | _ \<Rightarrow> 0)"

lemma held_bytes_flight: "\<Sum>\<^sub># (image_mset unat (held_bytes (all_in_flight rs))) = flight_bytes rs"
proof (induction rs)
  case (Cons r rs)
  then show ?case by (cases r) (simp_all add: flight_bytes_def held_bytes_plus)
qed (simp add: flight_bytes_def)

text \<open>
  C10. The memory budget holds at every moment: however the single atomic accesses of recording
  threads interleave with each other, with flushes, closes and the worker, the bytes counted
  are exactly those of the events in the queue, in the worker's batch and in the hands of the
  threads, they never exceed the configured budget, and the slots never exceed theirs.
\<close>

theorem memory_budget_holds_throughout:
  assumes "event_processor_new opts None = Active p0" and "0 < unat (wc_max_events_per_request cfg)"
    and "record_step\<^sup>*\<^sup>* (p0, event_worker_new cfg client stopped, []) (p, w, rs)"
  shows "unat (cap_retained_bytes (pr_capacity p)) = retained (p, w) + flight_bytes rs \<and>
    retained (p, w) + flight_bytes rs \<le> unat (opt_max_event_queue_size_bytes opts) \<and>
    cap_queued_events (pr_capacity p) \<le> opt_max_events_in_queue opts"
proof -
  have p0: "pr_queue p0 = []"
    "pr_capacity p0 = capacity_new (opt_max_events_in_queue opts) (opt_max_event_queue_size_bytes opts)"
    using assms(1) by (auto simp: event_processor_new_def worker_spawn_def split: if_splits)
  have w0: "ew_buffer (event_worker_new cfg client stopped) = []" "0 < batch_size (event_worker_new cfg client stopped)"
    using assms(2) by (simp_all add: event_worker_new_def batch_size_def)
  have "capacity_steps (capacity_new (opt_max_events_in_queue opts) (opt_max_event_queue_size_bytes opts), {#})
      (pr_capacity p, held (p, w) + all_in_flight rs)"
    using record_steps_steps [OF assms(3) w0(2)] p0 w0(1) by simp
  from capacity_is_exact [OF this] show ?thesis
    by (simp add: retained_def held_bytes_plus held_bytes_admissions held_bytes_flight word_le_nat_alt)
qed

text \<open>
  A call that begins after a close has begun records nothing, whatever the threads that were
  already on their way still do.
\<close>

lemma record_step_closed:
  assumes "record_step (p, w, rs) (p', w', rs')" and "pr_closed p"
  shows "pr_closed p'"
  using assms(1)
proof cases
  case (rec_own i r')
  with assms(2) show ?thesis
    by (cases "rs ! i") (auto simp: channel_try_send_def log_event_queue_overflow_def mark_event_queue_available_def Let_def
        split: if_splits option.splits)
next
  case rec_other
  from rec_other(2) show ?thesis
  proof (cases rule: event_step_cases)
    case (step_record raced n payload q b q' v)
    with assms(2) show ?thesis by (auto simp: record_inner_def)
  next
    case (step_close e1 e2 q ds q' v)
    with inner_close_simps(3) [OF step_close(3)] show ?thesis by simp
  qed (use assms(2) in simp_all)
qed (use assms(2) in simp)

theorem calls_after_close_record_nothing:
  assumes "record_step\<^sup>*\<^sup>* (p, w, rs) (p', w', rs')" and "pr_closed p"
    and "length rs \<le> i" and "i < length rs'"
  shows "rs' ! i = RecDone False \<or> (\<exists>n payload. rs' ! i = RecGate n payload)"
proof -
  have "pr_closed p' \<and> (\<forall>i. length rs \<le> i \<and> i < length rs' \<longrightarrow>
      rs' ! i = RecDone False \<or> (\<exists>n payload. rs' ! i = RecGate n payload))"
    using assms(1)
  proof (induction "(p', w', rs')" arbitrary: p' w' rs' rule: rtranclp_induct)
    case (step s)
    obtain q v qs where s: "s = (q, v, qs)" by (cases s)
    from step.hyps(3) [OF s] have IH: "pr_closed q" "\<And>i. length rs \<le> i \<Longrightarrow> i < length qs \<Longrightarrow>
        qs ! i = RecDone False \<or> (\<exists>n payload. qs ! i = RecGate n payload)" by blast+
    from step.hyps(2) [unfolded s] have "\<forall>i. length rs \<le> i \<and> i < length rs' \<longrightarrow>
        rs' ! i = RecDone False \<or> (\<exists>n payload. rs' ! i = RecGate n payload)"
    proof cases
      case (rec_call n payload)
      with IH(2) show ?thesis by (auto simp: nth_append less_Suc_eq)
    next
      case (rec_own j r')
      then show ?thesis using IH(1) IH(2) [of j] IH(2) by (fastforce simp: nth_list_update)
    next
      case rec_other
      with IH(2) show ?thesis by simp
    qed
    with record_step_closed [OF step.hyps(2) [unfolded s] IH(1)] show ?case by blast
  qed (use assms(2) in auto)
  with assms(3,4) show ?thesis by blast
qed

section \<open>Witnesses\<close>

definition sample_admission :: event_admission where
  "sample_admission = \<lparr>adm_retained_bytes = 7, adm_occupies_queue_slot = True\<rparr>"

text \<open>A call that holds seven bytes and has not sent its event yet.\<close>

lemma sample_call_in_flight:
  fixes w :: "'u event_worker"
  assumes "event_processor_new opts None = Active p0" and "\<not> opt_offline opts" "opt_allow_track opts"
    and "opt_max_events_in_queue opts = 10000" "opt_max_event_queue_size_bytes opts = DEFAULT_MAX_EVENT_QUEUE_SIZE_BYTES"
  shows "\<exists>p. record_step\<^sup>*\<^sup>* (p0, w, []) (p, w, [RecSend sample_admission payload]) \<and> pr_queue p = []"
proof -
  have own: "record_step\<^sup>*\<^sup>* (p0, w, []) (p', w, [r'])"
    if "record_step\<^sup>*\<^sup>* (p0, w, []) (p, w, [r])" "recorder_step p r = (p', r')" for p p' r r'
    using that(1) rec_own [of 0 "[r]" p p' r' w] that(2) by (auto intro: rtranclp.rtrancl_into_rtrancl)
  have cap: "pr_capacity p0 = capacity_new 10000 DEFAULT_MAX_EVENT_QUEUE_SIZE_BYTES"
    and open_p0: "\<not> pr_closed p0" "\<not> pr_delivery_stopped p0" "pr_has_sender p0" "\<not> queue_full p0" "pr_queue p0 = []"
    using assms by (auto simp: event_processor_new_def worker_spawn_def queue_full_def)
  define p1 where "p1 = with_capacity ((pr_capacity p0)\<lparr>cap_queued_events := 1\<rparr>) p0"
  define p2 where "p2 = with_capacity ((pr_capacity p1)\<lparr>cap_retained_bytes := 7\<rparr>) p1"
  have slot: "recorder_step p0 (RecSlot 7 payload) = (p1, RecBytes 7 payload)"
    by (simp add: cap capacity_new_def counter_next_def checked_add_def usize_max_def p1_def Let_def)
  have bytes: "recorder_step p1 (RecBytes 7 payload) = (p2, RecSend sample_admission payload)"
    by (simp add: cap capacity_new_def counter_next_def checked_add_def usize_max_def p1_def p2_def sample_admission_def
        DEFAULT_MAX_EVENT_QUEUE_SIZE_BYTES_def Let_def)
  have "record_step\<^sup>*\<^sup>* (p0, w, []) (p0, w, [RecGate 7 payload])"
    using rec_call [of p0 w "[]" 7 payload] by (simp add: r_into_rtranclp)
  from own [OF this, of p0 "RecStopped 7 payload"] open_p0
  have "record_step\<^sup>*\<^sup>* (p0, w, []) (p0, w, [RecStopped 7 payload])" by simp
  from own [OF this, of p0 "RecLoad 7 payload"] open_p0
  have "record_step\<^sup>*\<^sup>* (p0, w, []) (p0, w, [RecLoad 7 payload])" by simp
  from own [OF this, of p0 "RecFull 7 payload"] open_p0
  have "record_step\<^sup>*\<^sup>* (p0, w, []) (p0, w, [RecFull 7 payload])" by simp
  from own [OF this, of p0 "RecSlot 7 payload"] open_p0
  have "record_step\<^sup>*\<^sup>* (p0, w, []) (p0, w, [RecSlot 7 payload])" by simp
  from own [OF own [OF this slot] bytes] have "record_step\<^sup>*\<^sup>* (p0, w, []) (p2, w, [RecSend sample_admission payload])" .
  then show ?thesis using open_p0 by (intro exI [of _ p2]) (simp add: p2_def p1_def)
qed

theorem memory_budget_holds_throughout_witness:
  "\<exists>(opts :: (str, unit) fb_options) p0 p (w :: unit event_worker) rs. event_processor_new opts None = Active p0 \<and>
    record_step\<^sup>*\<^sup>* (p0, event_worker_new sample_config sample_client False, []) (p, w, rs) \<and>
    flight_bytes rs = 7 \<and> unat (cap_retained_bytes (pr_capacity p)) = 7"
proof -
  obtain opts where b: "build sample_crates sample_url_crate (options_builder_new ''abc='' :: unit fb_options_builder) = Inr opts"
    by (rule sample_options)
  note opts = sample_built(3,4,6,7) [OF b]
  obtain p0 where p0: "event_processor_new opts None = Active p0" by (rule processor_online [OF opts(1,2)])
  obtain p where run: "record_step\<^sup>*\<^sup>* (p0, event_worker_new sample_config sample_client False :: unit event_worker, [])
      (p, event_worker_new sample_config sample_client False, [RecSend sample_admission (pe_payload sample_event)])"
    and queue: "pr_queue p = []"
    using sample_call_in_flight [OF p0 opts] by blast
  have "0 < unat (wc_max_events_per_request sample_config)" by (simp add: sample_config_def)
  moreover have flight: "flight_bytes [RecSend sample_admission (pe_payload sample_event)] = 7"
    by (simp add: flight_bytes_def sample_admission_def)
  ultimately have "unat (cap_retained_bytes (pr_capacity p)) = 7"
    using memory_budget_holds_throughout [OF p0 _ run] queue by (simp add: retained_def event_worker_new_def)
  with p0 run flight show ?thesis by blast
qed

end
