(* ===== verification/Spec2Isabelle.thy ===== *)
theory Spec2Isabelle
  imports Example_Properties System Boundaries Waiting Recording
begin

text \<open>
  A verification library for the FeatBit server-side SDK for Rust (\<^verbatim>\<open>featbit-server-sdk\<close>
  and its OpenTelemetry integration). Paths below are relative to the crate, \<^verbatim>\<open>src/\<close> of
  the repository.

  \<^bold>\<open>The program.\<close> An application creates one \<^verbatim>\<open>FbClient\<close>. A synchronizer thread keeps an
  immutable snapshot of feature flags and user segments up to date over a WebSocket; evaluation
  of a flag for a user is local, reads the published snapshot once and converts the text of the
  selected variation to the type asked for. Each attempt is reported to an observer and queued
  as an analytics event, within a memory budget; an event worker sends batches over HTTP. The
  parts share a snapshot store (atomic swap), a status byte with a condition variable, a bounded
  channel with two atomic capacity counters, and flags for closing.

  \<^bold>\<open>The theories\<close>, in the order of their imports:

  \<^item> \<open>Prelude\<close>, \<open>Rust_Str\<close>, \<open>Rust_F64\<close>, \<open>External\<close>: what stands for Rust's built-in types
    (usize as a 64-bit word with checked and saturating operations, byte strings, hash and
    B-tree maps, i64 and binary64 parsing and arithmetic with rounding written out) and for the
    crates outside the repository, whose functions are fields of a record argument.
  \<^item> \<open>Model\<close> (\<^verbatim>\<open>model.rs\<close>): users with their builder, the data set, derived equality and JSON
    deserialization. \<open>Wire\<close>: a reference encoder of the protocol and the round trip, also through
    trees to which a newer server has added entries.
  \<^item> \<open>Prepared\<close> (\<^verbatim>\<open>prepared.rs\<close>), \<open>Store\<close> (\<^verbatim>\<open>store.rs\<close>): the index of a snapshot and the two
    writers \<open>populate\<close> and \<open>patch\<close>; per key the newest object wins, patches commute up to
    conflicts, the index is that of the stored objects. Snapshots are ordered by the versions they
    hold (an instance of \<open>preorder\<close>); a patch is the join of snapshot and update.
  \<^item> \<open>Operators\<close>, \<open>Segments\<close>, \<open>Dispatch\<close>, \<open>Evaluator\<close> (\<^verbatim>\<open>evaluation/\<close>): condition operators,
    segment membership, percentage rollouts and the evaluator. The code consults the index,
    carries positions and hashes lazily; \<open>decide\<close> and \<open>spec_evaluate\<close> are the reference without
    any of that, and evaluation equals it on every snapshot the store can publish.
  \<^item> \<open>Options\<close>, \<open>Validation\<close> (\<^verbatim>\<open>options.rs\<close>, \<^verbatim>\<open>options/validation.rs\<close>, \<^verbatim>\<open>error.rs\<close>, \<^verbatim>\<open>lib.rs\<close>): builder, every
    check of \<open>build\<close> in its order, redacted debug output; \<open>options_ok\<close> is what the rest of the
    SDK may assume of options.
  \<^item> \<open>Status\<close>, \<open>Protocol\<close>, \<open>Connection\<close>, \<open>Worker\<close>, \<open>Data_Sync\<close> (\<^verbatim>\<open>data_sync/\<close>, \<^verbatim>\<open>worker.rs\<close>):
    the status cell, message application, connection token and backoff, the session and
    reconnect loops as state machines over what network, clock and stop signal do, and the
    thread around them. \<open>Machine\<close> and \<open>Sync_Effects\<close>: the loops refine an abstract machine of
    three effects on the state shared with the client. \<open>Waiting\<close>: threads that wait for the first
    data while others set the status; no wake-up is lost.
  \<^item> \<open>Payload\<close>, \<open>Capacity\<close>, \<open>Event_Worker\<close>, \<open>Events\<close> (\<^verbatim>\<open>events.rs\<close>, \<^verbatim>\<open>events/\<close>): payloads with
    their JSON, timestamps and size estimates; the atomic reservation counters under any
    interleaving; batching, chunked delivery with retries and flush acknowledgements; recording,
    flushing and closing, and the joint steps of queue and worker. \<open>Recording\<close>: the call that
    records, taken apart into its atomic accesses. \<open>Delivery\<close>: the history of the
    channel against the worker's answers, delivery at most once and in order, and that a clean
    shutdown loses nothing.
  \<^item> \<open>Observation\<close> (\<^verbatim>\<open>observation.rs\<close>, \<^verbatim>\<open>integrations/opentelemetry/src/lib.rs\<close>): observations and
    the log records the OpenTelemetry observer makes of them.
  \<^item> \<open>Client\<close>, \<open>Client_Evaluation\<close> (\<^verbatim>\<open>client.rs\<close>, \<^verbatim>\<open>client/evaluation.rs\<close>): construction, status,
    tracking, closing, and the typed methods. \<open>attempt\<close>, \<open>outcome_detail\<close> and \<open>after_attempt\<close> are
    the contract that both the value path and the detail path keep. \<open>Client_Run\<close>: the steps of
    all threads on a client and its invariant; \<open>Client_Properties\<close>: what holds of every reachable
    client. \<open>Client_Interleaving\<close>: one evaluation whose loads happen at different moments.
    \<open>End_To_End\<close>: from a message of the server to the value of the application. \<open>Client_Spec\<close>: the
    abstract client, maps with a status and a closed flag; every step of the client and its
    threads is labelled with what happened, and the client is the replay of its labels on the
    abstract one. \<open>Sessions\<close>: over sessions cut anywhere the store holds the newest received
    since the last full data set, a live session shows the status of what it has received, and
    the next one asks for what is missing. \<open>System\<close>: the client's actions as steps of the channel
    of its events, and what the server gets of them. \<open>Boundaries\<close>: exact statements of where these
    guarantees end.
  \<^item> \<open>Example_Server\<close>, \<open>Example_Console\<close> (\<^verbatim>\<open>examples/\<close>): an HTTP service around the client, from
    query parameters and JSON bodies to answers and the end of the process, and a command-line
    program. \<open>Example_Properties\<close>: the service answers with the reference decision, alike over GET
    and POST; what its probe means; it leaves no client open.
  \<^item> \<open>Sample\<close>: concrete data on which the theorems with hypotheses are applied.

  \<^bold>\<open>Conventions.\<close> A struct is a record, an enum a datatype, \<^verbatim>\<open>Result\<close> and \<^verbatim>\<open>Option\<close> are sums and
  options, a mutating method returns the new state. A critical section, an atomic operation, or
  a call made while nothing else can interfere is one function; what other threads, the network,
  the scheduler and the clock contribute is an argument (a list of events, a boolean for a race
  that was lost, the time read). Logging is left out; where the code decides whether to log, the
  decision is kept. Loops over events are structural recursions over the list of events, so a
  statement about all lists is one about all prefixes of an unbounded run and no fuel is needed;
  the retry loop counts down the configured attempts. Ghost fields record what was sent, applied,
  acknowledged or observed and are never read by the model.

  \<^bold>\<open>Interfaces.\<close> Locales state what one part relies on in another and are interpreted on the
  model: \<open>status_cell\<close> on the status tracker, \<open>snapshot_source\<close> on the two writers of the store,
  \<open>bounded_counter\<close> on usize counters, \<open>event_recorder\<close> on the event processor, \<open>stepping\<close>,
  \<open>closing\<close> and \<open>implementation\<close> on the synchronizer, the waiting threads and the client.

  \<^bold>\<open>Hypotheses.\<close> Theorems hold for all crates and layouts. A batch size of at least one and
  accepted secrets are what \<open>build\<close> ensures. In the theorems on servable flags the hypotheses are
  those on the data (referenced ids exist, rollouts cover the unit interval). Nothing is assumed of
  the data server: what it sends, and when a session ends, is any list of events.

  \<^bold>\<open>Not modelled.\<close> The text of JSON, regular expressions, MD5, URLs, RFC 3339 dates, WebSocket,
  HTTP and the axum framework (parameters); memory orders weaker than sequential consistency (each
  atomic access is one step). A call of the client is one step of \<open>Client_Run\<close>; a close is its
  three actions, an evaluation is taken apart in \<open>Client_Interleaving\<close>, recording in \<open>Recording\<close>, and the
  joint steps of \<open>Events\<close> interleave recording, closing and the worker inside the event processor,
  which checks its own flag again. Left out are getters that return a field, re-exports, benches, tests and
  their helpers, and the release script.
\<close>

end
